(* ===== verification/Prelude.thy ===== *)
theory Prelude
  imports Main "HOL-Library.Word" "HOL-Library.Monad_Syntax"
begin

text \<open>
  Shared vocabulary of the development: the machine integers and error numbers of the
  driver, the arithmetic macros of its headers, the little-endian layout of a 64-bit index
  entry, and the collection of simplification facts the component theories feed to the
  automation.
\<close>

unbundle bit_operations_syntax

named_theorems moo_defs \<open>definitions that component proofs unfold\<close>
named_theorems moo_inv \<open>facts that an operation preserves an invariant\<close>

type_synonym byte = "8 word"
type_synonym u32 = "32 word"
type_synonym u64 = "64 word"

text \<open>Linux error numbers; an operation returns zero or a negated one.\<close>

abbreviation (input) ENOENT :: int where "ENOENT \<equiv> 2"
abbreviation (input) EIO :: int where "EIO \<equiv> 5"
abbreviation (input) ENOMEM :: int where "ENOMEM \<equiv> 12"
abbreviation (input) EFAULT :: int where "EFAULT \<equiv> 14"
abbreviation (input) EBUSY :: int where "EBUSY \<equiv> 16"
abbreviation (input) ENODEV :: int where "ENODEV \<equiv> 19"
abbreviation (input) EINVAL :: int where "EINVAL \<equiv> 22"
abbreviation (input) EFBIG :: int where "EFBIG \<equiv> 27"
abbreviation (input) ERANGE :: int where "ERANGE \<equiv> 34"
abbreviation (input) EOPNOTSUPP :: int where "EOPNOTSUPP \<equiv> 95"

text \<open>Sizes fixed by the headers.\<close>

abbreviation (input) PAGE_SIZE :: nat where "PAGE_SIZE \<equiv> 4096"
abbreviation (input) PAGE_SHIFT :: nat where "PAGE_SHIFT \<equiv> 12"
abbreviation (input) SECTOR_SIZE :: nat where "SECTOR_SIZE \<equiv> 512"
abbreviation (input) COW_BLOCK_SIZE :: nat where "COW_BLOCK_SIZE \<equiv> 4096"
abbreviation (input) COW_HEADER_SIZE :: nat where "COW_HEADER_SIZE \<equiv> 4096"
abbreviation (input) COW_SECTION_SIZE :: nat where "COW_SECTION_SIZE \<equiv> 4096"
abbreviation (input) SECTORS_PER_BLOCK :: nat where "SECTORS_PER_BLOCK \<equiv> 8"
abbreviation (input) SECTORS_PER_PAGE :: nat where "SECTORS_PER_PAGE \<equiv> 8"
abbreviation (input) COW_UUID_SIZE :: nat where "COW_UUID_SIZE \<equiv> 16"

definition NUM_SEGMENTS :: "nat \<Rightarrow> nat \<Rightarrow> nat" where
  "NUM_SEGMENTS x log_size = drop_bit log_size (x + push_bit log_size 1 - 1)"

definition SECTOR_TO_BLOCK :: "nat \<Rightarrow> nat" where
  "SECTOR_TO_BLOCK sect = sect div SECTORS_PER_BLOCK"

definition ROUND_UP :: "nat \<Rightarrow> nat \<Rightarrow> nat" where
  "ROUND_UP x chunk = ((x + chunk - 1) div chunk) * chunk"

definition ROUND_DOWN :: "nat \<Rightarrow> nat \<Rightarrow> nat" where
  "ROUND_DOWN x chunk = (x div chunk) * chunk"

text \<open>A machine word in memory and in the COW file: byte \<open>k\<close> holds bits \<open>8 k\<close> to \<open>8 k + 7\<close>.\<close>

definition le_byte :: "'a::len word \<Rightarrow> nat \<Rightarrow> byte" where
  "le_byte v k = ucast (drop_bit (8 * k) v)"

definition le_word32 :: "(nat \<Rightarrow> byte) \<Rightarrow> u32" where
  "le_word32 b =
     ucast (b 0) OR push_bit 8 (ucast (b 1)) OR push_bit 16 (ucast (b 2)) OR
     push_bit 24 (ucast (b 3))"

definition le_word64 :: "(nat \<Rightarrow> byte) \<Rightarrow> u64" where
  "le_word64 b =
     ucast (b 0) OR push_bit 8 (ucast (b 1)) OR push_bit 16 (ucast (b 2)) OR
     push_bit 24 (ucast (b 3)) OR push_bit 32 (ucast (b 4)) OR push_bit 40 (ucast (b 5)) OR
     push_bit 48 (ucast (b 6)) OR push_bit 56 (ucast (b 7))"

lemma NUM_SEGMENTS_div: "NUM_SEGMENTS x n = (x + 2 ^ n - 1) div 2 ^ n"
  by (simp add: NUM_SEGMENTS_def drop_bit_eq_div push_bit_eq_mult)

lemma NUM_SEGMENTS_mono: "x \<le> y \<Longrightarrow> NUM_SEGMENTS x n \<le> NUM_SEGMENTS y n"
  unfolding NUM_SEGMENTS_div by (intro div_le_mono) simp

lemma div_mult_round_up:
  fixes c :: nat
  assumes "0 < c"
  shows "x \<le> ((x + c - 1) div c) * c"
proof -
  have "(x + c - 1) = ((x + c - 1) div c) * c + (x + c - 1) mod c" by simp
  moreover have "(x + c - 1) mod c < c" using assms by simp
  ultimately show ?thesis using assms by linarith
qed

lemma NUM_SEGMENTS_covers: "x \<le> NUM_SEGMENTS x n * 2 ^ n"
  unfolding NUM_SEGMENTS_div by (rule div_mult_round_up) simp

lemma le_word32_le_byte [simp]: "le_word32 (le_byte v) = v"
proof (rule bit_word_eqI)
  fix n :: nat
  assume "n < LENGTH(32)"
  then have n: "n < 32" by simp
  consider "n < 8" | "8 \<le> n \<and> n < 16" | "16 \<le> n \<and> n < 24" | "24 \<le> n"
    using n by linarith
  then show "bit (le_word32 (le_byte v)) n = bit v n"
    using n by cases (auto simp: le_word32_def le_byte_def bit_simps)
qed

lemma le_word64_le_byte [simp]: "le_word64 (le_byte v) = v"
proof (rule bit_word_eqI)
  fix n :: nat
  assume "n < LENGTH(64)"
  then have n: "n < 64" by simp
  consider "n < 8" | "8 \<le> n \<and> n < 16" | "16 \<le> n \<and> n < 24" | "24 \<le> n \<and> n < 32"
    | "32 \<le> n \<and> n < 40" | "40 \<le> n \<and> n < 48" | "48 \<le> n \<and> n < 56" | "56 \<le> n"
    using n by linarith
  then show "bit (le_word64 (le_byte v)) n = bit v n"
    using n by cases (auto simp: le_word64_def le_byte_def bit_simps)
qed

lemma le_word64_cong: "(\<And>k. k < 8 \<Longrightarrow> b k = c k) \<Longrightarrow> le_word64 b = le_word64 c"
  by (simp add: le_word64_def)

lemma le_word32_cong: "(\<And>k. k < 4 \<Longrightarrow> b k = c k) \<Longrightarrow> le_word32 b = le_word32 c"
  by (simp add: le_word32_def)

lemma unat_half_less:
  fixes g :: u64
  assumes "0 < g"
  shows "unat (drop_bit (Suc 0) g) < unat g"
proof -
  have "unat (drop_bit (Suc 0) g) = unat g div 2"
    by (metis One_nat_def drop_bit_eq_div power_one_right unat_drop_bit_eq)
  moreover have "0 < unat g" using assms by (simp add: word_less_nat_alt)
  ultimately show ?thesis by simp
qed

text \<open>
  The loop \<^verbatim>\<open>for (; start < end; start++) { ret = step(start); if (ret) goto error; }\<close> that the
  handlers share: \<open>n\<close> is the number of iterations left, a non-zero code leaves the loop.
\<close>

fun block_loop :: "(nat \<Rightarrow> 's \<Rightarrow> (int \<times> 's) option) \<Rightarrow> nat \<Rightarrow> nat \<Rightarrow> 's \<Rightarrow> (int \<times> 's) option" where
  "block_loop step start 0 s = Some (0, s)"
| "block_loop step start (Suc n) s = do {
     (ret, s) \<leftarrow> step start s;
     if ret \<noteq> 0 then Some (ret, s) else block_loop step (Suc start) n s
   }"

text \<open>
  The contract of a step that such a loop may run: below the capacity it returns, keeps the
  capacity, and on success keeps the invariant and changes the view by \<open>upd\<close>.
\<close>

locale block_step =
  fixes inv :: "'s \<Rightarrow> bool" and cap :: "'s \<Rightarrow> nat" and view :: "'s \<Rightarrow> 'v"
    and upd :: "nat \<Rightarrow> 'v \<Rightarrow> 'v" and step :: "nat \<Rightarrow> 's \<Rightarrow> (int \<times> 's) option"
  assumes step_ok: "inv s \<Longrightarrow> b < cap s \<Longrightarrow>
    \<exists>r s'. step b s = Some (r, s') \<and> cap s' = cap s \<and> (r = 0 \<longrightarrow> inv s' \<and> view s' = upd b (view s))"
begin

lemma loop_ok:
  assumes "inv s" "start + n \<le> cap s"
  shows "\<exists>r s'. block_loop step start n s = Some (r, s') \<and> cap s' = cap s \<and>
    (r = 0 \<longrightarrow> inv s' \<and> view s' = fold upd [start..<start + n] (view s))"
  using assms
proof (induction n arbitrary: start s)
  case (Suc n)
  then obtain r s1 where s1: "step start s = Some (r, s1)" "cap s1 = cap s"
    "r = 0 \<longrightarrow> inv s1 \<and> view s1 = upd start (view s)"
    using step_ok[of s start] by auto
  have split: "[start..<start + Suc n] = start # [Suc start..<Suc start + n]"
    by (metis add_Suc_right add_Suc_shift le_add1 less_Suc_eq_le upt_conv_Cons)
  show ?case
  proof (cases "r = 0")
    case True
    with s1 Suc.IH[of s1 "Suc start"] Suc.prems show ?thesis unfolding split by auto
  qed (use s1 in simp)
qed simp

end

text \<open>
  The contract of a state machine with an invariant: it holds initially and every step keeps it, so it holds in every
  state that a sequence of steps reaches.
\<close>

locale state_machine =
  fixes init :: "'s \<Rightarrow> bool" and step :: "'s \<Rightarrow> 's \<Rightarrow> bool" and inv :: "'s \<Rightarrow> bool"
  assumes init_inv: "init s \<Longrightarrow> inv s" and step_inv: "inv s \<Longrightarrow> step s s' \<Longrightarrow> inv s'"
begin

lemma steps_inv: "step\<^sup>*\<^sup>* s s' \<Longrightarrow> inv s \<Longrightarrow> inv s'"
  by (induction rule: rtranclp_induct) (auto intro: step_inv)

lemma run_inv: "init s \<Longrightarrow> step\<^sup>*\<^sup>* s s' \<Longrightarrow> inv s'"
  by (blast intro: steps_inv init_inv)

end

end
