(* ===== verification/Filesystem.thy ===== *)
theory Filesystem
  imports Prelude
begin

text \<open>
  The file layer of the driver (\<^verbatim>\<open>src/src/filesystem.c\<close> and the two wrappers at the head of
  \<^verbatim>\<open>src/src/cow_manager.c\<close>): the wrapper around the open COW file with its writer count and the
  immutable flag of the inode, positioned reads and writes, allocation, truncation, unlinking and
  path concatenation.

  The kernel underneath is not part of the repository. It is the parameter \<open>kernel\<close>: every
  entry point the driver calls is a field, and the first argument of a fallible entry point is a
  clock value, so that each call may succeed or fail on its own. What the driver relies on is stated
  by the predicates \<open>kernel_read_ok\<close>, \<open>kernel_write_ok\<close>, \<open>kernel_falloc_ok\<close>, \<open>kernel_open_ok\<close> and
  \<open>kernel_truncate_ok\<close>, which hold the documented behaviour of the calls.
\<close>

type_synonym buf = "nat \<Rightarrow> byte"

text \<open>An inode: its bytes (zero past the end of the file) and the flags the driver touches.\<close>

record inode =
  i_data :: buf
  i_immutable :: bool
  i_linked :: bool
  i_isreg :: bool

record world =
  clock :: nat
  inodes :: "nat \<Rightarrow> inode"

record kernel =
  k_read :: "nat \<Rightarrow> buf \<Rightarrow> nat \<Rightarrow> nat \<Rightarrow> int \<times> buf"
  k_write :: "nat \<Rightarrow> buf \<Rightarrow> nat \<Rightarrow> nat \<Rightarrow> buf \<Rightarrow> int \<times> buf"
  k_open :: "nat \<Rightarrow> string \<Rightarrow> bool \<Rightarrow> (nat \<Rightarrow> inode) \<Rightarrow> int + nat \<times> (nat \<Rightarrow> inode)"
  k_truncate :: "nat \<Rightarrow> buf \<Rightarrow> nat \<Rightarrow> int \<times> buf"
  k_falloc :: "nat \<Rightarrow> buf \<Rightarrow> nat \<Rightarrow> nat \<Rightarrow> int \<times> buf"
  k_want_write :: "nat \<Rightarrow> int"
  k_unlink :: "nat \<Rightarrow> int"
  k_alloc :: "nat \<Rightarrow> bool"
  k_pages :: "nat \<Rightarrow> (nat \<Rightarrow> u64) option"
  k_uuid :: "nat \<Rightarrow> byte list"
  k_mnt :: "nat \<Rightarrow> nat"
  s_maxbytes :: nat
  have_kernel_read_ppos :: bool

definition kernel_read_ok :: "kernel \<Rightarrow> bool" where
  "kernel_read_ok K \<longleftrightarrow>
     (\<forall>t f off len. fst (k_read K t f off len) = int len \<longrightarrow>
        (\<forall>i < len. snd (k_read K t f off len) i = f (off + i)))"

definition kernel_write_ok :: "kernel \<Rightarrow> bool" where
  "kernel_write_ok K \<longleftrightarrow>
     (\<forall>t f off len b. (\<forall>a. a < off \<or> off + len \<le> a \<longrightarrow> snd (k_write K t f off len b) a = f a) \<and>
        (fst (k_write K t f off len b) = int len \<longrightarrow>
           (\<forall>i < len. snd (k_write K t f off len b) (off + i) = b i)))"

definition kernel_falloc_ok :: "kernel \<Rightarrow> bool" where
  "kernel_falloc_ok K \<longleftrightarrow> (\<forall>t f off len. snd (k_falloc K t f off len) = f)"

definition kernel_open_ok :: "kernel \<Rightarrow> bool" where
  "kernel_open_ok K \<longleftrightarrow>
     (\<forall>t path trunc ins ino ins'. k_open K t path trunc ins = Inr (ino, ins') \<longrightarrow>
        i_data (ins' ino) = (if trunc then (\<lambda>_. 0) else i_data (ins ino)) \<and>
        (\<forall>j. j \<noteq> ino \<longrightarrow> ins' j = ins j)) \<and>
     (\<forall>t path trunc ins e. k_open K t path trunc ins = Inl e \<longrightarrow> e < 0)"

definition kernel_truncate_ok :: "kernel \<Rightarrow> bool" where
  "kernel_truncate_ok K \<longleftrightarrow>
     (\<forall>t f len a. a < len \<longrightarrow> snd (k_truncate K t f len) a = f a)"

definition kernel_ok :: "kernel \<Rightarrow> bool" where
  "kernel_ok K \<longleftrightarrow> kernel_read_ok K \<and> kernel_write_ok K \<and> kernel_falloc_ok K \<and>
     kernel_open_ok K \<and> kernel_truncate_ok K"

definition ktick :: "world \<Rightarrow> world" where
  "ktick w = w\<lparr>clock := Suc (clock w)\<rparr>"

definition set_data :: "world \<Rightarrow> nat \<Rightarrow> buf \<Rightarrow> world" where
  "set_data w ino f = w\<lparr>inodes := (inodes w)(ino := (inodes w ino)\<lparr>i_data := f\<rparr>)\<rparr>"

definition set_immutable :: "world \<Rightarrow> nat \<Rightarrow> bool \<Rightarrow> world" where
  "set_immutable w ino b = w\<lparr>inodes := (inodes w)(ino := (inodes w ino)\<lparr>i_immutable := b\<rparr>)\<rparr>"

abbreviation data_of :: "world \<Rightarrow> nat \<Rightarrow> buf" where
  "data_of w ino \<equiv> i_data (inodes w ino)"

subsection \<open>The wrapper around the open COW file\<close>

record moocbt_cow_file =
  df_inode :: nat
  df_mnt :: nat
  writers :: int

definition moocbt_cow_file_wrap :: "kernel \<Rightarrow> nat \<Rightarrow> world \<Rightarrow> (int + moocbt_cow_file) \<times> world" where
  "moocbt_cow_file_wrap K ino w =
     (if \<not> k_alloc K (clock w) then (Inl (- ENOMEM), ktick w)
      else (Inr \<lparr>df_inode = ino, df_mnt = k_mnt K ino, writers = 0\<rparr>,
            set_immutable (ktick w) ino True))"

definition moocbt_cow_file_unlock :: "moocbt_cow_file \<Rightarrow> world \<Rightarrow> moocbt_cow_file \<times> world" where
  "moocbt_cow_file_unlock d w =
     (d\<lparr>writers := writers d + 1\<rparr>, set_immutable w (df_inode d) False)"

definition moocbt_cow_file_lock :: "moocbt_cow_file \<Rightarrow> world \<Rightarrow> moocbt_cow_file \<times> world" where
  "moocbt_cow_file_lock d w =
     (let d = d\<lparr>writers := writers d - 1\<rparr> in
      if writers d = 0 then (d, set_immutable w (df_inode d) True) else (d, w))"

subsection \<open>Positioned reads and writes\<close>

definition moocbt_kernel_read ::
  "kernel \<Rightarrow> moocbt_cow_file option \<Rightarrow> nat \<Rightarrow> nat \<Rightarrow> world \<Rightarrow> int \<times> buf \<times> moocbt_cow_file option \<times> world"
where
  "moocbt_kernel_read K dfilp count pos w =
     (case dfilp of None \<Rightarrow> (- EINVAL, (\<lambda>_. 0), None, w)
      | Some d \<Rightarrow>
          let (d, w) = moocbt_cow_file_unlock d w;
              (ret, b) = k_read K (clock w) (data_of w (df_inode d)) pos count;
              w = ktick w
          in if \<not> have_kernel_read_ppos K then (ret, b, Some d, w)
             else let (d, w) = moocbt_cow_file_lock d w in (ret, b, Some d, w))"

definition moocbt_kernel_write ::
  "kernel \<Rightarrow> moocbt_cow_file option \<Rightarrow> buf \<Rightarrow> nat \<Rightarrow> nat \<Rightarrow> world \<Rightarrow> int \<times> moocbt_cow_file option \<times> world"
where
  "moocbt_kernel_write K dfilp b count pos w =
     (case dfilp of None \<Rightarrow> (- EINVAL, None, w)
      | Some d \<Rightarrow>
          let (d, w) = moocbt_cow_file_unlock d w;
              (ret, f) = k_write K (clock w) (data_of w (df_inode d)) pos count b;
              w = set_data (ktick w) (df_inode d) f;
              (d, w) = moocbt_cow_file_lock d w
          in (ret, Some d, w))"

text \<open>The result is the return code, the buffer after the call, the bytes done and the state.\<close>

definition file_io ::
  "kernel \<Rightarrow> moocbt_cow_file option \<Rightarrow> bool \<Rightarrow> buf \<Rightarrow> nat \<Rightarrow> nat \<Rightarrow> world \<Rightarrow>
     int \<times> buf \<times> nat \<times> moocbt_cow_file option \<times> world"
where
  "file_io K dfilp is_write b off len w =
     (let (ret, b, dfilp, w) =
            (if is_write then let (ret, dfilp, w) = moocbt_kernel_write K dfilp b len off w
                              in (ret, b, dfilp, w)
             else moocbt_kernel_read K dfilp len off w)
      in if ret < 0 then (ret, b, 0, dfilp, w)
         else if ret \<noteq> int len then (- EIO, b, nat ret, dfilp, w)
         else (0, b, nat ret, dfilp, w))"

definition file_read ::
  "kernel \<Rightarrow> moocbt_cow_file option \<Rightarrow> nat \<Rightarrow> nat \<Rightarrow> world \<Rightarrow> int \<times> buf \<times> moocbt_cow_file option \<times> world"
where
  "file_read K dfilp off len w =
     (let (ret, b, _, dfilp, w) = file_io K dfilp False (\<lambda>_. 0) off len w in (ret, b, dfilp, w))"

definition file_write ::
  "kernel \<Rightarrow> moocbt_cow_file option \<Rightarrow> buf \<Rightarrow> nat \<Rightarrow> nat \<Rightarrow> world \<Rightarrow> int \<times> moocbt_cow_file option \<times> world"
where
  "file_write K dfilp b off len w =
     (let (ret, _, _, dfilp, w) = file_io K dfilp True b off len w in (ret, dfilp, w))"

subsection \<open>Opening, closing, unlinking\<close>

text \<open>\<^verbatim>\<open>filp_open\<close> is \<open>k_open\<close>; a file that is not regular is closed again and refused.\<close>

definition file_open :: "kernel \<Rightarrow> string \<Rightarrow> bool \<Rightarrow> world \<Rightarrow> (int + nat) \<times> world" where
  "file_open K filename trunc w =
     (case k_open K (clock w) filename trunc (inodes w) of
        Inl e \<Rightarrow> (Inl e, ktick w)
      | Inr (ino, ins) \<Rightarrow>
          let w = (ktick w)\<lparr>inodes := ins\<rparr>
          in if \<not> i_isreg (ins ino) then (Inl (- EINVAL), w) else (Inr ino, w))"

text \<open>
  \<^verbatim>\<open>__open_moocbt_cow_file\<close> stores what the wrapper returned through its output argument before it
  looks at it: when wrapping fails, the argument is left holding an error pointer, which is not
  NULL. \<open>OpenErrPtr\<close> is that outcome, \<open>OpenErr\<close> the one that leaves the argument untouched.
\<close>

datatype open_result = Opened moocbt_cow_file | OpenErr int | OpenErrPtr int

definition open_moocbt_cow_file ::
  "kernel \<Rightarrow> string \<Rightarrow> bool \<Rightarrow> world \<Rightarrow> open_result \<times> world" where
  "open_moocbt_cow_file K path trunc w =
     (case file_open K path trunc w of
        (Inl e, w) \<Rightarrow> (OpenErr e, w)
      | (Inr ino, w) \<Rightarrow>
          (case moocbt_cow_file_wrap K ino w of
             (Inl _, w) \<Rightarrow> (OpenErrPtr (- ENOMEM), w)
           | (Inr d, w) \<Rightarrow> (Opened d, w)))"

text \<open>
  Closing forces the file unlocked; the wrapper is freed by
  \<^verbatim>\<open>__close_and_destroy_moocbt_cow_file\<close> right after.
\<close>

definition file_close :: "moocbt_cow_file option \<Rightarrow> world \<Rightarrow> world" where
  "file_close dfilp w =
     (case dfilp of None \<Rightarrow> w | Some d \<Rightarrow> snd (moocbt_cow_file_unlock d w))"

definition close_and_destroy_moocbt_cow_file :: "moocbt_cow_file option \<Rightarrow> world \<Rightarrow> world" where
  "close_and_destroy_moocbt_cow_file dfilp w = file_close dfilp w"

definition file_unlink :: "kernel \<Rightarrow> moocbt_cow_file \<Rightarrow> world \<Rightarrow> int \<times> moocbt_cow_file \<times> world" where
  "file_unlink K d w =
     (if \<not> i_linked (inodes w (df_inode d)) then (0, d, w)
      else let ret = k_want_write K (clock w); w = ktick w in
        if ret \<noteq> 0 then (ret, d, w)
        else let (d, w) = moocbt_cow_file_unlock d w;
                 ret = k_unlink K (clock w);
                 w = ktick w;
                 w = (if ret = 0
                      then w\<lparr>inodes := (inodes w)(df_inode d := (inodes w (df_inode d))\<lparr>i_linked := False\<rparr>)\<rparr>
                      else w);
                 (d, w) = moocbt_cow_file_lock d w
             in (ret, d, w))"

definition file_truncate :: "kernel \<Rightarrow> moocbt_cow_file \<Rightarrow> nat \<Rightarrow> world \<Rightarrow> int \<times> moocbt_cow_file \<times> world" where
  "file_truncate K d len w =
     (let (d, w) = moocbt_cow_file_unlock d w;
          (ret, f) = k_truncate K (clock w) (data_of w (df_inode d)) len;
          w = set_data (ktick w) (df_inode d) f;
          (d, w) = moocbt_cow_file_lock d w
      in (ret, d, w))"

subsection \<open>Allocation\<close>

definition try_real_fallocate ::
  "kernel \<Rightarrow> moocbt_cow_file \<Rightarrow> nat \<Rightarrow> nat \<Rightarrow> world \<Rightarrow> int \<times> moocbt_cow_file \<times> world" where
  "try_real_fallocate K d off len w =
     (if off + len > s_maxbytes K \<or> off + len \<ge> 2 ^ 63 then (- EFBIG, d, w)
      else let (d, w) = moocbt_cow_file_unlock d w;
               (ret, f) = k_falloc K (clock w) (data_of w (df_inode d)) off len;
               w = set_data (ktick w) (df_inode d) f;
               (d, w) = moocbt_cow_file_lock d w
           in (ret, d, w))"

text \<open>The loop that writes \<open>n\<close> pages of zeros from \<open>off\<close> on.\<close>

fun write_zero_pages ::
  "kernel \<Rightarrow> moocbt_cow_file \<Rightarrow> nat \<Rightarrow> nat \<Rightarrow> world \<Rightarrow> int \<times> moocbt_cow_file \<times> world" where
  "write_zero_pages K d off 0 w = (0, d, w)"
| "write_zero_pages K d off (Suc n) w =
     (case file_write K (Some d) (\<lambda>_. 0) off PAGE_SIZE w of
        (ret, None, w) \<Rightarrow> (ret, d, w)
      | (ret, Some d, w) \<Rightarrow>
          if ret \<noteq> 0 then (ret, d, w) else write_zero_pages K d (off + PAGE_SIZE) n w)"

definition file_allocate ::
  "kernel \<Rightarrow> moocbt_cow_file \<Rightarrow> nat \<Rightarrow> nat \<Rightarrow> world \<Rightarrow> int \<times> moocbt_cow_file \<times> world" where
  "file_allocate K d off len w =
     (let (ret, d, w) = try_real_fallocate K d off len w in
      if ret \<noteq> 0 \<and> ret \<noteq> - EOPNOTSUPP then (ret, d, w)
      else if ret = 0 then (0, d, w)
      else if \<not> k_alloc K (clock w) then (- ENOMEM, d, ktick w)
      else let w = ktick w; write_count = NUM_SEGMENTS len PAGE_SHIFT in
        if off mod PAGE_SIZE \<noteq> 0 then
          (case file_write K (Some d) (\<lambda>_. 0) off (PAGE_SIZE - off mod PAGE_SIZE) w of
             (ret, None, w) \<Rightarrow> (ret, d, w)
           | (ret, Some d, w) \<Rightarrow>
               if ret \<noteq> 0 then (ret, d, w)
               else write_zero_pages K d (off + (PAGE_SIZE - off mod PAGE_SIZE)) write_count w)
        else write_zero_pages K d off write_count w)"

subsection \<open>Path concatenation\<close>

text \<open>
  A C string read at an index; the terminator sits one past the end. The index \<open>-1\<close> of
  an empty first path is a read before the buffer: the model gives None.
\<close>

definition c_char_at :: "string \<Rightarrow> int \<Rightarrow> char option" where
  "c_char_at s i =
     (if i < 0 \<or> i > int (length s) then None
      else if i = int (length s) then Some (CHR 0x00) else Some (s ! nat i))"

definition pathname_concat :: "kernel \<Rightarrow> string \<Rightarrow> string \<Rightarrow> world \<Rightarrow> ((int + string) \<times> world) option" where
  "pathname_concat K p1 p2 w = do {
     c1 \<leftarrow> c_char_at p1 (int (length p1) - 1);
     c2 \<leftarrow> c_char_at p2 0;
     let need_leading_slash = (c1 \<noteq> CHR ''/'' \<and> c2 \<noteq> CHR ''/'');
         p1 = (if \<not> need_leading_slash \<and> c1 = CHR ''/'' \<and> c2 = CHR ''/'' then butlast p1 else p1);
         ok = k_alloc K (clock w);
         w = ktick w
     in if \<not> ok then Some (Inl (- ENOMEM), w)
        else Some (Inr (p1 @ (if need_leading_slash then ''/'' else []) @ p2), w)
   }"

subsection \<open>What the calls keep of the world\<close>

lemma ktick_simps [simp]: "inodes (ktick w) = inodes w" "clock (ktick w) = Suc (clock w)"
  by (simp_all add: ktick_def)

lemma data_set_immutable [simp]: "data_of (set_immutable w ino b) j = data_of w j"
  by (simp add: set_immutable_def)

lemma data_set_data [simp]: "data_of (set_data w ino f) j = (if j = ino then f else data_of w j)"
  by (simp add: set_data_def)

lemma immutable_set_data [simp]: "i_immutable (inodes (set_data w ino f) j) = i_immutable (inodes w j)"
  by (simp add: set_data_def)

lemma immutable_set_immutable [simp]:
  "i_immutable (inodes (set_immutable w ino b) j) = (if j = ino then b else i_immutable (inodes w j))"
  by (simp add: set_immutable_def)

lemmas file_lock_defs = moocbt_cow_file_unlock_def moocbt_cow_file_lock_def Let_def

lemma file_readD:
  assumes "file_read K dfilp off len w = (ret, b, dfilp', w')"
  shows file_read_data: "data_of w' j = data_of w j"
    and file_read_inode: "map_option df_inode dfilp' = map_option df_inode dfilp"
    and file_read_bytes: "kernel_read_ok K \<Longrightarrow> ret = 0 \<Longrightarrow>
      \<exists>d. dfilp = Some d \<and> (\<forall>i < len. b i = data_of w (df_inode d) (off + i))"
  using assms
  by (auto simp: file_read_def file_io_def moocbt_kernel_read_def file_lock_defs kernel_read_ok_def
      split: option.splits prod.splits if_splits) (metis fst_conv snd_conv)+

lemma file_writeD:
  assumes "file_write K dfilp b off len w = (ret, dfilp', w')"
  shows file_write_inode: "map_option df_inode dfilp' = map_option df_inode dfilp"
    and file_write_other: "\<forall>d. dfilp = Some d \<longrightarrow> j \<noteq> df_inode d \<Longrightarrow> data_of w' j = data_of w j"
    and file_write_frame: "kernel_write_ok K \<Longrightarrow> a < off \<or> off + len \<le> a \<Longrightarrow>
      data_of w' j a = data_of w j a"
    and file_write_bytes: "kernel_write_ok K \<Longrightarrow> ret = 0 \<Longrightarrow>
      \<exists>d. dfilp = Some d \<and> (\<forall>i < len. data_of w' (df_inode d) (off + i) = b i)"
  using assms
  by (auto simp: file_write_def file_io_def moocbt_kernel_write_def file_lock_defs kernel_write_ok_def
      split: option.splits prod.splits if_splits) (metis fst_conv snd_conv)+

subsection \<open>A kernel whose files are memory\<close>

text \<open>
  The least kernel that meets the hypotheses: every call succeeds and does what it documents. The
  concrete instances of the theorems run on it.
\<close>

definition ram_kernel :: kernel where
  "ram_kernel =
     \<lparr>k_read = (\<lambda>t f off len. (int len, \<lambda>i. f (off + i))),
      k_write = (\<lambda>t f off len b. (int len, \<lambda>a. if off \<le> a \<and> a < off + len then b (a - off) else f a)),
      k_open = (\<lambda>t path trunc ins.
        Inr (0, if trunc then ins(0 := (ins 0)\<lparr>i_data := \<lambda>_. 0\<rparr>) else ins)),
      k_truncate = (\<lambda>t f len. (0, \<lambda>a. if a < len then f a else 0)),
      k_falloc = (\<lambda>t f off len. (0, f)),
      k_want_write = (\<lambda>_. 0), k_unlink = (\<lambda>_. 0), k_alloc = (\<lambda>_. True),
      k_pages = (\<lambda>_. Some (\<lambda>_. 0)), k_uuid = (\<lambda>_. replicate COW_UUID_SIZE 0), k_mnt = (\<lambda>_. 0),
      s_maxbytes = 2 ^ 62, have_kernel_read_ppos = True\<rparr>"

definition ram_world :: world where
  "ram_world =
     \<lparr>clock = 0, inodes = (\<lambda>_. \<lparr>i_data = (\<lambda>_. 0), i_immutable = False, i_linked = True, i_isreg = True\<rparr>)\<rparr>"

lemma ram_kernel_ok: "kernel_ok ram_kernel"
  by (auto simp: kernel_ok_def kernel_read_ok_def kernel_write_ok_def kernel_falloc_ok_def
      kernel_open_ok_def kernel_truncate_ok_def ram_kernel_def)

end
