(* ===== verification/Cow_Manager.thy ===== *)
theory Cow_Manager
  imports Filesystem
begin

text \<open>
  The COW manager (\<^verbatim>\<open>src/src/cow_manager.c\<close>): the sectioned index that maps a block of the traced
  device to its saved copy in the COW file, the cache of index sections in memory, the file header,
  and the append-only data area.

  An operation takes the kernel, the world and the manager and returns the code the C function
  returns with the new world and manager. The whole result is \<open>None\<close> where the C code would
  touch memory it does not own (a NULL or freed section array, an index past it, an error pointer).
\<close>

subsection \<open>Data\<close>

record cow_section =
  has_data :: bool
  usage :: u64
  mappings :: "(nat \<Rightarrow> u64) option"

record cow_manager =
  dfilp :: "moocbt_cow_file option"
  flags :: u32
  curr_pos :: u64
  data_offset :: u64
  file_size :: u64
  seqid :: u64
  version :: u64
  nr_changed_blocks :: u64
  uuid :: "byte list"
  log_sect_pages :: nat
  sect_size :: nat
  allocated_sects :: u64
  total_sects :: nat
  allowed_sects :: u64
  sects :: "cow_section list option"
  cm_dev :: "nat option"

record cow_header =
  h_magic :: u32
  h_flags :: u32
  h_fpos :: u64
  h_fsize :: u64
  h_seqid :: u64
  h_uuid :: "byte list"
  h_version :: u64
  h_nr_changed_blocks :: u64

type_synonym cow_res = "(int \<times> world \<times> cow_manager) option"

abbreviation (input) COW_MAGIC :: u32 where "COW_MAGIC \<equiv> 4776"
abbreviation (input) COW_CLEAN :: nat where "COW_CLEAN \<equiv> 0"
abbreviation (input) COW_INDEX_ONLY :: nat where "COW_INDEX_ONLY \<equiv> 1"
abbreviation (input) COW_VMALLOC_UPPER :: nat where "COW_VMALLOC_UPPER \<equiv> 2"
abbreviation (input) COW_VERSION_CHANGED_BLOCKS :: u64 where "COW_VERSION_CHANGED_BLOCKS \<equiv> 1"
abbreviation (input) SIZEOF_COW_SECTION :: nat where "SIZEOF_COW_SECTION \<equiv> 24"
abbreviation (input) SIZEOF_COW_HEADER :: nat where "SIZEOF_COW_HEADER \<equiv> 64"

definition sect_at :: "cow_manager \<Rightarrow> nat \<Rightarrow> cow_section option" where
  "sect_at cm i = (case sects cm of None \<Rightarrow> None
                   | Some ss \<Rightarrow> if i < length ss then Some (ss ! i) else None)"

definition put_sect :: "cow_manager \<Rightarrow> nat \<Rightarrow> cow_section \<Rightarrow> cow_manager" where
  "put_sect cm i s = cm\<lparr>sects := map_option (\<lambda>ss. ss[i := s]) (sects cm)\<rparr>"

text \<open>The bytes of an array of 64-bit index entries, and the array read back from bytes.\<close>

definition mappings_buf :: "(nat \<Rightarrow> u64) \<Rightarrow> buf" where
  "mappings_buf m i = le_byte (m (i div 8)) (i mod 8)"

definition buf_mappings :: "buf \<Rightarrow> nat \<Rightarrow> u64" where
  "buf_mappings b i = le_word64 (\<lambda>k. b (8 * i + k))"

text \<open>The 64 bytes of the packed header, in the field order of \<^verbatim>\<open>struct cow_header\<close>.\<close>

definition header_buf :: "cow_header \<Rightarrow> buf" where
  "header_buf h i =
     (if i < 4 then le_byte (h_magic h) i
      else if i < 8 then le_byte (h_flags h) (i - 4)
      else if i < 16 then le_byte (h_fpos h) (i - 8)
      else if i < 24 then le_byte (h_fsize h) (i - 16)
      else if i < 32 then le_byte (h_seqid h) (i - 24)
      else if i < 48 then h_uuid h ! (i - 32)
      else if i < 56 then le_byte (h_version h) (i - 48)
      else le_byte (h_nr_changed_blocks h) (i - 56))"

definition buf_header :: "buf \<Rightarrow> cow_header" where
  "buf_header b =
     \<lparr>h_magic = le_word32 (\<lambda>k. b k), h_flags = le_word32 (\<lambda>k. b (4 + k)),
      h_fpos = le_word64 (\<lambda>k. b (8 + k)), h_fsize = le_word64 (\<lambda>k. b (16 + k)),
      h_seqid = le_word64 (\<lambda>k. b (24 + k)), h_uuid = map (\<lambda>k. b (32 + k)) [0..<16],
      h_version = le_word64 (\<lambda>k. b (48 + k)), h_nr_changed_blocks = le_word64 (\<lambda>k. b (56 + k))\<rparr>"

subsection \<open>Sections\<close>

definition cow_free_section :: "cow_manager \<Rightarrow> nat \<Rightarrow> cow_manager option" where
  "cow_free_section cm sect_idx = do {
     s \<leftarrow> sect_at cm sect_idx;
     Some ((put_sect cm sect_idx (s\<lparr>mappings := None\<rparr>))\<lparr>allocated_sects := allocated_sects cm - 1\<rparr>)
   }"

definition cow_alloc_section :: "kernel \<Rightarrow> nat \<Rightarrow> bool \<Rightarrow> world \<Rightarrow> cow_manager \<Rightarrow> cow_res" where
  "cow_alloc_section K sect_idx zero w cm = do {
     s \<leftarrow> sect_at cm sect_idx;
     let m = (if zero then map_option (\<lambda>_. (\<lambda>_. 0)) (k_pages K (clock w)) else k_pages K (clock w));
         w = ktick w
     in if m = None then Some (- ENOMEM, w, put_sect cm sect_idx (s\<lparr>mappings := None\<rparr>))
        else Some (0, w, (put_sect cm sect_idx (s\<lparr>mappings := m, has_data := True\<rparr>))
                           \<lparr>allocated_sects := allocated_sects cm + 1\<rparr>)
   }"

definition section_off :: "cow_manager \<Rightarrow> nat \<Rightarrow> nat" where
  "section_off cm sect_idx = sect_size cm * sect_idx * 8 + COW_HEADER_SIZE"

definition cow_load_section :: "kernel \<Rightarrow> nat \<Rightarrow> world \<Rightarrow> cow_manager \<Rightarrow> cow_res" where
  "cow_load_section K sect_idx w cm = do {
     (ret, w, cm) \<leftarrow> cow_alloc_section K sect_idx False w cm;
     if ret \<noteq> 0 then Some (ret, w, cm)
     else do {
       let (ret, b, d, w) = file_read K (dfilp cm) (section_off cm sect_idx) (sect_size cm * 8) w;
       s \<leftarrow> sect_at cm sect_idx;
       let cm = (put_sect cm sect_idx (s\<lparr>mappings := Some (buf_mappings b)\<rparr>))\<lparr>dfilp := d\<rparr>;
       if ret \<noteq> 0 then do { cm \<leftarrow> cow_free_section cm sect_idx; Some (ret, w, cm) }
       else Some (0, w, cm)
     }
   }"

definition cow_write_section :: "kernel \<Rightarrow> nat \<Rightarrow> world \<Rightarrow> cow_manager \<Rightarrow> cow_res" where
  "cow_write_section K sect_idx w cm = do {
     s \<leftarrow> sect_at cm sect_idx;
     m \<leftarrow> mappings s;
     let (ret, d, w) = file_write K (dfilp cm) (mappings_buf m) (section_off cm sect_idx)
                         (sect_size cm * 8) w;
     Some (ret, w, cm\<lparr>dfilp := d\<rparr>)
   }"

text \<open>The loop over the sections: \<open>i\<close> is the loop variable, \<open>n\<close> the iterations left.\<close>

fun cow_sync_loop :: "kernel \<Rightarrow> u64 \<Rightarrow> nat \<Rightarrow> nat \<Rightarrow> world \<Rightarrow> cow_manager \<Rightarrow> cow_res" where
  "cow_sync_loop K thresh i 0 w cm = Some (0, w, cm)"
| "cow_sync_loop K thresh i (Suc n) w cm =
     (if \<not> (thresh = 0 \<or> allocated_sects cm > allowed_sects cm div 2) then Some (0, w, cm)
      else do {
        s \<leftarrow> sect_at cm i;
        (ret, w, cm) \<leftarrow>
          (if mappings s \<noteq> None \<and> (thresh = 0 \<or> usage s \<le> thresh) then do {
             (ret, w, cm) \<leftarrow> cow_write_section K i w cm;
             if ret \<noteq> 0 then Some (ret, w, cm)
             else do { cm \<leftarrow> cow_free_section cm i; Some (0, w, cm) }
           } else Some (0, w, cm));
        if ret \<noteq> 0 then Some (ret, w, cm)
        else do {
          s \<leftarrow> sect_at cm i;
          cow_sync_loop K thresh (Suc i) n w (put_sect cm i (s\<lparr>usage := 0\<rparr>))
        }
      })"

definition cow_sync_and_free_sections :: "kernel \<Rightarrow> u64 \<Rightarrow> world \<Rightarrow> cow_manager \<Rightarrow> cow_res" where
  "cow_sync_and_free_sections K thresh w cm = cow_sync_loop K thresh 0 (total_sects cm) w cm"

text \<open>The approximate median of the usage counters, over all sections of the manager.\<close>

definition max_usage :: "cow_section list \<Rightarrow> u64" where
  "max_usage ss = fold (\<lambda>s thresh. if usage s > thresh then usage s else thresh) ss 0"

function median_loop :: "cow_section list \<Rightarrow> u64 \<Rightarrow> u64 \<Rightarrow> u64" where
  "median_loop ss thresh granularity =
     (if granularity > 0 then
        let granularity = drop_bit 1 granularity;
            less = length (filter (\<lambda>s. usage s \<le> thresh) ss);
            greater = length ss - less
        in if greater > less then median_loop ss (thresh + granularity) granularity
           else if greater < less then median_loop ss (thresh - granularity) granularity
           else thresh
      else thresh)"
  by pat_completeness auto
termination
  by (relation "measure (\<lambda>(ss, thresh, g). unat g)") (auto simp: unat_half_less)

declare median_loop.simps [simp del]

definition cow_cleanup_mappings :: "kernel \<Rightarrow> world \<Rightarrow> cow_manager \<Rightarrow> cow_res" where
  "cow_cleanup_mappings K w cm = do {
     ss \<leftarrow> sects cm;
     let thresh = max_usage ss div 2;
     let thresh = median_loop ss thresh thresh;
     cow_sync_and_free_sections K thresh w cm
   }"

subsection \<open>The header\<close>

definition cow_write_header :: "kernel \<Rightarrow> bool \<Rightarrow> world \<Rightarrow> cow_manager \<Rightarrow> int \<times> world \<times> cow_manager" where
  "cow_write_header K is_clean w cm =
     (let cm = (if is_clean then cm\<lparr>flags := flags cm OR push_bit COW_CLEAN 1\<rparr>
                else cm\<lparr>flags := flags cm AND NOT (push_bit COW_CLEAN 1)\<rparr>);
          ch = \<lparr>h_magic = COW_MAGIC, h_flags = flags cm, h_fpos = curr_pos cm, h_fsize = file_size cm,
                h_seqid = seqid cm, h_uuid = uuid cm, h_version = version cm,
                h_nr_changed_blocks = nr_changed_blocks cm\<rparr>;
          (ret, d, w) = file_write K (dfilp cm) (header_buf ch) 0 SIZEOF_COW_HEADER w
      in (ret, w, cm\<lparr>dfilp := d\<rparr>))"

definition cow_open_header ::
  "kernel \<Rightarrow> bool \<Rightarrow> bool \<Rightarrow> world \<Rightarrow> cow_manager \<Rightarrow> int \<times> world \<times> cow_manager" where
  "cow_open_header K index_only reset_vmalloc w cm =
     (let (ret, b, d, w) = file_read K (dfilp cm) 0 SIZEOF_COW_HEADER w;
          cm = cm\<lparr>dfilp := d\<rparr>;
          ch = buf_header b
      in if ret \<noteq> 0 then (ret, w, cm)
         else if h_magic ch \<noteq> COW_MAGIC then (- EINVAL, w, cm)
         else if \<not> bit (h_flags ch) COW_CLEAN then (- EINVAL, w, cm)
         else if (bit (h_flags ch) COW_INDEX_ONLY \<and> \<not> index_only) \<or>
                 (\<not> bit (h_flags ch) COW_INDEX_ONLY \<and> index_only) then (- EINVAL, w, cm)
         else cow_write_header K False w
                (cm\<lparr>flags := (if reset_vmalloc then h_flags ch AND NOT (push_bit COW_VMALLOC_UPPER 1)
                              else h_flags ch),
                    curr_pos := h_fpos ch, file_size := h_fsize ch, seqid := h_seqid ch,
                    uuid := h_uuid ch, version := h_version ch,
                    nr_changed_blocks := h_nr_changed_blocks ch\<rparr>))"

subsection \<open>Releasing, closing and reopening\<close>

definition cow_free_members :: "kernel \<Rightarrow> world \<Rightarrow> cow_manager \<Rightarrow> world \<times> cow_manager" where
  "cow_free_members K w cm =
     (let cm = cm\<lparr>sects := None\<rparr> in
      case dfilp cm of None \<Rightarrow> (w, cm)
      | Some d \<Rightarrow> let (_, d, w) = file_unlink K d w;
                      w = close_and_destroy_moocbt_cow_file (Some d) w
                  in (w, cm\<lparr>dfilp := None\<rparr>))"

text \<open>\<^verbatim>\<open>cow_free\<close> also frees the manager itself: only the world is left.\<close>

definition cow_free :: "kernel \<Rightarrow> world \<Rightarrow> cow_manager \<Rightarrow> world" where
  "cow_free K w cm = fst (cow_free_members K w cm)"

definition cow_sync_and_free :: "kernel \<Rightarrow> world \<Rightarrow> cow_manager \<Rightarrow> (int \<times> world) option" where
  "cow_sync_and_free K w cm = do {
     (ret, w, cm) \<leftarrow> cow_sync_and_free_sections K 0 w cm;
     if ret \<noteq> 0 then Some (ret, cow_free K w cm)
     else do {
       let (ret, w, cm) = cow_write_header K True w cm;
       if ret \<noteq> 0 then Some (ret, cow_free K w cm)
       else Some (0, close_and_destroy_moocbt_cow_file (dfilp cm) w)
     }
   }"

definition cow_sync_and_close :: "kernel \<Rightarrow> world \<Rightarrow> cow_manager \<Rightarrow> cow_res" where
  "cow_sync_and_close K w cm = do {
     (ret, w, cm) \<leftarrow> cow_sync_and_free_sections K 0 w cm;
     if ret \<noteq> 0 then let (w, cm) = cow_free_members K w cm in Some (ret, w, cm)
     else do {
       let (ret, w, cm) = cow_write_header K True w cm;
       if ret \<noteq> 0 then let (w, cm) = cow_free_members K w cm in Some (ret, w, cm)
       else Some (0, close_and_destroy_moocbt_cow_file (dfilp cm) w, cm\<lparr>dfilp := None\<rparr>)
     }
   }"

definition cow_reopen :: "kernel \<Rightarrow> string \<Rightarrow> world \<Rightarrow> cow_manager \<Rightarrow> cow_res" where
  "cow_reopen K pathname w cm =
     (case open_moocbt_cow_file K pathname False w of
        (OpenErrPtr _, _) \<Rightarrow> None
      | (OpenErr ret, w) \<Rightarrow>
          Some (ret, close_and_destroy_moocbt_cow_file (dfilp cm) w, cm\<lparr>dfilp := None\<rparr>)
      | (Opened d, w) \<Rightarrow>
          let cm = cm\<lparr>dfilp := Some d\<rparr>;
              (ret, w, cm) = cow_open_header K (bit (flags cm) COW_INDEX_ONLY) False w cm
          in if ret \<noteq> 0 then Some (ret, close_and_destroy_moocbt_cow_file (dfilp cm) w, cm\<lparr>dfilp := None\<rparr>)
             else Some (0, w, cm))"

definition cow_calculate_allowed_sects :: "nat \<Rightarrow> nat \<Rightarrow> nat" where
  "cow_calculate_allowed_sects cache_size tot =
     (if cache_size \<le> tot * SIZEOF_COW_SECTION then 0
      else (cache_size - tot * SIZEOF_COW_SECTION) div (COW_SECTION_SIZE * 8))"

text \<open>\<^verbatim>\<open>get_order(size)\<close>: the least \<open>n\<close> with \<open>size \<le> 2 ^ n\<close> pages.\<close>

fun get_order :: "nat \<Rightarrow> nat" where
  "get_order sz = (if sz \<le> PAGE_SIZE then 0 else Suc (get_order ((sz + 1) div 2)))"

declare get_order.simps [simp del]

text \<open>A manager as \<^verbatim>\<open>kzalloc\<close> leaves it, with the geometry both constructors compute.\<close>

definition cow_geometry :: "nat \<Rightarrow> nat \<Rightarrow> nat \<Rightarrow> moocbt_cow_file \<Rightarrow> cow_manager" where
  "cow_geometry elements sz cache_size d =
     (let order = get_order (sz * 8);
          tot = NUM_SEGMENTS elements (order + PAGE_SHIFT - 3)
      in \<lparr>dfilp = Some d, flags = 0, curr_pos = 0,
          data_offset = of_nat (COW_HEADER_SIZE + tot * (sz * 8)), file_size = 0, seqid = 0,
          version = 0, nr_changed_blocks = 0, uuid = replicate COW_UUID_SIZE 0,
          log_sect_pages = order, sect_size = sz, allocated_sects = 0, total_sects = tot,
          allowed_sects = of_nat (cow_calculate_allowed_sects cache_size tot),
          sects = None, cm_dev = None\<rparr>)"

text \<open>
  The section array: \<^verbatim>\<open>kzalloc\<close>, then \<^verbatim>\<open>vzalloc\<close> with the flag that says which allocator to give it
  back to. The boolean is whether an array was obtained.
\<close>

definition alloc_sects :: "kernel \<Rightarrow> bool \<Rightarrow> world \<Rightarrow> cow_manager \<Rightarrow> bool \<times> world \<times> cow_manager" where
  "alloc_sects K filled w cm =
     (let ss = replicate (total_sects cm) \<lparr>has_data = filled, usage = 0, mappings = None\<rparr> in
      if k_alloc K (clock w) then (True, ktick w, cm\<lparr>sects := Some ss\<rparr>)
      else let w = ktick w; cm = cm\<lparr>flags := flags cm OR push_bit COW_VMALLOC_UPPER 1\<rparr> in
        if k_alloc K (clock w) then (True, ktick w, cm\<lparr>sects := Some ss\<rparr>)
        else (False, ktick w, cm))"

text \<open>
  The constructors return the code, the world and, on success, the new manager. When the first
  allocation fails their error path dereferences the NULL manager: \<open>None\<close>.
\<close>

type_synonym cow_new = "(int \<times> world \<times> cow_manager option) option"

definition cow_reload :: "kernel \<Rightarrow> string \<Rightarrow> nat \<Rightarrow> nat \<Rightarrow> nat \<Rightarrow> bool \<Rightarrow> world \<Rightarrow> cow_new" where
  "cow_reload K path elements sz cache_size index_only w =
     (if \<not> k_alloc K (clock w) then None
      else case open_moocbt_cow_file K path False (ktick w) of
        (OpenErrPtr _, _) \<Rightarrow> None
      | (OpenErr ret, w) \<Rightarrow> Some (ret, w, None)
      | (Opened d, w) \<Rightarrow>
          let cm = cow_geometry elements sz cache_size d;
              (ret, w, cm) = cow_open_header K index_only True w cm
          in if ret \<noteq> 0 then Some (ret, close_and_destroy_moocbt_cow_file (dfilp cm) w, None)
             else let (ok, w, cm) = alloc_sects K True w cm in
               if \<not> ok then Some (- ENOMEM, close_and_destroy_moocbt_cow_file (dfilp cm) w, None)
               else Some (0, w, Some cm))"

definition cow_init_fail :: "kernel \<Rightarrow> int \<Rightarrow> world \<Rightarrow> moocbt_cow_file option \<Rightarrow> int \<times> world \<times> cow_manager option" where
  "cow_init_fail K ret w file =
     (case file of None \<Rightarrow> (ret, w, None)
      | Some d \<Rightarrow> let (_, d, w) = file_unlink K d w
                  in (ret, close_and_destroy_moocbt_cow_file (Some d) w, None))"

definition cow_init ::
  "kernel \<Rightarrow> nat \<Rightarrow> string \<Rightarrow> nat \<Rightarrow> nat \<Rightarrow> nat \<Rightarrow> u64 \<Rightarrow> byte list option \<Rightarrow> u64 \<Rightarrow> world \<Rightarrow> cow_new" where
  "cow_init K dev path elements sz cache_size file_max uuid_opt sid w =
     (if \<not> k_alloc K (clock w) then None
      else case open_moocbt_cow_file K path True (ktick w) of
        (OpenErrPtr _, _) \<Rightarrow> None
      | (OpenErr ret, w) \<Rightarrow> Some (ret, w, None)
      | (Opened d, w) \<Rightarrow>
          let cm = cow_geometry elements sz cache_size d;
              (u, w) = (case uuid_opt of Some u \<Rightarrow> (u, w) | None \<Rightarrow> (k_uuid K (clock w), ktick w));
              cm = cm\<lparr>version := COW_VERSION_CHANGED_BLOCKS, nr_changed_blocks := 0, flags := 0,
                      file_size := file_max, seqid := sid,
                      curr_pos := data_offset cm div of_nat COW_BLOCK_SIZE,
                      cm_dev := Some dev, uuid := u\<rparr>;
              (ok, w, cm) = alloc_sects K False w cm
          in if \<not> ok then Some (cow_init_fail K (- ENOMEM) w (dfilp cm))
             else let (ret, d, w) = file_allocate K d 0 (unat file_max) w; cm = cm\<lparr>dfilp := Some d\<rparr> in
               if ret \<noteq> 0 then Some (cow_init_fail K ret w (dfilp cm))
               else let (ret, w, cm) = cow_write_header K False w cm in
                 if ret \<noteq> 0 then Some (cow_init_fail K ret w (dfilp cm))
                 else Some (0, w, Some cm))"

definition cow_truncate_to_index :: "kernel \<Rightarrow> world \<Rightarrow> cow_manager \<Rightarrow> cow_res" where
  "cow_truncate_to_index K w cm =
     (let cm = cm\<lparr>flags := flags cm OR push_bit COW_INDEX_ONLY 1\<rparr> in
      case dfilp cm of None \<Rightarrow> None
      | Some d \<Rightarrow>
          let (ret, d, w) = file_truncate K d (unat (data_offset cm)) w;
              cm = cm\<lparr>dfilp := Some d\<rparr>
          in Some (ret, w, if ret = 0 then cm\<lparr>file_size := data_offset cm\<rparr> else cm))"

definition cow_modify_cache_size :: "nat \<Rightarrow> cow_manager \<Rightarrow> cow_manager" where
  "cow_modify_cache_size cache_size cm =
     cm\<lparr>allowed_sects := of_nat (cow_calculate_allowed_sects cache_size (total_sects cm))\<rparr>"

subsection \<open>Mappings\<close>

text \<open>The result of a read carries the value stored through the output argument.\<close>

definition cow_read_mapping :: "kernel \<Rightarrow> nat \<Rightarrow> world \<Rightarrow> cow_manager \<Rightarrow> (int \<times> u64 \<times> world \<times> cow_manager) option" where
  "cow_read_mapping K pos w cm = do {
     let sect_idx = pos div sect_size cm;
     let sect_pos = pos mod sect_size cm;
     s \<leftarrow> sect_at cm sect_idx;
     let cm = put_sect cm sect_idx (s\<lparr>usage := usage s + 1\<rparr>);
     if mappings s = None \<and> \<not> has_data s then Some (0, 0, w, cm)
     else do {
       (ret, w, cm) \<leftarrow> (if mappings s = None then cow_load_section K sect_idx w cm else Some (0, w, cm));
       if ret \<noteq> 0 then Some (ret, 0, w, cm)
       else do {
         s \<leftarrow> sect_at cm sect_idx;
         m \<leftarrow> mappings s;
         let out = m sect_pos;
         if allocated_sects cm > allowed_sects cm then do {
           (ret, w, cm) \<leftarrow> cow_cleanup_mappings K w cm;
           Some (ret, out, w, cm)
         } else Some (0, out, w, cm)
       }
     }
   }"

definition cow_write_mapping :: "kernel \<Rightarrow> nat \<Rightarrow> u64 \<Rightarrow> world \<Rightarrow> cow_manager \<Rightarrow> cow_res" where
  "cow_write_mapping K pos val w cm = do {
     let sect_idx = pos div sect_size cm;
     let sect_pos = pos mod sect_size cm;
     s \<leftarrow> sect_at cm sect_idx;
     let cm = put_sect cm sect_idx (s\<lparr>usage := usage s + 1\<rparr>);
     (ret, w, cm) \<leftarrow>
       (if mappings s = None then
          (if \<not> has_data s then cow_alloc_section K sect_idx True w cm
           else cow_load_section K sect_idx w cm)
        else Some (0, w, cm));
     if ret \<noteq> 0 then Some (ret, w, cm)
     else do {
       s \<leftarrow> sect_at cm sect_idx;
       m \<leftarrow> mappings s;
       let cm = (if version cm \<ge> COW_VERSION_CHANGED_BLOCKS \<and> m sect_pos = 0
                 then cm\<lparr>nr_changed_blocks := nr_changed_blocks cm + 1\<rparr> else cm);
       let cm = put_sect cm sect_idx (s\<lparr>mappings := Some (m(sect_pos := val))\<rparr>);
       if allocated_sects cm > allowed_sects cm then cow_cleanup_mappings K w cm
       else Some (0, w, cm)
     }
   }"

definition cow_write_current_mapping :: "kernel \<Rightarrow> nat \<Rightarrow> world \<Rightarrow> cow_manager \<Rightarrow> cow_res" where
  "cow_write_current_mapping K pos w cm = cow_write_mapping K pos (curr_pos cm) w cm"

definition cow_write_filler_mapping :: "kernel \<Rightarrow> nat \<Rightarrow> world \<Rightarrow> cow_manager \<Rightarrow> cow_res" where
  "cow_write_filler_mapping K pos w cm = cow_write_mapping K pos 1 w cm"

subsection \<open>Data blocks\<close>

definition cow_write_data :: "kernel \<Rightarrow> buf \<Rightarrow> world \<Rightarrow> cow_manager \<Rightarrow> int \<times> world \<times> cow_manager" where
  "cow_write_data K b w cm =
     (let curr_size = curr_pos cm * of_nat COW_BLOCK_SIZE in
      if curr_size \<ge> file_size cm then (- EFBIG, w, cm)
      else let (ret, d, w) = file_write K (dfilp cm) b (unat curr_size) COW_BLOCK_SIZE w;
               cm = cm\<lparr>dfilp := d\<rparr>
           in if ret \<noteq> 0 then (ret, w, cm) else (0, w, cm\<lparr>curr_pos := curr_pos cm + 1\<rparr>))"

definition cow_write_current :: "kernel \<Rightarrow> nat \<Rightarrow> buf \<Rightarrow> world \<Rightarrow> cow_manager \<Rightarrow> cow_res" where
  "cow_write_current K block b w cm = do {
     (ret, block_mapping, w, cm) \<leftarrow> cow_read_mapping K block w cm;
     if ret \<noteq> 0 then Some (ret, w, cm)
     else if block_mapping \<noteq> 0 then Some (0, w, cm)
     else do {
       (ret, w, cm) \<leftarrow> cow_write_current_mapping K block w cm;
       if ret \<noteq> 0 then Some (ret, w, cm) else Some (cow_write_data K b w cm)
     }
   }"

definition cow_read_data ::
  "kernel \<Rightarrow> u64 \<Rightarrow> nat \<Rightarrow> nat \<Rightarrow> world \<Rightarrow> cow_manager \<Rightarrow> int \<times> buf \<times> world \<times> cow_manager" where
  "cow_read_data K block_pos block_off len w cm =
     (if block_off \<ge> COW_BLOCK_SIZE then (- EINVAL, (\<lambda>_. 0), w, cm)
      else let (ret, b, d, w) = file_read K (dfilp cm)
                 (unat (block_pos * of_nat COW_BLOCK_SIZE) + block_off) len w
           in (ret, b, w, cm\<lparr>dfilp := d\<rparr>))"

end
