(* ===== verification/Cow_Index.thy ===== *)
theory Cow_Index
  imports Cow_Manager
begin

text \<open>
  The index of the COW manager as a function from block numbers to mappings. \<open>cow_map\<close> reads it
  through the cache: an entry is in the cached section, in the file, or zero when its section never
  had data. Loading, writing back, evicting and cleaning the cache leave this function, the header
  and the data area alone (\<open>cow_stable\<close>), whether the kernel calls inside succeed or fail; writing a
  mapping changes exactly one entry (\<open>cow_wrote\<close>).
\<close>

subsection \<open>Well-formedness and the index as a function\<close>

definition cow_data :: "world \<Rightarrow> cow_manager \<Rightarrow> buf" where
  "cow_data w cm a = (case dfilp cm of None \<Rightarrow> 0 | Some d \<Rightarrow> data_of w (df_inode d) a)"

definition index_entry :: "world \<Rightarrow> cow_manager \<Rightarrow> nat \<Rightarrow> u64" where
  "index_entry w cm pos = buf_mappings (\<lambda>a. cow_data w cm (COW_HEADER_SIZE + a)) pos"

definition sect_val :: "world \<Rightarrow> cow_manager \<Rightarrow> cow_section \<Rightarrow> nat \<Rightarrow> u64" where
  "sect_val w cm s pos =
     (case mappings s of Some m \<Rightarrow> m (pos mod sect_size cm)
      | None \<Rightarrow> if has_data s then index_entry w cm pos else 0)"

definition cow_map :: "world \<Rightarrow> cow_manager \<Rightarrow> nat \<Rightarrow> u64" where
  "cow_map w cm pos =
     (case sect_at cm (pos div sect_size cm) of None \<Rightarrow> 0 | Some s \<Rightarrow> sect_val w cm s pos)"

definition cached :: "cow_section list \<Rightarrow> nat" where
  "cached ss = length (filter (\<lambda>s. mappings s \<noteq> None) ss)"

definition cow_wf :: "cow_manager \<Rightarrow> bool" where
  "cow_wf cm \<longleftrightarrow> dfilp cm \<noteq> None \<and> 0 < sect_size cm \<and>
     (case sects cm of None \<Rightarrow> False
      | Some ss \<Rightarrow> length ss = total_sects cm \<and> allocated_sects cm = of_nat (cached ss) \<and>
          (\<forall>s \<in> set ss. mappings s \<noteq> None \<longrightarrow> has_data s))"

definition capacity :: "cow_manager \<Rightarrow> nat" where
  "capacity cm = total_sects cm * sect_size cm"

definition index_end :: "cow_manager \<Rightarrow> nat" where
  "index_end cm = COW_HEADER_SIZE + 8 * capacity cm"

definition cow_zero :: "world \<Rightarrow> cow_manager \<Rightarrow> bool" where
  "cow_zero w cm \<longleftrightarrow> (\<forall>pos s. sect_at cm (pos div sect_size cm) = Some s \<longrightarrow> \<not> has_data s \<longrightarrow>
     index_entry w cm pos = 0)"

text \<open>Two states that differ only in what is cached and in counters of the cache.\<close>

definition cow_fields where
  "cow_fields cm = (map_option df_inode (dfilp cm), flags cm, curr_pos cm, data_offset cm, file_size cm,
     seqid cm, version cm, nr_changed_blocks cm, uuid cm, sect_size cm, total_sects cm,
     allowed_sects cm, cm_dev cm)"

definition cow_stable :: "world \<Rightarrow> cow_manager \<Rightarrow> world \<Rightarrow> cow_manager \<Rightarrow> bool" where
  "cow_stable w cm w' cm' \<longleftrightarrow> cow_wf cm' \<and> cow_fields cm' = cow_fields cm \<and>
     cow_map w' cm' = cow_map w cm \<and>
     (\<forall>a. a < COW_HEADER_SIZE \<or> index_end cm \<le> a \<longrightarrow> cow_data w' cm' a = cow_data w cm a) \<and>
     (cow_zero w cm \<longrightarrow> cow_zero w' cm')"

lemma cow_stable_refl: "cow_wf cm \<Longrightarrow> cow_stable w cm w cm"
  by (simp add: cow_stable_def)

lemma fields_simps:
  assumes "cow_fields cm' = cow_fields cm"
  shows "map_option df_inode (dfilp cm') = map_option df_inode (dfilp cm)"
    "sect_size cm' = sect_size cm" "total_sects cm' = total_sects cm" "index_end cm' = index_end cm"
    "capacity cm' = capacity cm" "curr_pos cm' = curr_pos cm" "version cm' = version cm"
    "nr_changed_blocks cm' = nr_changed_blocks cm" "file_size cm' = file_size cm"
    "data_offset cm' = data_offset cm" "uuid cm' = uuid cm"
  using assms by (auto simp: cow_fields_def index_end_def capacity_def)

lemma cow_stable_trans:
  assumes "cow_stable w cm w1 cm1" "cow_stable w1 cm1 w2 cm2"
  shows "cow_stable w cm w2 cm2"
proof -
  have "index_end cm1 = index_end cm"
    using assms(1) by (intro fields_simps(4)) (simp add: cow_stable_def)
  with assms show ?thesis by (simp add: cow_stable_def)
qed

lemma cow_data_cong:
  "map_option df_inode (dfilp cm') = map_option df_inode (dfilp cm) \<Longrightarrow>
   (\<And>d. dfilp cm = Some d \<Longrightarrow> data_of w' (df_inode d) = data_of w (df_inode d)) \<Longrightarrow>
   cow_data w' cm' = cow_data w cm"
  by (auto simp: cow_data_def fun_eq_iff split: option.splits)

lemma sect_at_put [simp]:
  "sect_at (put_sect cm i s) j = (if j = i \<and> sect_at cm i \<noteq> None then Some s else sect_at cm j)"
  by (auto simp: sect_at_def put_sect_def split: option.splits)

lemma put_sect_fields [simp]:
  "dfilp (put_sect cm i s) = dfilp cm" "sect_size (put_sect cm i s) = sect_size cm"
  "total_sects (put_sect cm i s) = total_sects cm" "cow_fields (put_sect cm i s) = cow_fields cm"
  "allocated_sects (put_sect cm i s) = allocated_sects cm"
  "allowed_sects (put_sect cm i s) = allowed_sects cm" "version (put_sect cm i s) = version cm"
  "curr_pos (put_sect cm i s) = curr_pos cm"
  by (simp_all add: put_sect_def cow_fields_def)

lemma put_sect_same: "sect_at cm i = Some s \<Longrightarrow> put_sect cm i s = cm"
  by (auto simp: put_sect_def sect_at_def split: option.splits if_splits)

lemma sect_at_wf: "cow_wf cm \<Longrightarrow> i < total_sects cm \<Longrightarrow> \<exists>s. sect_at cm i = Some s"
  by (auto simp: cow_wf_def sect_at_def split: option.splits)

lemma sect_at_bound: "cow_wf cm \<Longrightarrow> sect_at cm i = Some s \<Longrightarrow> i < total_sects cm"
  by (auto simp: cow_wf_def sect_at_def split: option.splits if_splits)

lemma cached_update:
  assumes "i < length ss"
  shows "(of_nat (cached (ss[i := s])) :: u64) =
    of_nat (cached ss) + (if mappings s \<noteq> None then 1 else 0) - (if mappings (ss ! i) \<noteq> None then 1 else 0)"
  using assms
proof (induction ss arbitrary: i)
  case (Cons a ss)
  then show ?case by (cases i) (auto simp: cached_def)
qed simp

lemma cow_wf_put:
  assumes "cow_wf cm" "sect_at cm i = Some s0" "mappings s \<noteq> None \<longrightarrow> has_data s"
    and "a = allocated_sects cm + (if mappings s \<noteq> None then 1 else 0)
           - (if mappings s0 \<noteq> None then 1 else 0)"
  shows "cow_wf ((put_sect cm i s)\<lparr>allocated_sects := a\<rparr>)"
proof -
  obtain ss where ss: "sects cm = Some ss" "i < length ss" "ss ! i = s0"
    using assms(2) by (auto simp: sect_at_def split: option.splits if_splits)
  with assms show ?thesis
    using cached_update[OF ss(2), of s]
    by (auto simp: cow_wf_def put_sect_def dest!: set_update_subset_insert[THEN subsetD])
qed

lemma cow_map_eqI:
  assumes "sect_size cm' = sect_size cm"
    and "\<And>i. (sect_at cm' i = None) = (sect_at cm i = None)"
    and "\<And>pos s s'. sect_at cm (pos div sect_size cm) = Some s \<Longrightarrow>
           sect_at cm' (pos div sect_size cm) = Some s' \<Longrightarrow> sect_val w' cm' s' pos = sect_val w cm s pos"
  shows "cow_map w' cm' = cow_map w cm"
proof
  fix pos
  show "cow_map w' cm' pos = cow_map w cm pos"
    using assms(1) assms(2)[of "pos div sect_size cm"] assms(3)[of pos]
    by (cases "sect_at cm (pos div sect_size cm)"; cases "sect_at cm' (pos div sect_size cm)")
      (auto simp: cow_map_def)
qed

lemma entry_off:
  "section_off cm (pos div sect_size cm) + 8 * (pos mod sect_size cm) = COW_HEADER_SIZE + 8 * pos"
proof -
  have "8 * (sect_size cm * (pos div sect_size cm) + pos mod sect_size cm) = 8 * pos" by simp
  then show ?thesis unfolding section_off_def by (simp only: distrib_left)
qed

lemma index_entry_data:
  assumes "\<And>k. k < 8 \<Longrightarrow>
    cow_data w' cm' (COW_HEADER_SIZE + 8 * pos + k) = cow_data w cm (COW_HEADER_SIZE + 8 * pos + k)"
  shows "index_entry w' cm' pos = index_entry w cm pos"
  unfolding index_entry_def buf_mappings_def
proof (rule le_word64_cong)
  fix k :: nat
  assume "k < 8"
  from assms[OF this]
  show "cow_data w' cm' (COW_HEADER_SIZE + (8 * pos + k)) = cow_data w cm (COW_HEADER_SIZE + (8 * pos + k))"
    by (simp only: add.assoc)
qed

lemma buf_mappings_read:
  assumes "0 < sect_size cm" "pos div sect_size cm = i"
    and "\<And>k. k < sect_size cm * 8 \<Longrightarrow> b k = cow_data w cm (section_off cm i + k)"
  shows "buf_mappings b (pos mod sect_size cm) = index_entry w cm pos"
proof -
  have lt: "8 * (pos mod sect_size cm) + k < sect_size cm * 8" if "k < 8" for k
    using that mod_less_divisor[OF assms(1), of pos] by linarith
  have "le_word64 (\<lambda>k. b (8 * (pos mod sect_size cm) + k))
      = le_word64 (\<lambda>k. cow_data w cm (COW_HEADER_SIZE + 8 * pos + k))"
  proof (rule le_word64_cong)
    fix k :: nat
    assume "k < 8"
    then show "b (8 * (pos mod sect_size cm) + k) = cow_data w cm (COW_HEADER_SIZE + 8 * pos + k)"
      using assms(3)[OF lt] entry_off[of cm pos] assms(2) by (metis add.assoc)
  qed
  then show ?thesis unfolding index_entry_def buf_mappings_def by (simp only: add.assoc)
qed

lemma mappings_buf_entry: "buf_mappings (mappings_buf m) i = m i"
proof -
  have "le_word64 (\<lambda>k. mappings_buf m (8 * i + k)) = le_word64 (le_byte (m i))"
    by (rule le_word64_cong) (simp add: mappings_buf_def)
  then show ?thesis by (simp add: buf_mappings_def)
qed

lemma cow_wf_dfilp: "map_option df_inode d = map_option df_inode (dfilp cm) \<Longrightarrow> cow_wf cm \<Longrightarrow> cow_wf (cm\<lparr>dfilp := d\<rparr>)"
  by (auto simp: cow_wf_def split: option.splits)

lemma put_sect_id [simp]:
  "(put_sect cm i s)\<lparr>allocated_sects := allocated_sects cm, dfilp := dfilp cm\<rparr> = put_sect cm i s"
  by (cases cm) (simp add: put_sect_def)

lemma dfilp_upd_simps [simp]:
  "sect_at (cm\<lparr>dfilp := d\<rparr>) i = sect_at cm i" "sect_at (cm\<lparr>allocated_sects := a\<rparr>) i = sect_at cm i"
  "cow_fields (cm\<lparr>allocated_sects := a\<rparr>) = cow_fields cm"
  "cow_data w (put_sect cm i s) = cow_data w cm" "cow_data w (cm\<lparr>allocated_sects := a\<rparr>) = cow_data w cm"
  by (simp_all add: sect_at_def cow_fields_def cow_data_def put_sect_def fun_eq_iff)

lemma cow_fields_dfilp:
  "map_option df_inode d = map_option df_inode (dfilp cm) \<Longrightarrow> cow_fields (cm\<lparr>dfilp := d\<rparr>) = cow_fields cm"
  by (simp add: cow_fields_def)

text \<open>Replacing one section by one with the same value, the file unchanged, is a stable step.\<close>

lemma cow_stable_put:
  assumes wf: "cow_wf cm" and s: "sect_at cm i = Some s"
    and data: "\<And>j. data_of w' j = data_of w j"
    and d: "map_option df_inode d = map_option df_inode (dfilp cm)"
    and a: "a = allocated_sects cm + (if mappings s' \<noteq> None then 1 else 0) - (if mappings s \<noteq> None then 1 else 0)"
    and hd: "has_data s \<longrightarrow> has_data s'" "mappings s' \<noteq> None \<longrightarrow> has_data s'"
    and eq: "\<And>pos. pos div sect_size cm = i \<Longrightarrow> sect_val w cm s' pos = sect_val w cm s pos"
  shows "cow_stable w cm w' ((put_sect cm i s')\<lparr>allocated_sects := a, dfilp := d\<rparr>)"
proof -
  let ?cm = "(put_sect cm i s')\<lparr>allocated_sects := a, dfilp := d\<rparr>"
  have dat: "cow_data w' ?cm = cow_data w cm"
    by (rule cow_data_cong) (simp_all add: d data)
  have val: "sect_val w' ?cm t pos = sect_val w cm t pos" for t pos
    by (simp add: sect_val_def index_entry_def dat split: option.splits)
  have wf': "cow_wf ?cm"
    using cow_wf_dfilp[of d "(put_sect cm i s')\<lparr>allocated_sects := a\<rparr>"] cow_wf_put[OF wf s hd(2) a] d by simp
  have "cow_map w' ?cm = cow_map w cm"
    by (rule cow_map_eqI) (auto simp: val eq s split: if_splits)
  moreover have "cow_zero w' ?cm" if "cow_zero w cm"
    using that s hd(1) by (auto simp: cow_zero_def index_entry_def dat split: if_splits)
  ultimately show ?thesis
    using wf' by (simp add: cow_stable_def cow_fields_dfilp d dat)
qed

lemma cow_stable_put0:
  assumes "cow_wf cm" "sect_at cm i = Some s" "mappings s' = mappings s" "has_data s' = has_data s"
  shows "cow_stable w cm w (put_sect cm i s')"
proof -
  have "mappings s \<noteq> None \<longrightarrow> has_data s"
    using assms(1,2) by (auto simp: cow_wf_def sect_at_def split: option.splits if_splits)
  with assms have "cow_stable w cm w
      ((put_sect cm i s')\<lparr>allocated_sects := allocated_sects cm, dfilp := dfilp cm\<rparr>)"
    by (intro cow_stable_put) (auto simp: sect_val_def)
  then show ?thesis by simp
qed

lemma cow_stable_dfilp:
  assumes "cow_wf cm" "\<And>j. data_of w' j = data_of w j" "map_option df_inode d = map_option df_inode (dfilp cm)"
  shows "cow_stable w cm w' (cm\<lparr>dfilp := d\<rparr>)"
proof -
  have dat: "cow_data w' (cm\<lparr>dfilp := d\<rparr>) = cow_data w cm"
    by (rule cow_data_cong) (simp_all add: assms)
  moreover have "cow_map w' (cm\<lparr>dfilp := d\<rparr>) = cow_map w cm"
    by (rule cow_map_eqI) (auto simp: sect_val_def index_entry_def dat split: option.splits)
  ultimately show ?thesis
    using assms by (auto simp: cow_stable_def cow_wf_dfilp cow_fields_dfilp cow_zero_def index_entry_def)
qed

lemma dfilp_same: "cm\<lparr>dfilp := dfilp cm\<rparr> = cm"
  by (cases cm) simp

lemma cow_load_section_stable:
  assumes K: "kernel_read_ok K" and wf: "cow_wf cm"
    and s: "sect_at cm i = Some s" "mappings s = None" "has_data s"
  obtains ret w' cm' where "cow_load_section K i w cm = Some (ret, w', cm')"
    and "cow_stable w cm w' cm'" and "ret = 0 \<Longrightarrow> \<exists>s'. sect_at cm' i = Some s' \<and> mappings s' \<noteq> None"
proof (cases "k_pages K (clock w)")
  case None
  then have "cow_load_section K i w cm = Some (- ENOMEM, ktick w, cm)"
    using s by (simp add: cow_load_section_def cow_alloc_section_def put_sect_same)
  moreover have "cow_stable w cm (ktick w) cm"
    using cow_stable_dfilp[OF wf, of "ktick w" w "dfilp cm"] by (simp add: dfilp_same)
  ultimately show ?thesis using that by fastforce
next
  case (Some g)
  obtain ret b d w' where rd: "file_read K (dfilp cm) (section_off cm i) (sect_size cm * 8) (ktick w) = (ret, b, d, w')"
    by (metis prod_cases4)
  have data: "data_of w' j = data_of w j" for j using file_read_data[OF rd] by simp
  have d: "map_option df_inode d = map_option df_inode (dfilp cm)" by (rule file_read_inode[OF rd])
  have so: "section_off ((put_sect cm i t)\<lparr>allocated_sects := a\<rparr>) i = section_off cm i" for t a
    by (simp add: section_off_def)
  let ?s = "s\<lparr>has_data := True, mappings := Some (buf_mappings b)\<rparr>"
  let ?cm = "(put_sect cm i ?s)\<lparr>allocated_sects := allocated_sects cm + 1, dfilp := d\<rparr>"
  have pp: "put_sect (put_sect cm i t\<lparr>allocated_sects := a\<rparr>) i t' = (put_sect cm i t')\<lparr>allocated_sects := a\<rparr>"
    "put_sect (put_sect cm i t\<lparr>allocated_sects := a, dfilp := e\<rparr>) i t' = (put_sect cm i t')\<lparr>allocated_sects := a, dfilp := e\<rparr>" for t t' a e
    by (auto simp: put_sect_def option.map_comp comp_def)
  show ?thesis
  proof (cases "ret = 0")
    case False
    have "s\<lparr>has_data := True, mappings := None\<rparr> = s" using s by (cases s) simp
    moreover have "cm\<lparr>dfilp := d, allocated_sects := allocated_sects cm\<rparr> = cm\<lparr>dfilp := d\<rparr>" by (cases cm) simp
    ultimately have "cow_load_section K i w cm = Some (ret, w', cm\<lparr>dfilp := d\<rparr>)"
      using Some s rd False
      by (simp add: cow_load_section_def cow_alloc_section_def cow_free_section_def so pp put_sect_same)
    then show ?thesis using that False cow_stable_dfilp[OF wf data d] by blast
  next
    case True
    have "cow_load_section K i w cm = Some (0, w', ?cm)"
      using Some s rd True by (simp add: cow_load_section_def cow_alloc_section_def so pp)
    moreover have "cow_stable w cm w' ?cm"
    proof (rule cow_stable_put[OF wf s(1) data d])
      fix pos
      assume p: "pos div sect_size cm = i"
      have sz: "0 < sect_size cm" using wf by (simp add: cow_wf_def)
      have "b k = cow_data w cm (section_off cm i + k)" if "k < sect_size cm * 8" for k
        using file_read_bytes[OF rd K True] that by (auto simp: cow_data_def)
      then show "sect_val w cm ?s pos = sect_val w cm s pos"
        using buf_mappings_read[OF sz p] s by (simp add: sect_val_def)
    qed (use s in simp_all)
    ultimately show ?thesis using that[of 0 w' ?cm] s(1) by simp
  qed
qed

lemma entry_outside_section:
  assumes sz: "0 < sect_size cm" and ne: "pos div sect_size cm \<noteq> i" and k: "k < 8"
  shows "COW_HEADER_SIZE + 8 * pos + k < section_off cm i \<or>
    section_off cm i + sect_size cm * 8 \<le> COW_HEADER_SIZE + 8 * pos + k"
proof (cases "pos div sect_size cm < i")
  case True
  then have "pos < sect_size cm * i"
    using sz by (simp add: div_less_iff_less_mult mult.commute)
  then have "8 * (pos + 1) \<le> 8 * (sect_size cm * i)" by simp
  with k show ?thesis by (simp add: section_off_def mult.commute mult.left_commute)
next
  case False
  with ne have "Suc i \<le> pos div sect_size cm" by simp
  then have "Suc i * sect_size cm \<le> pos"
    using sz by (simp add: less_eq_div_iff_mult_less_eq)
  then have "8 * (Suc i * sect_size cm) \<le> 8 * pos" by simp
  then show ?thesis by (simp add: section_off_def algebra_simps)
qed

lemma section_in_index:
  assumes "i < total_sects cm"
  shows "COW_HEADER_SIZE \<le> section_off cm i" "section_off cm i + sect_size cm * 8 \<le> index_end cm"
proof -
  have "Suc i * sect_size cm \<le> total_sects cm * sect_size cm"
    using assms by (simp only: mult_le_mono1 Suc_leI)
  then show "section_off cm i + sect_size cm * 8 \<le> index_end cm"
    by (simp add: section_off_def index_end_def capacity_def algebra_simps)
qed (simp add: section_off_def)

lemma cow_write_section_stable:
  assumes K: "kernel_write_ok K" and wf: "cow_wf cm"
    and s: "sect_at cm i = Some s" "mappings s = Some m"
  obtains ret w' d where "cow_write_section K i w cm = Some (ret, w', cm\<lparr>dfilp := d\<rparr>)"
    and "cow_stable w cm w' (cm\<lparr>dfilp := d\<rparr>)"
    and "ret = 0 \<Longrightarrow> \<forall>pos. pos div sect_size cm = i \<longrightarrow>
           index_entry w' (cm\<lparr>dfilp := d\<rparr>) pos = m (pos mod sect_size cm)"
proof -
  obtain ret d w' where wr:
    "file_write K (dfilp cm) (mappings_buf m) (section_off cm i) (sect_size cm * 8) w = (ret, d, w')"
    by (metis prod_cases3)
  let ?cm = "cm\<lparr>dfilp := d\<rparr>"
  have sz: "0 < sect_size cm" using wf by (simp add: cow_wf_def)
  have d: "map_option df_inode d = map_option df_inode (dfilp cm)" by (rule file_write_inode[OF wr])
  have frame: "cow_data w' ?cm a = cow_data w cm a"
    if "a < section_off cm i \<or> section_off cm i + sect_size cm * 8 \<le> a" for a
    using file_write_frame[OF wr K that] d by (auto simp: cow_data_def split: option.splits)
  have other: "index_entry w' ?cm pos = index_entry w cm pos" if "pos div sect_size cm \<noteq> i" for pos
    by (rule index_entry_data, rule frame, rule entry_outside_section[OF sz that])
  have hd: "has_data s" using wf s by (auto simp: cow_wf_def sect_at_def split: option.splits if_splits)
  have uncached: "index_entry w' ?cm pos = index_entry w cm pos"
    if "sect_at cm (pos div sect_size cm) = Some t" "mappings t = None \<or> \<not> has_data t" for pos t
  proof -
    have "pos div sect_size cm \<noteq> i" using that s hd by auto
    then show ?thesis by (rule other)
  qed
  have "cow_map w' ?cm = cow_map w cm"
    by (rule cow_map_eqI) (use uncached in \<open>auto simp: sect_val_def split: option.splits\<close>)
  moreover have "cow_zero w' ?cm" if "cow_zero w cm"
    using that by (auto simp: cow_zero_def uncached)
  ultimately have st: "cow_stable w cm w' ?cm"
    using wf d frame section_in_index[OF sect_at_bound[OF wf s(1)]]
    by (auto simp: cow_stable_def cow_wf_dfilp cow_fields_dfilp)
  have "index_entry w' ?cm pos = m (pos mod sect_size cm)" if "ret = 0" "pos div sect_size cm = i" for pos
  proof -
    have "mappings_buf m k = cow_data w' ?cm (section_off cm i + k)" if "k < sect_size cm * 8" for k
      using file_write_bytes[OF wr K \<open>ret = 0\<close>] that d by (auto simp: cow_data_def)
    then show ?thesis
      using buf_mappings_read[of ?cm pos i "mappings_buf m" w'] sz that(2)
      by (simp add: section_off_def mappings_buf_entry)
  qed
  then show ?thesis using that st wr s by (simp add: cow_write_section_def)
qed

definition uncached_from :: "cow_manager \<Rightarrow> nat \<Rightarrow> nat \<Rightarrow> bool" where
  "uncached_from cm i n \<longleftrightarrow> (\<forall>j s. i \<le> j \<and> j < i + n \<longrightarrow> sect_at cm j = Some s \<longrightarrow> mappings s = None)"

lemma cow_sync_step_stable:
  assumes K: "kernel_write_ok K" and wf: "cow_wf cm" and s: "sect_at cm i = Some s" "mappings s = Some m"
    and wr: "cow_write_section K i w cm = Some (0, w', cm\<lparr>dfilp := d\<rparr>)"
    and st: "cow_stable w cm w' (cm\<lparr>dfilp := d\<rparr>)"
    and val: "\<forall>pos. pos div sect_size cm = i \<longrightarrow>
           index_entry w' (cm\<lparr>dfilp := d\<rparr>) pos = m (pos mod sect_size cm)"
  obtains cm' where "cow_free_section (cm\<lparr>dfilp := d\<rparr>) i = Some cm'" "cow_stable w cm w' cm'"
    "sect_at cm' i = Some (s\<lparr>mappings := None\<rparr>)" "\<And>j. j \<noteq> i \<Longrightarrow> sect_at cm' j = sect_at cm j"
proof -
  let ?c = "cm\<lparr>dfilp := d\<rparr>"
  let ?c' = "(put_sect ?c i (s\<lparr>mappings := None\<rparr>))\<lparr>allocated_sects := allocated_sects cm - 1, dfilp := d\<rparr>"
  have wf': "cow_wf ?c" using st by (simp add: cow_stable_def)
  have hd: "has_data s" using wf s by (auto simp: cow_wf_def sect_at_def split: option.splits if_splits)
  have "cow_stable w' ?c w' ?c'"
    by (rule cow_stable_put[OF wf']) (use s hd val in \<open>auto simp: sect_val_def\<close>)
  with st have "cow_stable w cm w' ?c'" by (rule cow_stable_trans)
  moreover have "cow_free_section ?c i = Some ?c'"
    using s by (simp add: cow_free_section_def put_sect_def)
  ultimately show ?thesis using that s by simp
qed

definition sync_post :: "kernel \<Rightarrow> u64 \<Rightarrow> nat \<Rightarrow> nat \<Rightarrow> world \<Rightarrow> cow_manager \<Rightarrow> cow_res \<Rightarrow> bool" where
  "sync_post K thresh i n w cm res \<longleftrightarrow> (\<exists>ret w' cm'. res = Some (ret, w', cm') \<and> cow_stable w cm w' cm' \<and>
     (ret = 0 \<longrightarrow> thresh = 0 \<longrightarrow> uncached_from cm' i n) \<and> (\<forall>j < i. sect_at cm' j = sect_at cm j))"

lemma uncached_from_Suc:
  "sect_at cm i = Some s \<Longrightarrow> mappings s = None \<Longrightarrow> uncached_from cm (Suc i) n \<Longrightarrow> uncached_from cm i (Suc n)"
  unfolding uncached_from_def
  by (metis add_Suc_right add_Suc le_antisym not_less_eq_eq option.inject)

lemma cow_sync_rest:
  assumes IH: "\<And>w cm. cow_wf cm \<Longrightarrow> Suc i + n \<le> total_sects cm \<Longrightarrow>
      sync_post K thresh (Suc i) n w cm (cow_sync_loop K thresh (Suc i) n w cm)"
    and len: "Suc i + n \<le> total_sects cm"
    and st1: "cow_stable w cm w1 cm1" and s1: "sect_at cm1 i = Some s1" "thresh = 0 \<longrightarrow> mappings s1 = None"
    and fr: "\<And>j. j \<noteq> i \<Longrightarrow> sect_at cm1 j = sect_at cm j"
  shows "sync_post K thresh i (Suc n) w cm
    (cow_sync_loop K thresh (Suc i) n w1 (put_sect cm1 i (s1\<lparr>usage := 0\<rparr>)))"
proof -
  let ?c = "put_sect cm1 i (s1\<lparr>usage := 0\<rparr>)"
  have wf1: "cow_wf cm1" and f1: "cow_fields cm1 = cow_fields cm" using st1 by (auto simp: cow_stable_def)
  have st2: "cow_stable w1 cm1 w1 ?c" by (rule cow_stable_put0[OF wf1 s1(1)]) simp_all
  then have "cow_wf ?c" by (simp add: cow_stable_def)
  moreover have "Suc i + n \<le> total_sects ?c" using len fields_simps(3)[OF f1] by simp
  ultimately obtain ret w2 cm2 where
    r: "cow_sync_loop K thresh (Suc i) n w1 ?c = Some (ret, w2, cm2)" "cow_stable w1 ?c w2 cm2"
    "ret = 0 \<longrightarrow> thresh = 0 \<longrightarrow> uncached_from cm2 (Suc i) n" "\<forall>j < Suc i. sect_at cm2 j = sect_at ?c j"
    using IH[of ?c w1] by (auto simp: sync_post_def)
  have "sect_at cm2 i = Some (s1\<lparr>usage := 0\<rparr>)" using r(4) s1 by simp
  then have "ret = 0 \<longrightarrow> thresh = 0 \<longrightarrow> uncached_from cm2 i (Suc n)"
    using r(3) s1(2) uncached_from_Suc[of cm2 i] by simp
  moreover have "cow_stable w cm w2 cm2" using st1 st2 r(2) by (meson cow_stable_trans)
  moreover have "\<forall>j < i. sect_at cm2 j = sect_at cm j" using r(4) fr by simp
  ultimately show ?thesis using r(1) by (auto simp: sync_post_def)
qed

lemma cow_sync_loop_stable:
  assumes K: "kernel_write_ok K" and "cow_wf cm" and "i + n \<le> total_sects cm"
  shows "sync_post K thresh i n w cm (cow_sync_loop K thresh i n w cm)"
  using assms(2,3)
proof (induction n arbitrary: i w cm)
  case 0
  then show ?case by (auto simp: sync_post_def cow_stable_refl uncached_from_def)
next
  case (Suc n)
  from Suc.prems obtain s where s: "sect_at cm i = Some s" using sect_at_wf[of cm i] by auto
  have len: "Suc i + n \<le> total_sects cm" using Suc.prems(2) by simp
  note rest = cow_sync_rest[where thresh = thresh, OF Suc.IH len]
  consider (stop) "\<not> (thresh = 0 \<or> allocated_sects cm > allowed_sects cm div 2)"
    | (skip) "thresh = 0 \<or> allocated_sects cm > allowed_sects cm div 2"
        "\<not> (mappings s \<noteq> None \<and> (thresh = 0 \<or> usage s \<le> thresh))"
    | (evict) "thresh = 0 \<or> allocated_sects cm > allowed_sects cm div 2"
        "mappings s \<noteq> None \<and> (thresh = 0 \<or> usage s \<le> thresh)" by blast
  then show ?case
  proof cases
    case stop
    then show ?thesis using Suc.prems by (simp add: sync_post_def cow_stable_refl)
  next
    case skip
    then show ?thesis using rest[OF _ _ cow_stable_refl[OF Suc.prems(1)] s] s by auto
  next
    case evict
    then obtain m where m: "mappings s = Some m" by auto
    obtain ret w1 d where wr: "cow_write_section K i w cm = Some (ret, w1, cm\<lparr>dfilp := d\<rparr>)"
      and st: "cow_stable w cm w1 (cm\<lparr>dfilp := d\<rparr>)"
      and val: "ret = 0 \<Longrightarrow> \<forall>pos. pos div sect_size cm = i \<longrightarrow>
        index_entry w1 (cm\<lparr>dfilp := d\<rparr>) pos = m (pos mod sect_size cm)"
      by (rule cow_write_section_stable[OF K Suc.prems(1) s m, where w = w]) blast
    show ?thesis
    proof (cases "ret = 0")
      case False
      then show ?thesis using evict s wr st by (simp add: sync_post_def)
    next
      case True
      obtain cm1 where c1: "cow_free_section (cm\<lparr>dfilp := d\<rparr>) i = Some cm1" "cow_stable w cm w1 cm1"
        "sect_at cm1 i = Some (s\<lparr>mappings := None\<rparr>)" "\<And>j. j \<noteq> i \<Longrightarrow> sect_at cm1 j = sect_at cm j"
        by (rule cow_sync_step_stable[OF K Suc.prems(1) s m]) (use wr st val True in auto)
      then show ?thesis using rest[OF _ _ c1(2,3) _ c1(4)] evict s wr True by simp
    qed
  qed
qed

lemma cow_sync_stable:
  assumes "kernel_write_ok K" "cow_wf cm"
  obtains ret w' cm' where "cow_sync_and_free_sections K thresh w cm = Some (ret, w', cm')"
    "cow_stable w cm w' cm'" "ret = 0 \<Longrightarrow> thresh = 0 \<Longrightarrow> uncached_from cm' 0 (total_sects cm)"
  using cow_sync_loop_stable[OF assms, of 0 "total_sects cm" thresh w]
  by (auto simp: sync_post_def cow_sync_and_free_sections_def)

lemma cow_cleanup_stable:
  assumes "kernel_write_ok K" "cow_wf cm"
  obtains ret w' cm' where "cow_cleanup_mappings K w cm = Some (ret, w', cm')" "cow_stable w cm w' cm'"
proof -
  obtain ss where "sects cm = Some ss" using assms(2) by (auto simp: cow_wf_def split: option.splits)
  then have "cow_cleanup_mappings K w cm =
      cow_sync_and_free_sections K (median_loop ss (max_usage ss div 2) (max_usage ss div 2)) w cm"
    by (simp add: cow_cleanup_mappings_def Let_def)
  then show ?thesis using cow_sync_stable[OF assms] that by metis
qed

lemma pos_section: "cow_wf cm \<Longrightarrow> pos < capacity cm \<Longrightarrow> \<exists>s. sect_at cm (pos div sect_size cm) = Some s"
  by (rule sect_at_wf) (simp_all add: capacity_def cow_wf_def div_less_iff_less_mult)

lemma cow_map_cached:
  "sect_at cm (pos div sect_size cm) = Some s \<Longrightarrow> mappings s = Some m \<Longrightarrow> cow_map w cm pos = m (pos mod sect_size cm)"
  by (simp add: cow_map_def sect_val_def)

lemma cow_alloc_section_zero_stable:
  assumes wf: "cow_wf cm" and s: "sect_at cm i = Some s" "mappings s = None" "\<not> has_data s"
  shows "\<exists>ret w' cm'. cow_alloc_section K i True w cm = Some (ret, w', cm') \<and> cow_stable w cm w' cm' \<and>
    (ret = 0 \<longrightarrow> (\<exists>s' m. sect_at cm' i = Some s' \<and> mappings s' = Some m))"
proof (cases "k_pages K (clock w)")
  case None
  have "s\<lparr>mappings := None\<rparr> = s" using s by (cases s) simp
  moreover have "cow_stable w cm (ktick w) cm"
    using cow_stable_dfilp[OF wf, of "ktick w" w "dfilp cm"] by (simp add: dfilp_same)
  ultimately show ?thesis using None s by (simp add: cow_alloc_section_def put_sect_same)
next
  case (Some g)
  let ?c = "(put_sect cm i (s\<lparr>mappings := Some (\<lambda>_. 0), has_data := True\<rparr>))\<lparr>allocated_sects := allocated_sects cm + 1, dfilp := dfilp cm\<rparr>"
  have "cow_stable w cm (ktick w) ?c"
    by (rule cow_stable_put[OF wf s(1)]) (use s in \<open>auto simp: sect_val_def\<close>)
  moreover have "?c = (put_sect cm i (s\<lparr>mappings := Some (\<lambda>_. 0), has_data := True\<rparr>))\<lparr>allocated_sects := allocated_sects cm + 1\<rparr>"
    by (simp add: put_sect_def)
  ultimately show ?thesis using Some s by (simp add: cow_alloc_section_def)
qed

lemma cow_fetch_stable:
  assumes K: "kernel_read_ok K" and wf: "cow_wf cm" and s: "sect_at cm i = Some s"
  shows "\<exists>ret w' cm'.
    (if mappings s = None then
       (if \<not> has_data s then cow_alloc_section K i True w cm else cow_load_section K i w cm)
     else Some (0, w, cm)) = Some (ret, w', cm') \<and> cow_stable w cm w' cm' \<and>
    (ret = 0 \<longrightarrow> (\<exists>s' m. sect_at cm' i = Some s' \<and> mappings s' = Some m))"
proof (cases "mappings s = None")
  case True
  show ?thesis
  proof (cases "has_data s")
    case hd: True
    obtain ret w' cm' where "cow_load_section K i w cm = Some (ret, w', cm')" "cow_stable w cm w' cm'"
      "ret = 0 \<longrightarrow> (\<exists>s' m. sect_at cm' i = Some s' \<and> mappings s' = Some m)"
      by (rule cow_load_section_stable[OF K wf s True hd, where w = w]) blast
    then show ?thesis using True hd by auto
  next
    case False
    then show ?thesis using cow_alloc_section_zero_stable[OF wf s True False] True by simp
  qed
next
  case False
  then show ?thesis using cow_stable_refl[OF wf] s by auto
qed

text \<open>The state after the common prologue of the two accessors: use counted, section fetched.\<close>

lemma cow_prologue:
  assumes K: "kernel_read_ok K" and wf: "cow_wf cm" and s: "sect_at cm i = Some s"
  shows "\<exists>ret w' cm'.
    (if mappings s = None then
       (if \<not> has_data s then cow_alloc_section K i True w (put_sect cm i (s\<lparr>usage := u\<rparr>))
        else cow_load_section K i w (put_sect cm i (s\<lparr>usage := u\<rparr>)))
     else Some (0, w, put_sect cm i (s\<lparr>usage := u\<rparr>))) = Some (ret, w', cm') \<and> cow_stable w cm w' cm' \<and>
    (ret = 0 \<longrightarrow> (\<exists>s' m. sect_at cm' i = Some s' \<and> mappings s' = Some m))"
proof -
  have st: "cow_stable w cm w (put_sect cm i (s\<lparr>usage := u\<rparr>))" by (rule cow_stable_put0[OF wf s]) simp_all
  then have "cow_wf (put_sect cm i (s\<lparr>usage := u\<rparr>))" by (simp add: cow_stable_def)
  moreover have "sect_at (put_sect cm i (s\<lparr>usage := u\<rparr>)) i = Some (s\<lparr>usage := u\<rparr>)" using s by simp
  moreover have eqs: "mappings (s\<lparr>usage := u\<rparr>) = mappings s" "has_data (s\<lparr>usage := u\<rparr>) = has_data s" by simp_all
  ultimately show ?thesis
    using cow_fetch_stable[OF K, of "put_sect cm i (s\<lparr>usage := u\<rparr>)" i "s\<lparr>usage := u\<rparr>" w, unfolded eqs]
      cow_stable_trans[OF st] by meson
qed

lemma cow_stable_size: "cow_stable w cm w' cm' \<Longrightarrow> sect_size cm' = sect_size cm"
  by (rule fields_simps(2)) (simp add: cow_stable_def)

lemma cow_read_mapping_ok:
  assumes K: "kernel_ok K" and wf: "cow_wf cm" and pos: "pos < capacity cm"
  shows "\<exists>ret v w' cm'. cow_read_mapping K pos w cm = Some (ret, v, w', cm') \<and> cow_stable w cm w' cm' \<and>
    (ret = 0 \<longrightarrow> v = cow_map w cm pos)"
proof -
  let ?i = "pos div sect_size cm"
  obtain s where s: "sect_at cm ?i = Some s" using pos_section[OF wf pos] by blast
  have Kr: "kernel_read_ok K" and Kw: "kernel_write_ok K" using K by (simp_all add: kernel_ok_def)
  show ?thesis
  proof (cases "mappings s = None \<and> \<not> has_data s")
    case True
    then have "cow_map w cm pos = 0" using s by (simp add: cow_map_def sect_val_def)
    then show ?thesis using True s cow_stable_put0[OF wf s, of "s\<lparr>usage := usage s + 1\<rparr>"]
      by (simp add: cow_read_mapping_def)
  next
    case False
    obtain ret w1 cm1 where ld: "(if mappings s = None then
        (if \<not> has_data s then cow_alloc_section K ?i True w (put_sect cm ?i (s\<lparr>usage := usage s + 1\<rparr>))
         else cow_load_section K ?i w (put_sect cm ?i (s\<lparr>usage := usage s + 1\<rparr>)))
       else Some (0, w, put_sect cm ?i (s\<lparr>usage := usage s + 1\<rparr>))) = Some (ret, w1, cm1)"
      and st: "cow_stable w cm w1 cm1"
      and c1: "ret = 0 \<longrightarrow> (\<exists>s' m. sect_at cm1 ?i = Some s' \<and> mappings s' = Some m)"
      using cow_prologue[OF Kr wf s, of w "usage s + 1"] by blast
    note unf = cow_read_mapping_def Let_def
    show ?thesis
    proof (cases "ret = 0")
      case ret: False
      then show ?thesis using s False ld st by (auto simp: unf split: if_splits)
    next
      case ret: True
      then obtain s1 m where m: "sect_at cm1 ?i = Some s1" "mappings s1 = Some m" using c1 by blast
      have v: "m (pos mod sect_size cm) = cow_map w cm pos"
        using cow_map_cached[of cm1 pos s1 m w1] m st cow_stable_size[OF st] by (simp add: cow_stable_def)
      have wf1: "cow_wf cm1" using st by (simp add: cow_stable_def)
      obtain r2 w2 cm2 where cl: "cow_cleanup_mappings K w1 cm1 = Some (r2, w2, cm2)" "cow_stable w1 cm1 w2 cm2"
        by (rule cow_cleanup_stable[OF Kw wf1])
      show ?thesis
        using s False ld ret m v st cl cow_stable_trans[OF st cl(2)] by (auto simp: unf split: if_splits)
    qed
  qed
qed

text \<open>The state after a mapping was written: one entry changed, the changed-block count kept up.\<close>

definition count_change :: "world \<Rightarrow> cow_manager \<Rightarrow> nat \<Rightarrow> cow_manager" where
  "count_change w cm pos =
     (if version cm \<ge> COW_VERSION_CHANGED_BLOCKS \<and> cow_map w cm pos = 0
      then cm\<lparr>nr_changed_blocks := nr_changed_blocks cm + 1\<rparr> else cm)"

definition cow_wrote :: "nat \<Rightarrow> u64 \<Rightarrow> world \<Rightarrow> cow_manager \<Rightarrow> world \<Rightarrow> cow_manager \<Rightarrow> bool" where
  "cow_wrote pos val w cm w' cm' \<longleftrightarrow> cow_wf cm' \<and> cow_fields cm' = cow_fields (count_change w cm pos) \<and>
     cow_map w' cm' = (cow_map w cm)(pos := val) \<and>
     (\<forall>a. a < COW_HEADER_SIZE \<or> index_end cm \<le> a \<longrightarrow> cow_data w' cm' a = cow_data w cm a) \<and>
     (cow_zero w cm \<longrightarrow> cow_zero w' cm')"

lemma count_change_simps [simp]:
  "dfilp (count_change w cm pos) = dfilp cm" "sect_size (count_change w cm pos) = sect_size cm"
  "total_sects (count_change w cm pos) = total_sects cm" "sects (count_change w cm pos) = sects cm"
  "curr_pos (count_change w cm pos) = curr_pos cm" "file_size (count_change w cm pos) = file_size cm"
  "data_offset (count_change w cm pos) = data_offset cm" "version (count_change w cm pos) = version cm"
  "allocated_sects (count_change w cm pos) = allocated_sects cm"
  "allowed_sects (count_change w cm pos) = allowed_sects cm"
  "cow_data v (count_change w cm pos) = cow_data v cm"
  by (simp_all add: count_change_def cow_data_def fun_eq_iff)

lemma cow_wrote_stable:
  assumes "cow_wrote pos val w cm w1 cm1" "cow_stable w1 cm1 w2 cm2"
  shows "cow_wrote pos val w cm w2 cm2"
proof -
  have "index_end cm1 = index_end cm"
    using assms(1) fields_simps(4)[of cm1 "count_change w cm pos"]
    by (simp add: cow_wrote_def index_end_def capacity_def)
  with assms show ?thesis by (simp add: cow_wrote_def cow_stable_def)
qed

lemma cow_stable_wrote:
  assumes "cow_stable w cm w1 cm1" "cow_wrote pos val w1 cm1 w2 cm2"
  shows "cow_wrote pos val w cm w2 cm2"
proof -
  have f: "cow_fields cm1 = cow_fields cm" and m: "cow_map w1 cm1 = cow_map w cm"
    using assms(1) by (auto simp: cow_stable_def)
  have "cow_fields (count_change w1 cm1 pos) = cow_fields (count_change w cm pos)"
    using f m by (auto simp: count_change_def cow_fields_def)
  moreover have "index_end cm1 = index_end cm" by (rule fields_simps(4)[OF f])
  ultimately show ?thesis using assms by (simp add: cow_wrote_def cow_stable_def)
qed

lemma cow_put_mapping_wrote:
  assumes wf: "cow_wf cm" and s: "sect_at cm (pos div sect_size cm) = Some s" "mappings s = Some m"
  shows "cow_wrote pos val w cm w
    (put_sect (count_change w cm pos) (pos div sect_size cm)
       (s\<lparr>mappings := Some (m(pos mod sect_size cm := val))\<rparr>))"
proof -
  let ?i = "pos div sect_size cm"
  let ?s = "s\<lparr>mappings := Some (m(pos mod sect_size cm := val))\<rparr>"
  let ?c = "put_sect (count_change w cm pos) ?i ?s"
  have at: "sect_at (count_change w cm pos) j = sect_at cm j" for j by (simp add: sect_at_def)
  have hd: "has_data s" using wf s by (auto simp: cow_wf_def sect_at_def split: option.splits if_splits)
  have wf': "cow_wf ?c"
  proof -
    have "cow_wf (count_change w cm pos)" using wf by (simp add: cow_wf_def split: option.splits)
    from cow_wf_put[OF this, of ?i s ?s "allocated_sects cm"] s hd at
    have "cow_wf (?c\<lparr>allocated_sects := allocated_sects cm\<rparr>)" by simp
    moreover have "?c\<lparr>allocated_sects := allocated_sects cm\<rparr> = ?c"
      by (simp add: put_sect_def count_change_def)
    ultimately show ?thesis by simp
  qed
  have "cow_map w ?c q = ((cow_map w cm)(pos := val)) q" for q
  proof -
    have "q = pos" if "q div sect_size cm = ?i" "q mod sect_size cm = pos mod sect_size cm"
      using that by (metis div_mult_mod_eq)
    then show ?thesis
      using s by (auto simp: cow_map_def sect_val_def at index_entry_def split: option.splits)
  qed
  moreover have "cow_zero w ?c" if "cow_zero w cm"
    using that s hd by (auto simp: cow_zero_def at index_entry_def split: if_splits)
  ultimately show ?thesis using wf' by (simp add: cow_wrote_def fun_eq_iff)
qed

lemma cow_write_mapping_ok:
  assumes K: "kernel_ok K" and wf: "cow_wf cm" and pos: "pos < capacity cm"
  shows "\<exists>ret w' cm'. cow_write_mapping K pos val w cm = Some (ret, w', cm') \<and>
    (cow_wrote pos val w cm w' cm' \<or> ret \<noteq> 0 \<and> cow_stable w cm w' cm')"
proof -
  let ?i = "pos div sect_size cm"
  obtain s where s: "sect_at cm ?i = Some s" using pos_section[OF wf pos] by blast
  have Kr: "kernel_read_ok K" and Kw: "kernel_write_ok K" using K by (simp_all add: kernel_ok_def)
  obtain ret w1 cm1 where ld: "(if mappings s = None then
      (if \<not> has_data s then cow_alloc_section K ?i True w (put_sect cm ?i (s\<lparr>usage := usage s + 1\<rparr>))
       else cow_load_section K ?i w (put_sect cm ?i (s\<lparr>usage := usage s + 1\<rparr>)))
     else Some (0, w, put_sect cm ?i (s\<lparr>usage := usage s + 1\<rparr>))) = Some (ret, w1, cm1)"
    and st: "cow_stable w cm w1 cm1"
    and c1: "ret = 0 \<longrightarrow> (\<exists>s' m. sect_at cm1 ?i = Some s' \<and> mappings s' = Some m)"
    using cow_prologue[OF Kr wf s, of w "usage s + 1"] by blast
  show ?thesis
  proof (cases "ret = 0")
    case False
    then show ?thesis using s ld st by (simp add: cow_write_mapping_def Let_def)
  next
    case ret: True
    then obtain s1 m where m: "sect_at cm1 ?i = Some s1" "mappings s1 = Some m" using c1 by blast
    have sz: "sect_size cm1 = sect_size cm" by (rule cow_stable_size[OF st])
    let ?c = "put_sect (count_change w1 cm1 pos) ?i (s1\<lparr>mappings := Some (m(pos mod sect_size cm := val))\<rparr>)"
    have wf1: "cow_wf cm1" using st by (simp add: cow_stable_def)
    have wr: "cow_wrote pos val w cm w1 ?c"
      using cow_stable_wrote[OF st cow_put_mapping_wrote[OF wf1, of pos s1 m val]] m sz by simp
    have wf2: "cow_wf ?c" using wr by (simp add: cow_wrote_def)
    have cc: "(if version cm1 \<ge> 1 \<and> m (pos mod sect_size cm) = 0
        then cm1\<lparr>nr_changed_blocks := nr_changed_blocks cm1 + 1\<rparr> else cm1) = count_change w1 cm1 pos"
      using cow_map_cached[of cm1 pos s1 m w1] m sz by (simp add: count_change_def)
    obtain r2 w2 cm2 where cl: "cow_cleanup_mappings K w1 ?c = Some (r2, w2, cm2)" "cow_stable w1 ?c w2 cm2"
      by (rule cow_cleanup_stable[OF Kw wf2])
    show ?thesis
      using s ld ret m wr cl cow_wrote_stable[OF wr cl(2)]
      by (simp add: cow_write_mapping_def Let_def cc)
  qed
qed

subsection \<open>The contract of the index\<close>

text \<open>
  What the handlers rely on: an array that survives its own cache. A read returns the entry or an
  error and changes nothing; a write changes one entry, and an error code leaves the array as
  it was or with that entry written. The client lemma is a write followed by a read.
\<close>

locale index_array =
  fixes inv :: "'s \<Rightarrow> bool" and cap :: "'s \<Rightarrow> nat" and arr :: "'s \<Rightarrow> nat \<Rightarrow> 'v"
    and rd :: "nat \<Rightarrow> 's \<Rightarrow> (int \<times> 'v \<times> 's) option" and wr :: "nat \<Rightarrow> 'v \<Rightarrow> 's \<Rightarrow> (int \<times> 's) option"
  assumes rd_ok: "inv s \<Longrightarrow> p < cap s \<Longrightarrow>
      \<exists>r v s'. rd p s = Some (r, v, s') \<and> inv s' \<and> cap s' = cap s \<and> arr s' = arr s \<and> (r = 0 \<longrightarrow> v = arr s p)"
    and wr_ok: "inv s \<Longrightarrow> p < cap s \<Longrightarrow>
      \<exists>r s'. wr p v s = Some (r, s') \<and> inv s' \<and> cap s' = cap s \<and>
        (arr s' = (arr s)(p := v) \<or> r \<noteq> 0 \<and> arr s' = arr s)"
begin

lemma read_after_write:
  assumes "inv s" "p < cap s" "q < cap s"
  shows "\<exists>r s1. wr p v s = Some (r, s1) \<and> (r = 0 \<longrightarrow>
    (\<exists>r' v' s2. rd q s1 = Some (r', v', s2) \<and> arr s2 = (arr s)(p := v) \<and>
       (r' = 0 \<longrightarrow> v' = (if q = p then v else arr s q))))"
proof -
  obtain r s1 where w: "wr p v s = Some (r, s1)" "inv s1" "cap s1 = cap s"
    "arr s1 = (arr s)(p := v) \<or> r \<noteq> 0 \<and> arr s1 = arr s"
    using wr_ok[OF assms(1,2)] by blast
  with rd_ok[of s1 q] assms(3) show ?thesis by fastforce
qed

end

interpretation cow_array: index_array
  "\<lambda>(w, cm). kernel_ok K \<and> cow_wf cm" "\<lambda>(w, cm). capacity cm" "\<lambda>(w, cm). cow_map w cm"
  "\<lambda>p (w, cm). cow_read_mapping K p w cm" "\<lambda>p v (w, cm). cow_write_mapping K p v w cm" for K
proof (unfold_locales, goal_cases)
  case (1 s p)
  then obtain w cm where s: "s = (w, cm)" "kernel_ok K" "cow_wf cm" "p < capacity cm" by (cases s) auto
  from cow_read_mapping_ok[OF s(2-4), of w] obtain r v w' cm' where
    r: "cow_read_mapping K p w cm = Some (r, v, w', cm')" "cow_stable w cm w' cm'" "r = 0 \<longrightarrow> v = cow_map w cm p"
    by blast
  moreover have "capacity cm' = capacity cm" using fields_simps(5)[of cm' cm] r(2) by (simp add: cow_stable_def)
  ultimately show ?case using s by (auto simp: cow_stable_def)
next
  case (2 s p v)
  then obtain w cm where s: "s = (w, cm)" "kernel_ok K" "cow_wf cm" "p < capacity cm" by (cases s) auto
  from cow_write_mapping_ok[OF s(2-4), of v w] obtain r w' cm' where
    r: "cow_write_mapping K p v w cm = Some (r, w', cm')"
      "cow_wrote p v w cm w' cm' \<or> r \<noteq> 0 \<and> cow_stable w cm w' cm'"
    by blast
  moreover have "capacity cm' = capacity cm"
    using r(2) fields_simps(5)[of cm' cm] fields_simps(5)[of cm' "count_change w cm p"]
    by (auto simp: cow_stable_def cow_wrote_def capacity_def)
  ultimately show ?case using s by (auto simp: cow_stable_def cow_wrote_def)
qed

end
