(* ===== verification/Cow_Store.thy ===== *)
theory Cow_Store
  imports Cow_Index
begin

text \<open>
  The COW manager as a store of saved blocks. \<open>cow_saved\<close> is the partial function from block numbers
  to the saved 4096 bytes; \<open>snap_inv\<close> says that every mapping points into the data area below the
  append position. \<^verbatim>\<open>cow_write_current\<close> refines \<open>store_put\<close>, which keeps the first copy of a block; the
  filler mapping of incremental mode marks exactly one block. The counter of changed blocks in the
  header is the number of mapped blocks.
\<close>

subsection \<open>Saved blocks\<close>

text \<open>The saved copy of a block: the 4096 bytes its mapping points at.\<close>

definition block_of :: "buf \<Rightarrow> buf" where
  "block_of b i = (if i < COW_BLOCK_SIZE then b i else 0)"

definition cow_saved :: "world \<Rightarrow> cow_manager \<Rightarrow> nat \<Rightarrow> buf option" where
  "cow_saved w cm b =
     (if cow_map w cm b = 0 then None
      else Some (block_of (\<lambda>i. cow_data w cm (unat (cow_map w cm b) * COW_BLOCK_SIZE + i))))"

definition snap_inv :: "world \<Rightarrow> cow_manager \<Rightarrow> bool" where
  "snap_inv w cm \<longleftrightarrow> cow_wf cm \<and> index_end cm \<le> unat (curr_pos cm) * COW_BLOCK_SIZE \<and>
     unat (curr_pos cm) * COW_BLOCK_SIZE \<le> 2 ^ 63 + COW_BLOCK_SIZE \<and> unat (file_size cm) \<le> 2 ^ 63 \<and>
     (\<forall>b. cow_map w cm b \<noteq> 0 \<longrightarrow> index_end cm \<le> unat (cow_map w cm b) * COW_BLOCK_SIZE \<and>
        cow_map w cm b < curr_pos cm)"

lemma unat_mult_block:
  assumes "unat (c :: u64) * 4096 < 2 ^ 64"
  shows "unat (c * 4096) = unat c * 4096"
  using assms by (simp add: unat_word_ariths)

lemma curr_size_unat:
  "snap_inv w cm \<Longrightarrow> unat (curr_pos cm * 4096) = unat (curr_pos cm) * 4096"
  by (rule unat_mult_block) (simp add: snap_inv_def)

lemma cow_saved_cong:
  assumes "cow_map w' cm' b = cow_map w cm b"
    and "cow_map w cm b \<noteq> 0 \<Longrightarrow> \<forall>i < 4096. cow_data w' cm' (unat (cow_map w cm b) * 4096 + i) =
           cow_data w cm (unat (cow_map w cm b) * 4096 + i)"
  shows "cow_saved w' cm' b = cow_saved w cm b"
  using assms by (auto simp: cow_saved_def block_of_def fun_eq_iff)

lemma cow_stable_saved:
  assumes "snap_inv w cm" "cow_stable w cm w' cm'"
  shows "cow_saved w' cm' = cow_saved w cm" "snap_inv w' cm'"
proof -
  show "cow_saved w' cm' = cow_saved w cm"
  proof (rule ext, rule cow_saved_cong)
    fix b
    assume "cow_map w cm b \<noteq> 0"
    then have "index_end cm \<le> unat (cow_map w cm b) * 4096" using assms(1) by (simp add: snap_inv_def)
    then show "\<forall>i < 4096. cow_data w' cm' (unat (cow_map w cm b) * 4096 + i) =
        cow_data w cm (unat (cow_map w cm b) * 4096 + i)"
      using assms(2) by (simp add: cow_stable_def)
  qed (use assms(2) in \<open>simp add: cow_stable_def\<close>)
  have f: "cow_fields cm' = cow_fields cm" using assms(2) by (simp add: cow_stable_def)
  show "snap_inv w' cm'"
    using assms fields_simps(4,6,9)[OF f] by (simp add: snap_inv_def cow_stable_def)
qed

lemma cow_write_data_ok:
  assumes K: "kernel_write_ok K" and wf: "cow_wf cm" and ie: "index_end cm \<le> unat (curr_pos cm) * 4096"
    and no: "unat (curr_pos cm) * 4096 < 2 ^ 64"
    and wr: "cow_write_data K b w cm = (ret, w', cm')"
  shows "cow_wf cm'" "cow_fields cm' = cow_fields (if ret = 0 then cm\<lparr>curr_pos := curr_pos cm + 1\<rparr> else cm)"
    "cow_map w' cm' = cow_map w cm"
    "a < unat (curr_pos cm) * 4096 \<or> unat (curr_pos cm) * 4096 + 4096 \<le> a \<Longrightarrow> cow_data w' cm' a = cow_data w cm a"
    "ret = 0 \<Longrightarrow> curr_pos cm * 4096 < file_size cm"
    "ret = 0 \<Longrightarrow> i < 4096 \<Longrightarrow> cow_data w' cm' (unat (curr_pos cm) * 4096 + i) = b i"
    "cow_zero w cm \<Longrightarrow> cow_zero w' cm'"
proof -
  let ?p = "unat (curr_pos cm) * 4096"
  obtain r d w1 where f: "file_write K (dfilp cm) b ?p 4096 w = (r, d, w1)" by (metis prod_cases3)
  have d: "map_option df_inode d = map_option df_inode (dfilp cm)" by (rule file_write_inode[OF f])
  have res: "(ret = - EFBIG \<and> w' = w \<and> cm' = cm \<and> \<not> curr_pos cm * 4096 < file_size cm) \<or>
    (curr_pos cm * 4096 < file_size cm \<and> ret = r \<and> w' = w1 \<and>
      cm' = (if r = 0 then cm\<lparr>dfilp := d, curr_pos := curr_pos cm + 1\<rparr> else cm\<lparr>dfilp := d\<rparr>))"
    using wr f unat_mult_block[OF no] by (auto simp: cow_write_data_def Let_def split: if_splits)
  have at: "sect_at cm' j = sect_at cm j" for j using res by (auto simp: sect_at_def)
  have sz: "sect_size cm' = sect_size cm" using res by auto
  have dd: "map_option df_inode (dfilp cm') = map_option df_inode (dfilp cm)" using res d by auto
  have frame: "cow_data w' cm' a = cow_data w cm a" if "a < ?p \<or> ?p + 4096 \<le> a" for a
    using res dd file_write_frame[OF f K that] by (auto simp: cow_data_def split: option.splits)
  then show "a < ?p \<or> ?p + 4096 \<le> a \<Longrightarrow> cow_data w' cm' a = cow_data w cm a" by blast
  show "cow_wf cm'" using wf res cow_wf_dfilp[OF d wf] by (auto simp: cow_wf_def split: option.splits if_splits)
  show "cow_fields cm' = cow_fields (if ret = 0 then cm\<lparr>curr_pos := curr_pos cm + 1\<rparr> else cm)"
    using res d by (auto simp: cow_fields_def)
  have ent: "index_entry w' cm' pos = index_entry w cm pos" if "sect_at cm (pos div sect_size cm) = Some s" for pos s
  proof (rule index_entry_data, rule frame, rule disjI1)
    fix k :: nat
    assume "k < 8"
    have "pos div sect_size cm < total_sects cm" by (rule sect_at_bound[OF wf that])
    then have "pos < capacity cm" using wf by (simp add: capacity_def cow_wf_def div_less_iff_less_mult)
    then show "4096 + 8 * pos + k < ?p" using ie \<open>k < 8\<close> by (simp add: index_end_def)
  qed
  show "cow_map w' cm' = cow_map w cm"
    by (rule cow_map_eqI) (auto simp: at sz sect_val_def ent split: option.splits)
  show "cow_zero w' cm'" if "cow_zero w cm" using that by (auto simp: cow_zero_def at sz ent)
  show "ret = 0 \<Longrightarrow> curr_pos cm * 4096 < file_size cm" using res by auto
  show "cow_data w' cm' (?p + i) = b i" if "ret = 0" "i < 4096"
    using res that d file_write_bytes[OF f K, of] by (auto simp: cow_data_def split: option.splits)
qed

text \<open>The abstract store: the first copy of a block is kept, later ones are dropped.\<close>

definition store_put :: "(nat \<rightharpoonup> buf) \<Rightarrow> nat \<Rightarrow> buf \<Rightarrow> (nat \<rightharpoonup> buf)" where
  "store_put m b d = (if b \<in> dom m then m else m(b \<mapsto> block_of d))"

lemma cow_wrote_keeps:
  assumes "snap_inv w cm" "cow_wrote b v w cm w1 cm1"
  shows "b' \<noteq> b \<Longrightarrow> cow_saved w1 cm1 b' = cow_saved w cm b'"
    "cow_wf cm1" "index_end cm1 = index_end cm" "curr_pos cm1 = curr_pos cm" "file_size cm1 = file_size cm"
    "capacity cm1 = capacity cm" "cow_map w1 cm1 = (cow_map w cm)(b := v)"
    "index_end cm \<le> a \<Longrightarrow> cow_data w1 cm1 a = cow_data w cm a"
proof -
  have f: "cow_fields cm1 = cow_fields (count_change w cm b)" using assms(2) by (simp add: cow_wrote_def)
  show "index_end cm1 = index_end cm" "curr_pos cm1 = curr_pos cm" "file_size cm1 = file_size cm"
    "capacity cm1 = capacity cm"
    using fields_simps[OF f] by (simp_all add: index_end_def capacity_def)
  show d: "index_end cm \<le> a \<Longrightarrow> cow_data w1 cm1 a = cow_data w cm a" for a
    using assms(2) by (simp add: cow_wrote_def)
  show m: "cow_map w1 cm1 = (cow_map w cm)(b := v)" using assms(2) by (simp add: cow_wrote_def)
  show "cow_wf cm1" using assms(2) by (simp add: cow_wrote_def)
  assume "b' \<noteq> b"
  show "cow_saved w1 cm1 b' = cow_saved w cm b'"
    by (rule cow_saved_cong) (use \<open>b' \<noteq> b\<close> m d assms(1) in \<open>auto simp: snap_inv_def intro!: d trans_le_add1\<close>)
qed

lemma cow_save_new:
  assumes K: "kernel_ok K" and inv: "snap_inv w cm" and new: "cow_map w cm b = 0"
    and wr: "cow_wrote b (curr_pos cm) w cm w1 cm1"
    and dt: "cow_write_data K d w1 cm1 = (ret, w', cm')"
  shows "ret = 0 \<Longrightarrow> snap_inv w' cm' \<and> cow_saved w' cm' = (cow_saved w cm)(b \<mapsto> block_of d)"
    and "b' \<noteq> b \<Longrightarrow> cow_saved w' cm' b' = cow_saved w cm b'" and "capacity cm' = capacity cm"
proof -
  note k = cow_wrote_keeps[OF inv wr]
  let ?p = "unat (curr_pos cm) * 4096"
  have ip: "index_end cm \<le> ?p" "?p < 2 ^ 64" using inv by (simp_all add: snap_inv_def)
  have Kw: "kernel_write_ok K" using K by (simp add: kernel_ok_def)
  note dw = cow_write_data_ok[OF Kw k(2) _ _ dt, unfolded k(3,4,5), OF ip]
  have f: "cow_fields cm' = cow_fields (if ret = 0 then cm1\<lparr>curr_pos := curr_pos cm + 1\<rparr> else cm1)"
    by (rule dw(2))
  show cap: "capacity cm' = capacity cm" using fields_simps(5)[OF f] k(6) by (simp add: capacity_def split: if_splits)
  have old: "cow_saved w' cm' b' = cow_saved w cm b'" if "b' \<noteq> b" for b'
  proof -
    have "cow_saved w' cm' b' = cow_saved w1 cm1 b'"
    proof (rule cow_saved_cong)
      assume nz: "cow_map w1 cm1 b' \<noteq> 0"
      then have "cow_map w cm b' < curr_pos cm" "cow_map w1 cm1 b' = cow_map w cm b'"
        using inv that k(7) by (simp_all add: snap_inv_def)
      then have "unat (cow_map w1 cm1 b') + 1 \<le> unat (curr_pos cm)" by (simp add: word_less_nat_alt)
      then have "unat (cow_map w1 cm1 b') * 4096 + 4096 \<le> ?p" by linarith
      then show "\<forall>i < 4096. cow_data w' cm' (unat (cow_map w1 cm1 b') * 4096 + i) =
          cow_data w1 cm1 (unat (cow_map w1 cm1 b') * 4096 + i)"
        by (intro allI impI dw(4)) linarith
    qed (use dw(3) in simp)
    then show ?thesis using k(1)[OF that] by simp
  qed
  then show "b' \<noteq> b \<Longrightarrow> cow_saved w' cm' b' = cow_saved w cm b'" .
  assume ret: "ret = 0"
  have lt: "?p < unat (file_size cm)"
    using dw(5)[OF ret] unat_mult_block[OF ip(2)] by (simp add: word_less_nat_alt)
  then have b63: "?p < 2 ^ 63" using inv by (simp add: snap_inv_def)
  then have suc: "unat (curr_pos cm + 1) = unat (curr_pos cm) + 1" by (simp add: unat_word_ariths)
  have nz: "curr_pos cm \<noteq> 0" using ip(1) by (auto simp: index_end_def)
  have "cow_saved w' cm' b = Some (block_of d)"
    using dw(3) dw(6)[OF ret] k(7) nz by (auto simp: cow_saved_def block_of_def fun_eq_iff)
  then have "cow_saved w' cm' = (cow_saved w cm)(b \<mapsto> block_of d)" using old by auto
  moreover have ie: "index_end cm' = index_end cm" and "curr_pos cm' = curr_pos cm + 1" "file_size cm' = file_size cm"
    using fields_simps(4,6,9)[OF f] k(3,4,5) ret by (simp_all add: index_end_def capacity_def)
  moreover from this have "snap_inv w' cm'"
    using inv dw(1) suc b63 k(7) dw(3) ip by (auto simp: snap_inv_def word_less_nat_alt less_Suc_eq)
  ultimately show "snap_inv w' cm' \<and> cow_saved w' cm' = (cow_saved w cm)(b \<mapsto> block_of d)" by simp
qed

lemma cow_write_current_ok:
  assumes K: "kernel_ok K" and inv: "snap_inv w cm" and b: "b < capacity cm"
  shows "\<exists>ret w' cm'. cow_write_current K b d w cm = Some (ret, w', cm') \<and> capacity cm' = capacity cm \<and>
    (ret = 0 \<longrightarrow> snap_inv w' cm' \<and> cow_saved w' cm' = store_put (cow_saved w cm) b d) \<and>
    (\<forall>b'. b' \<noteq> b \<or> cow_saved w cm b \<noteq> None \<longrightarrow> cow_saved w' cm' b' = cow_saved w cm b')"
proof -
  have wf: "cow_wf cm" using inv by (simp add: snap_inv_def)
  obtain r1 v w1 cm1 where rd: "cow_read_mapping K b w cm = Some (r1, v, w1, cm1)"
    and st: "cow_stable w cm w1 cm1" and v: "r1 = 0 \<longrightarrow> v = cow_map w cm b"
    using cow_read_mapping_ok[OF K wf b] by blast
  note sv = cow_stable_saved[OF inv st]
  have cap: "capacity cm1 = capacity cm" using st by (intro fields_simps(5)) (simp add: cow_stable_def)
  have m1: "cow_map w1 cm1 = cow_map w cm" using st by (simp add: cow_stable_def)
  have wf1: "cow_wf cm1" using st by (simp add: cow_stable_def)
  consider (fail) "r1 \<noteq> 0" | (present) "r1 = 0" "v \<noteq> 0" | (new) "r1 = 0" "v = 0" by blast
  then show ?thesis
  proof cases
    case fail
    then show ?thesis using rd sv cap by (simp add: cow_write_current_def)
  next
    case present
    then have "b \<in> dom (cow_saved w cm)" using v by (simp add: cow_saved_def dom_def)
    then show ?thesis using rd sv cap present by (simp add: cow_write_current_def store_put_def)
  next
    case new
    then have none: "cow_saved w cm b = None" "cow_map w1 cm1 b = 0" using v m1 by (simp_all add: cow_saved_def)
    obtain r2 w2 cm2 where wm: "cow_write_mapping K b (curr_pos cm1) w1 cm1 = Some (r2, w2, cm2)"
      and o: "cow_wrote b (curr_pos cm1) w1 cm1 w2 cm2 \<or> r2 \<noteq> 0 \<and> cow_stable w1 cm1 w2 cm2"
      using cow_write_mapping_ok[OF K wf1, of b "curr_pos cm1" w1] b cap by auto
    obtain r3 w3 cm3 where dt: "cow_write_data K d w2 cm2 = (r3, w3, cm3)" by (metis prod_cases3)
    show ?thesis
    proof (cases "r2 = 0")
      case True
      with o have "cow_wrote b (curr_pos cm1) w1 cm1 w2 cm2" by simp
      note cs = cow_save_new[OF K sv(2) none(2) this dt]
      show ?thesis using rd new wm True dt cs none cap sv(1)
        by (auto simp: cow_write_current_def cow_write_current_mapping_def store_put_def)
    next
      case False
      have "cow_saved w2 cm2 b' = cow_saved w cm b'" if "b' \<noteq> b" for b'
        using o sv cow_wrote_keeps(1)[OF sv(2)] cow_stable_saved(1)[OF sv(2)] that by metis
      moreover have "capacity cm2 = capacity cm"
        using o cow_wrote_keeps(6)[OF sv(2)] fields_simps(5)[of cm2 cm1] cap by (auto simp: cow_stable_def)
      ultimately show ?thesis using rd new wm False none
        by (auto simp: cow_write_current_def cow_write_current_mapping_def)
    qed
  qed
qed


subsection \<open>The two steps the handlers loop over\<close>

interpretation saving: block_step
  "\<lambda>(w, cm). kernel_ok K \<and> snap_inv w cm" "\<lambda>(w, cm). capacity cm" "\<lambda>(w, cm). cow_saved w cm"
  "\<lambda>b m. store_put m b (d b)" "\<lambda>b (w, cm). cow_write_current K b (d b) w cm" for K d
proof (unfold_locales, clarify)
  fix w cm b
  assume "kernel_ok K" "snap_inv w cm" "b < capacity cm"
  from cow_write_current_ok[OF this, of "d b"]
  show "\<exists>r s'. cow_write_current K b (d b) w cm = Some (r, s') \<and>
    (case s' of (w, cm) \<Rightarrow> capacity cm) = capacity cm \<and>
    (r = 0 \<longrightarrow> (case s' of (w, cm) \<Rightarrow> kernel_ok K \<and> snap_inv w cm) \<and>
      (case s' of (w, cm) \<Rightarrow> cow_saved w cm) = store_put (cow_saved w cm) b (d b))"
    using \<open>kernel_ok K\<close> by auto
qed

lemma cow_stable_capacity: "cow_stable w cm w' cm' \<Longrightarrow> capacity cm' = capacity cm"
  by (rule fields_simps(5)) (simp add: cow_stable_def)

lemma cow_wrote_capacity: "cow_wrote pos val w cm w' cm' \<Longrightarrow> capacity cm' = capacity cm"
  using fields_simps(5)[of cm' "count_change w cm pos"] by (simp add: cow_wrote_def capacity_def)

text \<open>The same file below, with the same identity, and still zero where a section has no data.\<close>

definition same_file :: "world \<Rightarrow> cow_manager \<Rightarrow> world \<Rightarrow> cow_manager \<Rightarrow> bool" where
  "same_file w cm w' cm' \<longleftrightarrow> uuid cm' = uuid cm \<and> map_option df_inode (dfilp cm') = map_option df_inode (dfilp cm) \<and>
     (cow_zero w cm \<longrightarrow> cow_zero w' cm')"

lemma same_file_refl [simp]: "same_file w cm w cm"
  by (simp add: same_file_def)

lemma same_file_trans: "same_file w cm w1 cm1 \<Longrightarrow> same_file w1 cm1 w2 cm2 \<Longrightarrow> same_file w cm w2 cm2"
  by (simp add: same_file_def)

lemma cow_wrote_same_file:
  assumes "cow_wrote pos val w cm w' cm'"
  shows "same_file w cm w' cm'"
proof -
  have f: "cow_fields cm' = cow_fields (count_change w cm pos)" "cow_zero w cm \<longrightarrow> cow_zero w' cm'" using assms by (simp_all add: cow_wrote_def)
  have "uuid (count_change w cm pos) = uuid cm" by (simp add: count_change_def)
  then show ?thesis using fields_simps(1,11)[OF f(1)] f(2) by (simp add: same_file_def)
qed

interpretation marking: block_step
  "\<lambda>(w, cm). kernel_ok K \<and> cow_wf cm \<and> same_file w0 cm0 w cm" "\<lambda>(w, cm). capacity cm" "\<lambda>(w, cm). cow_map w cm"
  "\<lambda>b m. m(b := 1)" "\<lambda>b (w, cm). cow_write_filler_mapping K b w cm" for K w0 cm0
proof (unfold_locales, clarify)
  fix w cm b
  assume K: "kernel_ok K" and wf: "cow_wf cm" and sf: "same_file w0 cm0 w cm" and b: "b < capacity cm"
  obtain ret w' cm' where r: "cow_write_mapping K b 1 w cm = Some (ret, w', cm')"
    "cow_wrote b 1 w cm w' cm' \<or> ret \<noteq> 0 \<and> cow_stable w cm w' cm'"
    using cow_write_mapping_ok[OF K wf b] by blast
  then have "capacity cm' = capacity cm"
    using cow_wrote_capacity cow_stable_capacity by blast
  moreover have "ret = 0 \<longrightarrow> cow_wf cm' \<and> same_file w0 cm0 w' cm' \<and> cow_map w' cm' = (cow_map w cm)(b := 1)"
    using r(2) same_file_trans[OF sf cow_wrote_same_file] by (auto simp: cow_wrote_def)
  ultimately show "\<exists>r s'. cow_write_filler_mapping K b w cm = Some (r, s') \<and>
    (case s' of (w, cm) \<Rightarrow> capacity cm) = capacity cm \<and>
    (r = 0 \<longrightarrow> (case s' of (w, cm) \<Rightarrow> kernel_ok K \<and> cow_wf cm \<and> same_file w0 cm0 w cm) \<and>
      (case s' of (w, cm) \<Rightarrow> cow_map w cm) = (cow_map w cm)(b := 1))"
    using r(1) K by (simp add: cow_write_filler_mapping_def)
qed

subsection \<open>The number of changed blocks\<close>

text \<open>The counter of the header against the number of mapped blocks of the device.\<close>

definition changed_count :: "world \<Rightarrow> cow_manager \<Rightarrow> nat" where
  "changed_count w cm = card {pos. pos < capacity cm \<and> cow_map w cm pos \<noteq> 0}"

definition count_inv :: "world \<Rightarrow> cow_manager \<Rightarrow> bool" where
  "count_inv w cm \<longleftrightarrow> version cm \<ge> COW_VERSION_CHANGED_BLOCKS \<and> nr_changed_blocks cm = of_nat (changed_count w cm)"

lemma count_inv_cong:
  assumes "count_inv w cm" "cow_map w' cm' = cow_map w cm" "capacity cm' = capacity cm"
    "version cm' = version cm" "nr_changed_blocks cm' = nr_changed_blocks cm"
  shows "count_inv w' cm'"
  using assms by (simp add: count_inv_def changed_count_def)

lemma cow_stable_count: "count_inv w cm \<Longrightarrow> cow_stable w cm w' cm' \<Longrightarrow> count_inv w' cm'"
  using fields_simps(5,7,8)[of cm' cm] by (auto simp: cow_stable_def intro: count_inv_cong)

lemma cow_wrote_count:
  assumes c: "count_inv w cm" and w: "cow_wrote pos val w cm w' cm'" and v: "val \<noteq> 0" and p: "pos < capacity cm"
  shows "count_inv w' cm'"
proof -
  let ?A = "{q. q < capacity cm \<and> cow_map w cm q \<noteq> 0}"
  have f: "cow_fields cm' = cow_fields (count_change w cm pos)" and m: "cow_map w' cm' = (cow_map w cm)(pos := val)"
    using w by (simp_all add: cow_wrote_def)
  have "{q. q < capacity cm' \<and> cow_map w' cm' q \<noteq> 0} = insert pos ?A"
    using m v p cow_wrote_capacity[OF w] by auto
  then have "changed_count w' cm' = (if pos \<in> ?A then changed_count w cm else Suc (changed_count w cm))"
    by (simp add: changed_count_def card_insert_if)
  moreover have "nr_changed_blocks cm' = (if pos \<in> ?A then nr_changed_blocks cm else nr_changed_blocks cm + 1)"
    using fields_simps(8)[OF f] p c by (simp add: count_change_def count_inv_def)
  ultimately show ?thesis using c fields_simps(7)[OF f] by (simp add: count_inv_def)
qed

lemma cow_write_mapping_count:
  assumes K: "kernel_ok K" and wf: "cow_wf cm" and p: "pos < capacity cm" and c: "count_inv w cm" and v: "val \<noteq> 0"
    and r: "cow_write_mapping K pos val w cm = Some (ret, w', cm')"
  shows "count_inv w' cm'"
  using cow_write_mapping_ok[OF K wf p, of val w] r cow_wrote_count[OF c _ v p] cow_stable_count[OF c] by auto

lemma cow_write_current_count:
  assumes K: "kernel_ok K" and inv: "snap_inv w cm" and b: "b < capacity cm" and c: "count_inv w cm"
    and r: "cow_write_current K b d w cm = Some (ret, w', cm')"
  shows "count_inv w' cm'"
proof -
  have wf: "cow_wf cm" using inv by (simp add: snap_inv_def)
  obtain r1 v w1 cm1 where rd: "cow_read_mapping K b w cm = Some (r1, v, w1, cm1)" and st: "cow_stable w cm w1 cm1"
    using cow_read_mapping_ok[OF K wf b] by blast
  have inv1: "snap_inv w1 cm1" by (rule cow_stable_saved(2)[OF inv st])
  have c1: "count_inv w1 cm1" and b1: "b < capacity cm1" and wf1: "cow_wf cm1"
    using cow_stable_count[OF c st] cow_stable_capacity[OF st] b st by (simp_all add: cow_stable_def)
  have nz: "curr_pos cm1 \<noteq> 0" using inv1 by (auto simp: snap_inv_def index_end_def)
  obtain r2 w2 cm2 where wm: "cow_write_mapping K b (curr_pos cm1) w1 cm1 = Some (r2, w2, cm2)"
    and o: "cow_wrote b (curr_pos cm1) w1 cm1 w2 cm2 \<or> r2 \<noteq> 0 \<and> cow_stable w1 cm1 w2 cm2"
    using cow_write_mapping_ok[OF K wf1 b1, of "curr_pos cm1" w1] by blast
  have c2: "count_inv w2 cm2" by (rule cow_write_mapping_count[OF K wf1 b1 c1 nz wm])
  obtain r3 w3 cm3 where dt: "cow_write_data K d w2 cm2 = (r3, w3, cm3)" by (metis prod_cases3)
  have c3: "count_inv w3 cm3" if "r2 = 0"
  proof -
    have wr: "cow_wrote b (curr_pos cm1) w1 cm1 w2 cm2" using o that by simp
    note k = cow_wrote_keeps[OF inv1 wr]
    have Kw: "kernel_write_ok K" using K by (simp add: kernel_ok_def)
    have ip: "index_end cm2 \<le> unat (curr_pos cm2) * 4096" "unat (curr_pos cm2) * 4096 < 2 ^ 64"
      using inv1 k(3,4) by (simp_all add: snap_inv_def)
    note dw = cow_write_data_ok(2,3)[OF Kw k(2) ip dt]
    show ?thesis using fields_simps(5,7,8)[OF dw(1)]
      by (intro count_inv_cong[OF c2 dw(2)]) (simp_all add: capacity_def split: if_splits)
  qed
  show ?thesis using r rd wm dt c1 c2 c3
    by (auto simp: cow_write_current_def cow_write_current_mapping_def split: if_splits)
qed

subsection \<open>A manager to run the theorems on\<close>

text \<open>The manager of a device of one index section, as initialisation leaves it.\<close>

definition sample_cow :: cow_manager where
  "sample_cow =
     \<lparr>dfilp = Some \<lparr>df_inode = 0, df_mnt = 0, writers = 0\<rparr>, flags = 0, curr_pos = 9, data_offset = 36864,
      file_size = 1048576, seqid = 1, version = 1, nr_changed_blocks = 0, uuid = replicate COW_UUID_SIZE 0,
      log_sect_pages = 3, sect_size = 4096, allocated_sects = 0, total_sects = 1, allowed_sects = 2,
      sects = Some [\<lparr>has_data = False, usage = 0, mappings = None\<rparr>], cm_dev = Some 0\<rparr>"

lemma sample_cow_map: "cow_map w sample_cow b = 0"
  by (simp add: cow_map_def sect_at_def sample_cow_def sect_val_def)

lemma sample_cow_saved: "cow_saved w sample_cow = Map.empty"
  by (simp add: cow_saved_def sample_cow_map fun_eq_iff)

lemma sample_cow_inv: "cow_wf sample_cow" "snap_inv w sample_cow" "capacity sample_cow = 4096"
proof -
  show "cow_wf sample_cow" by (simp add: cow_wf_def sample_cow_def cached_def)
  then show "snap_inv w sample_cow" unfolding snap_inv_def sample_cow_map
    by (simp add: index_end_def capacity_def sample_cow_def)
qed (simp add: capacity_def sample_cow_def)

subsection \<open>Properties\<close>

text \<open>
  C1: saving a block keeps its first copy. From any state of the manager that satisfies the
  invariant, and for every block of the device, \<^verbatim>\<open>cow_write_current\<close> returns; when it returns zero the
  invariant holds again and the saved copies are those from before with the given 4096 bytes added
  if the block had none; whatever it returns, no copy that existed is lost or changed.
\<close>

theorem cow_write_current_refines:
  assumes "kernel_ok K" "snap_inv w cm" "b < capacity cm"
  shows "\<exists>ret w' cm'. cow_write_current K b d w cm = Some (ret, w', cm') \<and> capacity cm' = capacity cm \<and>
    (ret = 0 \<longrightarrow> snap_inv w' cm' \<and> cow_saved w' cm' = store_put (cow_saved w cm) b d) \<and>
    (\<forall>b' \<in> dom (cow_saved w cm). cow_saved w' cm' b' = cow_saved w cm b')"
proof -
  obtain ret w' cm' where r: "cow_write_current K b d w cm = Some (ret, w', cm')" "capacity cm' = capacity cm"
    "ret = 0 \<longrightarrow> snap_inv w' cm' \<and> cow_saved w' cm' = store_put (cow_saved w cm) b d"
    "\<forall>b'. b' \<noteq> b \<or> cow_saved w cm b \<noteq> None \<longrightarrow> cow_saved w' cm' b' = cow_saved w cm b'"
    using cow_write_current_ok[OF assms] by blast
  have "cow_saved w' cm' b' = cow_saved w cm b'" if "b' \<in> dom (cow_saved w cm)" for b'
    using r(4) that by (cases "b' = b") auto
  with r(1-3) show ?thesis by blast
qed

theorem cow_write_current_refines_witness:
  "\<exists>ret w' cm'. cow_write_current ram_kernel 7 (\<lambda>i. 42) ram_world sample_cow = Some (ret, w', cm') \<and>
    capacity cm' = 4096 \<and>
    (ret = 0 \<longrightarrow> cow_saved w' cm' = store_put (cow_saved ram_world sample_cow) 7 (\<lambda>i. 42))"
  using cow_write_current_refines[OF ram_kernel_ok sample_cow_inv(2), where b = 7 and d = "\<lambda>i. 42" and w = ram_world]
  by (auto simp: sample_cow_inv(3))

text \<open>
  C2: the index is an array, whatever the cache does. Writing a mapping returns; after a write that
  succeeded, reading any block returns either an error or the value written there last, in every
  state of the section cache, including reads and writes that evict sections to the file.
\<close>

theorem cow_mapping_read_after_write:
  assumes "kernel_ok K" "cow_wf cm" "p < capacity cm" "q < capacity cm"
  shows "\<exists>r w1 cm1. cow_write_mapping K p v w cm = Some (r, w1, cm1) \<and> (r = 0 \<longrightarrow>
    (\<exists>r' v' w2 cm2. cow_read_mapping K q w1 cm1 = Some (r', v', w2, cm2) \<and>
       cow_map w2 cm2 = (cow_map w cm)(p := v) \<and> (r' = 0 \<longrightarrow> v' = (if q = p then v else cow_map w cm q))))"
  using cow_array.read_after_write[of K "(w, cm)" p q v] assms by auto

theorem cow_mapping_read_after_write_witness:
  "\<exists>r w1 cm1. cow_write_mapping ram_kernel 7 9 ram_world sample_cow = Some (r, w1, cm1) \<and> (r = 0 \<longrightarrow>
    (\<exists>r' v' w2 cm2. cow_read_mapping ram_kernel 7 w1 cm1 = Some (r', v', w2, cm2) \<and> (r' = 0 \<longrightarrow> v' = 9)))"
  using cow_mapping_read_after_write[OF ram_kernel_ok sample_cow_inv(1), of 7 7 9 ram_world]
  by (auto simp: sample_cow_inv(3))



end
