(* ===== verification/Cow_Life.thy ===== *)
theory Cow_Life
  imports Cow_Store
begin

text \<open>
  The life cycle of the COW file: the header and the index as they lie in the file, creation
  (\<^verbatim>\<open>cow_init\<close>), truncation to the index when a snapshot becomes an incremental, closing with a clean
  header, and reading the file back (\<^verbatim>\<open>cow_reload\<close>, \<^verbatim>\<open>cow_reopen\<close>). The round trip is stated on the
  bytes of the file, so that it covers a restart of the machine.
\<close>

subsection \<open>The header in the file\<close>

lemma buf_header_header_buf:
  assumes "length (h_uuid h) = COW_UUID_SIZE"
  shows "buf_header (header_buf h) = h"
proof -
  have "le_word32 (header_buf h) = h_magic h"
    by (rule trans[OF le_word32_cong le_word32_le_byte]) (simp add: header_buf_def)
  moreover have "le_word32 (\<lambda>k. header_buf h (4 + k)) = h_flags h"
    by (rule trans[OF le_word32_cong le_word32_le_byte]) (simp add: header_buf_def)
  moreover have "le_word64 (\<lambda>k. header_buf h (8 + k)) = h_fpos h"
    by (rule trans[OF le_word64_cong le_word64_le_byte]) (simp add: header_buf_def)
  moreover have "le_word64 (\<lambda>k. header_buf h (16 + k)) = h_fsize h"
    by (rule trans[OF le_word64_cong le_word64_le_byte]) (simp add: header_buf_def)
  moreover have "le_word64 (\<lambda>k. header_buf h (24 + k)) = h_seqid h"
    by (rule trans[OF le_word64_cong le_word64_le_byte]) (simp add: header_buf_def)
  moreover have "map (\<lambda>k. header_buf h (32 + k)) [0..<16] = h_uuid h"
    using assms by (intro nth_equalityI) (simp_all add: header_buf_def)
  moreover have "le_word64 (\<lambda>k. header_buf h (48 + k)) = h_version h"
    by (rule trans[OF le_word64_cong le_word64_le_byte]) (simp add: header_buf_def)
  moreover have "le_word64 (\<lambda>k. header_buf h (56 + k)) = h_nr_changed_blocks h"
    by (rule trans[OF le_word64_cong le_word64_le_byte]) (simp add: header_buf_def)
  ultimately show ?thesis unfolding buf_header_def by simp
qed

lemma buf_header_cong:
  assumes "\<And>k. k < SIZEOF_COW_HEADER \<Longrightarrow> f k = g k"
  shows "buf_header f = buf_header g"
proof -
  have "le_word32 (\<lambda>k. f (c + k)) = le_word32 (\<lambda>k. g (c + k))" if "c + 4 \<le> 64" for c
    by (rule le_word32_cong, rule assms) (use that in simp)
  moreover have "le_word64 (\<lambda>k. f (c + k)) = le_word64 (\<lambda>k. g (c + k))" if "c + 8 \<le> 64" for c
    by (rule le_word64_cong, rule assms) (use that in simp)
  moreover have "map (\<lambda>k. f (32 + k)) [0..<16] = map (\<lambda>k. g (32 + k)) [0..<16]"
    by (rule map_cong) (simp_all add: assms)
  ultimately show ?thesis using le_word32_cong[of f g] assms
    unfolding buf_header_def by simp
qed

definition header_of :: "cow_manager \<Rightarrow> cow_header" where
  "header_of cm = \<lparr>h_magic = COW_MAGIC, h_flags = flags cm, h_fpos = curr_pos cm, h_fsize = file_size cm,
     h_seqid = seqid cm, h_uuid = uuid cm, h_version = version cm, h_nr_changed_blocks = nr_changed_blocks cm\<rparr>"

definition clean_flag :: "bool \<Rightarrow> u32 \<Rightarrow> u32" where
  "clean_flag c x = (if c then x OR push_bit COW_CLEAN 1 else x AND NOT (push_bit COW_CLEAN 1))"

lemma clean_flag_bit [simp]:
  "bit (clean_flag c x) n = (if n = COW_CLEAN then c else bit x n)"
  by (auto simp: clean_flag_def bit_simps exp_eq_zero_iff dest: bit_imp_le_length)

lemma cow_write_header_ok:
  assumes K: "kernel_write_ok K" and r: "cow_write_header K c w cm = (ret, w', cm')"
  obtains d where "cm' = cm\<lparr>flags := clean_flag c (flags cm), dfilp := d\<rparr>"
    "map_option df_inode d = map_option df_inode (dfilp cm)"
    "\<And>a j. SIZEOF_COW_HEADER \<le> a \<Longrightarrow> data_of w' j a = data_of w j a"
    "ret = 0 \<Longrightarrow> length (uuid cm) = COW_UUID_SIZE \<Longrightarrow>
      \<exists>e. dfilp cm = Some e \<and> buf_header (data_of w' (df_inode e)) = header_of cm'"
proof -
  let ?cm = "cm\<lparr>flags := clean_flag c (flags cm)\<rparr>"
  have "cow_write_header K c w cm =
      (let (ret, d, w) = file_write K (dfilp cm) (header_buf (header_of ?cm)) 0 64 w
       in (ret, w, ?cm\<lparr>dfilp := d\<rparr>))"
    by (simp add: cow_write_header_def clean_flag_def header_of_def Let_def)
  then obtain d where f: "file_write K (dfilp cm) (header_buf (header_of ?cm)) 0 64 w = (ret, d, w')"
    and cm': "cm' = ?cm\<lparr>dfilp := d\<rparr>"
    using r by (auto split: prod.splits)
  have h: "\<exists>e. dfilp cm = Some e \<and> buf_header (data_of w' (df_inode e)) = header_of cm'"
    if "ret = 0" and u: "length (uuid cm) = COW_UUID_SIZE"
  proof -
    obtain e where e: "dfilp cm = Some e" "\<forall>i < 64. data_of w' (df_inode e) i = header_buf (header_of ?cm) i"
      using file_write_bytes[OF f K \<open>ret = 0\<close>] by auto
    then have "buf_header (data_of w' (df_inode e)) = buf_header (header_buf (header_of ?cm))"
      by (intro buf_header_cong) simp
    also have "\<dots> = header_of ?cm" using u by (intro buf_header_header_buf) (simp add: header_of_def)
    finally show ?thesis using e(1) cm' by (simp add: header_of_def)
  qed
  show thesis
    using cm' by (intro that[OF _ file_write_inode[OF f] _ h]) (auto intro: file_write_frame[OF f K])
qed

subsection \<open>Closing\<close>

text \<open>
  A file that holds a manager: its header, and in its index the given mappings. \<open>n\<close> is the
  number of blocks.
\<close>

definition disk_index :: "buf \<Rightarrow> nat \<Rightarrow> u64" where
  "disk_index f pos = buf_mappings (\<lambda>a. f (COW_HEADER_SIZE + a)) pos"

definition holds_cow :: "buf \<Rightarrow> cow_header \<Rightarrow> nat \<Rightarrow> (nat \<Rightarrow> u64) \<Rightarrow> bool" where
  "holds_cow f h n m \<longleftrightarrow> buf_header f = h \<and> (\<forall>pos < n. disk_index f pos = m pos)"

lemma disk_index_cong:
  "(\<And>k. k < 8 \<Longrightarrow> f (COW_HEADER_SIZE + 8 * pos + k) = g (COW_HEADER_SIZE + 8 * pos + k)) \<Longrightarrow>
   disk_index f pos = disk_index g pos"
  unfolding disk_index_def buf_mappings_def by (rule le_word64_cong) (simp add: add.assoc)

lemma index_entry_disk: "dfilp cm = Some d \<Longrightarrow> index_entry w cm pos = disk_index (data_of w (df_inode d)) pos"
  by (simp add: index_entry_def disk_index_def cow_data_def)

lemma uncached_on_disk:
  assumes wf: "cow_wf cm" and z: "cow_zero w cm" and u: "uncached_from cm 0 (total_sects cm)"
    and pos: "pos < capacity cm"
  shows "index_entry w cm pos = cow_map w cm pos"
proof -
  obtain s where s: "sect_at cm (pos div sect_size cm) = Some s" using pos_section[OF wf pos] by blast
  have "mappings s = None" using u s sect_at_bound[OF wf s] by (auto simp: uncached_from_def)
  then show ?thesis using s z by (auto simp: cow_map_def sect_val_def cow_zero_def)
qed

lemma close_data [simp]: "data_of (close_and_destroy_moocbt_cow_file d w) j = data_of w j"
  by (auto simp: close_and_destroy_moocbt_cow_file_def file_close_def file_lock_defs split: option.splits)

lemma cow_same_index:
  assumes "\<And>j. sect_at cm' j = sect_at cm j" "sect_size cm' = sect_size cm"
    "\<And>pos. index_entry w' cm' pos = index_entry w cm pos"
  shows "cow_map w' cm' = cow_map w cm" "cow_zero w' cm' = cow_zero w cm"
  using assms by (auto simp: cow_map_def sect_val_def cow_zero_def fun_eq_iff split: option.splits)

text \<open>What both ways of closing do to the file: flush the cache, then write the clean header.\<close>

lemma cow_flush_ok:
  assumes K: "kernel_ok K" and wf: "cow_wf cm" and z: "cow_zero w cm" and u: "length (uuid cm) = COW_UUID_SIZE"
    and d: "dfilp cm = Some d"
    and sy: "cow_sync_and_free_sections K 0 w cm = Some (0, w1, cm1)"
    and hd: "cow_write_header K True w1 cm1 = (0, w2, cm2)"
  shows "holds_cow (data_of w2 (df_inode d)) (header_of (cm\<lparr>flags := clean_flag True (flags cm)\<rparr>))
      (capacity cm) (cow_map w cm)"
    "index_end cm \<le> a \<Longrightarrow> data_of w2 (df_inode d) a = data_of w (df_inode d) a"
    "uncached_from cm2 0 (total_sects cm)" "cow_wf cm2"
    "cow_fields cm2 = cow_fields (cm\<lparr>flags := clean_flag True (flags cm)\<rparr>)"
    "cow_map w2 cm2 = cow_map w cm" "cow_zero w2 cm2"
proof -
  have Kw: "kernel_write_ok K" using K by (simp add: kernel_ok_def)
  have st: "cow_stable w cm w1 cm1" and un: "uncached_from cm1 0 (total_sects cm)"
    using cow_sync_stable[OF Kw wf, of 0 w] sy by auto
  have f: "cow_fields cm1 = cow_fields cm" and wf1: "cow_wf cm1" using st by (simp_all add: cow_stable_def)
  obtain d1 where d1: "dfilp cm1 = Some d1" "df_inode d1 = df_inode d"
    using fields_simps(1)[OF f] d by auto
  obtain d2 where cm2: "cm2 = cm1\<lparr>flags := clean_flag True (flags cm1), dfilp := d2\<rparr>"
    and d2: "map_option df_inode d2 = map_option df_inode (dfilp cm1)"
    and fr: "\<And>a j. 64 \<le> a \<Longrightarrow> data_of w2 j a = data_of w1 j a"
    and hh: "length (uuid cm1) = 16 \<Longrightarrow> \<exists>e. dfilp cm1 = Some e \<and> buf_header (data_of w2 (df_inode e)) = header_of cm2"
    using cow_write_header_ok[OF Kw hd] by metis
  have "buf_header (data_of w2 (df_inode d)) = header_of cm2" using hh d1 f u by (auto simp: cow_fields_def)
  moreover have "header_of cm2 = header_of (cm\<lparr>flags := clean_flag True (flags cm)\<rparr>)"
    using f cm2 by (simp add: header_of_def cow_fields_def)
  moreover have "disk_index (data_of w2 (df_inode d)) pos = cow_map w cm pos" if pos: "pos < capacity cm" for pos
  proof -
    have "disk_index (data_of w2 (df_inode d)) pos = disk_index (data_of w1 (df_inode d)) pos"
      by (rule disk_index_cong) (simp add: fr)
    also have "\<dots> = index_entry w1 cm1 pos" using index_entry_disk[OF d1(1)] d1(2) by simp
    also have "\<dots> = cow_map w1 cm1 pos"
      using uncached_on_disk[OF wf1 _ _, of w1 pos] st z un pos fields_simps(3,5)[OF f]
      by (simp add: cow_stable_def)
    finally show ?thesis using st by (simp add: cow_stable_def)
  qed
  ultimately show "holds_cow (data_of w2 (df_inode d)) (header_of (cm\<lparr>flags := clean_flag True (flags cm)\<rparr>))
      (capacity cm) (cow_map w cm)" by (simp add: holds_cow_def)
  show "data_of w2 (df_inode d) a = data_of w (df_inode d) a" if "index_end cm \<le> a" for a
    using that st d d1 fr[of a "df_inode d"] by (simp add: cow_stable_def cow_data_def index_end_def)
  have at: "sect_at cm2 j = sect_at cm1 j" "sect_size cm2 = sect_size cm1" for j using cm2 by (simp_all add: sect_at_def)
  have ent: "index_entry w2 cm2 pos = index_entry w1 cm1 pos" for pos
    using d2 d1(1) fr cm2 by (intro index_entry_data) (auto simp: cow_data_def)
  show "cow_map w2 cm2 = cow_map w cm" "cow_zero w2 cm2"
    using st z cow_same_index[OF at ent] by (simp_all add: cow_stable_def)
  show "uncached_from cm2 0 (total_sects cm)" using un at by (simp add: uncached_from_def)
  show "cow_wf cm2" using wf1 cm2 d2 by (auto simp: cow_wf_def split: option.splits)
  show "cow_fields cm2 = cow_fields (cm\<lparr>flags := clean_flag True (flags cm)\<rparr>)"
    using f cm2 d2 by (simp add: cow_fields_def)
qed

lemma cow_sync_and_close_ok:
  assumes K: "kernel_ok K" and wf: "cow_wf cm" and z: "cow_zero w cm" and u: "length (uuid cm) = COW_UUID_SIZE"
    and d: "dfilp cm = Some d" and r: "cow_sync_and_close K w cm = Some (0, w', cm')"
  shows "holds_cow (data_of w' (df_inode d)) (header_of (cm\<lparr>flags := clean_flag True (flags cm)\<rparr>))
      (capacity cm) (cow_map w cm)"
    "index_end cm \<le> a \<Longrightarrow> data_of w' (df_inode d) a = data_of w (df_inode d) a"
    "dfilp cm' = None" "uncached_from cm' 0 (total_sects cm)" "cow_wf (cm'\<lparr>dfilp := Some d\<rparr>)"
    "cow_fields (cm'\<lparr>dfilp := Some d\<rparr>) = cow_fields (cm\<lparr>flags := clean_flag True (flags cm)\<rparr>)"
    "cow_map w' (cm'\<lparr>dfilp := Some d\<rparr>) = cow_map w cm" "cow_zero w' (cm'\<lparr>dfilp := Some d\<rparr>)"
proof -
  obtain w1 cm1 w2 cm2 where sy: "cow_sync_and_free_sections K 0 w cm = Some (0, w1, cm1)"
    and hd: "cow_write_header K True w1 cm1 = (0, w2, cm2)"
    and e: "w' = close_and_destroy_moocbt_cow_file (dfilp cm2) w2" "cm' = cm2\<lparr>dfilp := None\<rparr>"
    using r by (auto simp: cow_sync_and_close_def Let_def split: bind_splits prod.splits if_splits)
  note fl = cow_flush_ok[OF K wf z u d sy hd]
  show "holds_cow (data_of w' (df_inode d)) (header_of (cm\<lparr>flags := clean_flag True (flags cm)\<rparr>))
      (capacity cm) (cow_map w cm)"
    "index_end cm \<le> a \<Longrightarrow> data_of w' (df_inode d) a = data_of w (df_inode d) a"
    "dfilp cm' = None" "uncached_from cm' 0 (total_sects cm)" "cow_wf (cm'\<lparr>dfilp := Some d\<rparr>)"
    "cow_fields (cm'\<lparr>dfilp := Some d\<rparr>) = cow_fields (cm\<lparr>flags := clean_flag True (flags cm)\<rparr>)"
    using fl d e by (auto simp: uncached_from_def sect_at_def cow_wf_def cow_fields_def split: option.splits)
  have "map_option df_inode (dfilp cm2) = Some (df_inode d)" using fields_simps(1)[OF fl(5)] d by simp
  then have "index_entry w' (cm'\<lparr>dfilp := Some d\<rparr>) pos = index_entry w2 cm2 pos" for pos
    using e by (intro index_entry_data) (auto simp: cow_data_def)
  then show "cow_map w' (cm'\<lparr>dfilp := Some d\<rparr>) = cow_map w cm" "cow_zero w' (cm'\<lparr>dfilp := Some d\<rparr>)"
    using cow_same_index[of "cm'\<lparr>dfilp := Some d\<rparr>" cm2 w' w2] e fl(6,7) by (simp_all add: sect_at_def)
qed

lemma cow_sync_and_free_ok:
  assumes K: "kernel_ok K" and wf: "cow_wf cm" and z: "cow_zero w cm" and u: "length (uuid cm) = COW_UUID_SIZE"
    and d: "dfilp cm = Some d" and r: "cow_sync_and_free K w cm = Some (0, w')"
  shows "holds_cow (data_of w' (df_inode d)) (header_of (cm\<lparr>flags := clean_flag True (flags cm)\<rparr>))
      (capacity cm) (cow_map w cm)"
    "index_end cm \<le> a \<Longrightarrow> data_of w' (df_inode d) a = data_of w (df_inode d) a"
proof -
  obtain w1 cm1 w2 cm2 where sy: "cow_sync_and_free_sections K 0 w cm = Some (0, w1, cm1)"
    and hd: "cow_write_header K True w1 cm1 = (0, w2, cm2)"
    and e: "w' = close_and_destroy_moocbt_cow_file (dfilp cm2) w2"
    using r by (auto simp: cow_sync_and_free_def Let_def split: bind_splits prod.splits if_splits)
  note fl = cow_flush_ok[OF K wf z u d sy hd]
  show "holds_cow (data_of w' (df_inode d)) (header_of (cm\<lparr>flags := clean_flag True (flags cm)\<rparr>))
      (capacity cm) (cow_map w cm)"
    "index_end cm \<le> a \<Longrightarrow> data_of w' (df_inode d) a = data_of w (df_inode d) a"
    using fl e by simp_all
qed

subsection \<open>Reading the file back\<close>

text \<open>The manager that takes over the fields of a header it accepted.\<close>

definition with_header :: "cow_header \<Rightarrow> u32 \<Rightarrow> cow_manager \<Rightarrow> cow_manager" where
  "with_header h fl cm = cm\<lparr>flags := fl, curr_pos := h_fpos h, file_size := h_fsize h, seqid := h_seqid h,
     uuid := h_uuid h, version := h_version h, nr_changed_blocks := h_nr_changed_blocks h\<rparr>"

definition loaded_flags :: "bool \<Rightarrow> cow_header \<Rightarrow> u32" where
  "loaded_flags reset_vmalloc h =
     (if reset_vmalloc then h_flags h AND NOT (push_bit COW_VMALLOC_UPPER 1) else h_flags h)"

lemma uuid_buf_header [simp]: "length (h_uuid (buf_header f)) = COW_UUID_SIZE"
  by (simp add: buf_header_def)

lemma cow_open_header_ok:
  assumes K: "kernel_ok K" and d: "dfilp cm = Some d" and r: "cow_open_header K io rv w cm = (0, w', cm')"
  obtains d' h where "h = buf_header (data_of w (df_inode d))" "h_magic h = COW_MAGIC"
    "bit (h_flags h) COW_CLEAN" "bit (h_flags h) COW_INDEX_ONLY = io"
    "cm' = (with_header h (clean_flag False (loaded_flags rv h)) cm)\<lparr>dfilp := Some d'\<rparr>"
    "df_inode d' = df_inode d" "\<And>a. SIZEOF_COW_HEADER \<le> a \<Longrightarrow> data_of w' (df_inode d) a = data_of w (df_inode d) a"
    "\<not> bit (h_flags (buf_header (data_of w' (df_inode d)))) COW_CLEAN"
proof -
  have Kr: "kernel_read_ok K" and Kw: "kernel_write_ok K" using K by (simp_all add: kernel_ok_def)
  obtain ret b d1 w1 where rd: "file_read K (dfilp cm) 0 64 w = (ret, b, d1, w1)" by (metis prod_cases4)
  let ?h = "buf_header b"
  let ?cm = "with_header ?h (loaded_flags rv ?h) (cm\<lparr>dfilp := d1\<rparr>)"
  have c: "ret = 0" "h_magic ?h = COW_MAGIC" "bit (h_flags ?h) 0" "bit (h_flags ?h) 1 = io"
    and wr: "cow_write_header K False w1 ?cm = (0, w', cm')"
    using r rd by (auto simp: cow_open_header_def with_header_def loaded_flags_def Let_def split: if_splits)
  obtain d1' where d1: "d1 = Some d1'" "df_inode d1' = df_inode d" using file_read_inode[OF rd] d by auto
  have hb: "?h = buf_header (data_of w (df_inode d))"
    using file_read_bytes[OF rd Kr c(1)] d by (intro buf_header_cong) auto
  obtain d2 where cm': "cm' = ?cm\<lparr>flags := clean_flag False (flags ?cm), dfilp := d2\<rparr>"
    and d2: "map_option df_inode d2 = map_option df_inode (dfilp ?cm)"
    and fr: "\<And>a j. 64 \<le> a \<Longrightarrow> data_of w' j a = data_of w1 j a"
    and hd: "length (uuid ?cm) = 16 \<Longrightarrow>
       \<exists>e. dfilp ?cm = Some e \<and> buf_header (data_of w' (df_inode e)) = header_of cm'"
    using cow_write_header_ok[OF Kw wr] by metis
  obtain d2' where d2': "d2 = Some d2'" "df_inode d2' = df_inode d" using d2 d1 by (auto simp: with_header_def)
  show thesis
  proof (rule that[OF hb c(2-4), of d2'])
    show "cm' = (with_header ?h (clean_flag False (loaded_flags rv ?h)) cm)\<lparr>dfilp := Some d2'\<rparr>"
      using cm' d2' by (simp add: with_header_def)
    show "df_inode d2' = df_inode d" by (rule d2'(2))
    show "data_of w' (df_inode d) a = data_of w (df_inode d) a" if "64 \<le> a" for a
      using fr[OF that] file_read_data[OF rd] by simp
    have "length (uuid ?cm) = 16" by (simp add: with_header_def)
    from hd[OF this] have "buf_header (data_of w' (df_inode d)) = header_of cm'"
      using d1 by (auto simp: with_header_def)
    then show "\<not> bit (h_flags (buf_header (data_of w' (df_inode d)))) 0" using cm' by (simp add: header_of_def)
  qed
qed

text \<open>A path that always resolves to the same inode.\<close>

definition resolves :: "kernel \<Rightarrow> string \<Rightarrow> nat \<Rightarrow> bool" where
  "resolves K path ino \<longleftrightarrow> (\<forall>t trunc ins j ins'. k_open K t path trunc ins = Inr (j, ins') \<longrightarrow> j = ino)"

lemma open_cow_file_ok:
  assumes "kernel_ok K" "resolves K path ino" "open_moocbt_cow_file K path trunc w = (Opened d, w')"
  shows "df_inode d = ino" "data_of w' ino = (if trunc then \<lambda>_. 0 else data_of w ino)"
proof -
  obtain j ins where o: "k_open K (clock w) path trunc (inodes w) = Inr (j, ins)"
    and d: "df_inode d = j" "data_of w' = (\<lambda>k. i_data (ins k))"
    using assms(3) by (auto simp: open_moocbt_cow_file_def file_open_def moocbt_cow_file_wrap_def Let_def
        split: sum.splits prod.splits if_splits)
  have "j = ino" using assms(2) o unfolding resolves_def by blast
  moreover have "i_data (ins j) = (if trunc then (\<lambda>_. 0) else data_of w j)"
    using assms(1) o unfolding kernel_ok_def kernel_open_ok_def by blast
  ultimately show "df_inode d = ino" "data_of w' ino = (if trunc then \<lambda>_. 0 else data_of w ino)"
    using d by (simp_all add: fun_eq_iff)
qed

lemma open_cow_file_err:
  assumes "kernel_ok K" "open_moocbt_cow_file K path trunc w = (OpenErr e, w')"
  shows "e < 0"
  using assms
  by (auto simp: open_moocbt_cow_file_def file_open_def kernel_ok_def kernel_open_ok_def Let_def
      split: sum.splits prod.splits if_splits)

lemma cow_map_beyond:
  assumes "cow_wf cm" "capacity cm \<le> pos"
  shows "cow_map w cm pos = 0"
proof -
  have "\<not> pos div sect_size cm < total_sects cm"
    using assms by (simp add: capacity_def cow_wf_def div_less_iff_less_mult)
  then have "sect_at cm (pos div sect_size cm) = None" using sect_at_bound[OF assms(1)] by force
  then show ?thesis by (simp add: cow_map_def)
qed

lemma alloc_sects_ok:
  assumes "alloc_sects K filled w cm = (True, w', cm')"
  obtains fl where "inodes w' = inodes w"
    "cm' = cm\<lparr>flags := fl, sects := Some (replicate (total_sects cm) \<lparr>has_data = filled, usage = 0, mappings = None\<rparr>)\<rparr>"
    "bit fl COW_CLEAN = bit (flags cm) COW_CLEAN" "bit fl COW_INDEX_ONLY = bit (flags cm) COW_INDEX_ONLY"
proof (cases "k_alloc K (clock w)")
  case True
  with assms show thesis by (intro that[of "flags cm"]) (auto simp: alloc_sects_def Let_def)
next
  case False
  with assms show thesis
    by (intro that[of "flags cm OR push_bit COW_VMALLOC_UPPER 1"])
      (auto simp: alloc_sects_def Let_def bit_simps split: if_splits)
qed

lemma fresh_sects_wf:
  assumes "dfilp cm \<noteq> None" "0 < sect_size cm" "allocated_sects cm = 0"
    "sects cm = Some (replicate (total_sects cm) \<lparr>has_data = b, usage = 0, mappings = None\<rparr>)"
  shows "cow_wf cm" "pos < capacity cm \<Longrightarrow> cow_map w cm pos = (if b then index_entry w cm pos else 0)"
proof -
  show "cow_wf cm" using assms by (auto simp: cow_wf_def cached_def)
  have "pos div sect_size cm < total_sects cm" if "pos < capacity cm"
    using that assms(2) by (simp add: capacity_def div_less_iff_less_mult)
  then show "pos < capacity cm \<Longrightarrow> cow_map w cm pos = (if b then index_entry w cm pos else 0)"
    using assms(4) by (simp add: cow_map_def sect_at_def sect_val_def)
qed

lemma geometry_simps [simp]:
  "dfilp (cow_geometry n sz cs d) = Some d" "sect_size (cow_geometry n sz cs d) = sz"
  "total_sects (cow_geometry n sz cs d) = NUM_SEGMENTS n (get_order (sz * 8) + 9)"
  "allocated_sects (cow_geometry n sz cs d) = 0" "cm_dev (cow_geometry n sz cs d) = None"
  "data_offset (cow_geometry n sz cs d) = of_nat (index_end (cow_geometry n sz cs d))"
  "allowed_sects (cow_geometry n sz cs d) =
     of_nat (cow_calculate_allowed_sects cs (total_sects (cow_geometry n sz cs d)))"
  by (simp_all add: cow_geometry_def Let_def index_end_def capacity_def add.commute)

lemma cow_reload_ok:
  assumes K: "kernel_ok K" and p: "resolves K path ino" and sz: "0 < sz"
    and hc: "holds_cow (data_of w ino) h (NUM_SEGMENTS n (get_order (sz * 8) + 9) * sz) m"
    and r: "cow_reload K path n sz cs io w = Some (0, w', Some cm)"
  shows "cow_wf cm" "cow_zero w' cm" "capacity cm = NUM_SEGMENTS n (get_order (sz * 8) + 9) * sz"
    "sect_size cm = sz" "pos < capacity cm \<Longrightarrow> cow_map w' cm pos = m pos"
    "map_option df_inode (dfilp cm) = Some ino" "COW_HEADER_SIZE \<le> a \<Longrightarrow> data_of w' ino a = data_of w ino a"
    "curr_pos cm = h_fpos h" "file_size cm = h_fsize h" "seqid cm = h_seqid h" "uuid cm = h_uuid h"
    "version cm = h_version h" "nr_changed_blocks cm = h_nr_changed_blocks h"
    "bit (flags cm) COW_INDEX_ONLY = io"
proof -
  obtain d w1 w2 cm2 where op: "open_moocbt_cow_file K path False (ktick w) = (Opened d, w1)"
    and oh: "cow_open_header K io True w1 (cow_geometry n sz cs d) = (0, w2, cm2)"
    and al: "alloc_sects K True w2 cm2 = (True, w', cm)"
    using r by (auto simp: cow_reload_def Let_def split: if_splits open_result.splits prod.splits)
  note o = open_cow_file_ok[OF K p op]
  obtain d' where h: "h_magic h = COW_MAGIC" "bit (h_flags h) COW_INDEX_ONLY = io"
    and cm2: "cm2 = (with_header h (clean_flag False (loaded_flags True h)) (cow_geometry n sz cs d))\<lparr>dfilp := Some d'\<rparr>"
    and d': "df_inode d' = df_inode d"
    and fr: "\<And>a. 64 \<le> a \<Longrightarrow> data_of w2 (df_inode d) a = data_of w1 (df_inode d) a"
    using cow_open_header_ok[OF K _ oh, of d] hc o by (auto simp: holds_cow_def)
  obtain fl where al': "inodes w' = inodes w2"
    "cm = cm2\<lparr>flags := fl, sects := Some (replicate (total_sects cm2) \<lparr>has_data = True, usage = 0, mappings = None\<rparr>)\<rparr>"
    "bit fl COW_INDEX_ONLY = bit (flags cm2) COW_INDEX_ONLY"
    using alloc_sects_ok[OF al] by metis
  show f: "sect_size cm = sz" "curr_pos cm = h_fpos h" "file_size cm = h_fsize h" "seqid cm = h_seqid h"
    "uuid cm = h_uuid h" "version cm = h_version h" "nr_changed_blocks cm = h_nr_changed_blocks h"
    using cm2 al' by (simp_all add: with_header_def)
  show "bit (flags cm) COW_INDEX_ONLY = io"
    using cm2 al' h by (simp add: with_header_def loaded_flags_def bit_simps)
  show i: "map_option df_inode (dfilp cm) = Some ino" using cm2 al' d' o by (simp add: with_header_def)
  show cap: "capacity cm = NUM_SEGMENTS n (get_order (sz * 8) + 9) * sz"
    using cm2 al' by (simp add: capacity_def with_header_def)
  show data: "COW_HEADER_SIZE \<le> a \<Longrightarrow> data_of w' ino a = data_of w ino a" for a
    using fr[of a] al' o by simp
  note fw = fresh_sects_wf[of cm True]
  show "cow_wf cm" using al' cm2 sz by (intro fw(1)) (simp_all add: with_header_def)
  show "cow_zero w' cm" using al' by (auto simp: cow_zero_def sect_at_def split: if_splits)
  show "cow_map w' cm pos = m pos" if pos: "pos < capacity cm"
  proof -
    obtain e where e: "dfilp cm = Some e" "df_inode e = ino" using i by auto
    have "cow_map w' cm pos = index_entry w' cm pos"
      using fw(2)[OF _ _ _ _ pos, of w'] al' cm2 sz by (simp add: with_header_def)
    also have "\<dots> = disk_index (data_of w' ino) pos" using index_entry_disk[OF e(1)] e(2) by simp
    also have "\<dots> = disk_index (data_of w ino) pos" by (rule disk_index_cong) (simp add: data)
    finally show ?thesis using hc pos cap by (simp add: holds_cow_def)
  qed
qed

lemma cow_reload_saved:
  assumes K: "kernel_ok K" and p: "resolves K path ino" and inv: "snap_inv w cm"
    and d: "dfilp cm = Some d" "df_inode d = ino"
    and geo: "total_sects cm = NUM_SEGMENTS n (get_order (sect_size cm * 8) + 9)"
    and hc: "holds_cow (data_of w1 ino) h (capacity cm) (cow_map w cm)"
    and hf: "h_fpos h = curr_pos cm" "h_fsize h = file_size cm"
    and fr: "\<And>a. index_end cm \<le> a \<Longrightarrow> data_of w1 ino a = data_of w ino a"
    and r: "cow_reload K path n (sect_size cm) cs io w1 = Some (0, w', Some cm')"
  shows "cow_map w' cm' = cow_map w cm" "cow_saved w' cm' = cow_saved w cm" "snap_inv w' cm'"
proof -
  have wf: "cow_wf cm" using inv by (simp add: snap_inv_def)
  then have sz: "0 < sect_size cm" by (simp add: cow_wf_def)
  have cap: "capacity cm = NUM_SEGMENTS n (get_order (sect_size cm * 8) + 9) * sect_size cm"
    by (simp add: capacity_def geo)
  note ro = cow_reload_ok[OF K p sz hc[unfolded cap] r]
  have c': "capacity cm' = capacity cm" "index_end cm' = index_end cm" using ro(3) cap by (simp_all add: index_end_def)
  show m: "cow_map w' cm' = cow_map w cm"
  proof
    fix pos
    show "cow_map w' cm' pos = cow_map w cm pos"
      using ro(5)[of pos] cow_map_beyond[OF ro(1), of pos w'] cow_map_beyond[OF wf, of pos w] c'
      by (cases "pos < capacity cm") auto
  qed
  have data: "cow_data w' cm' a = cow_data w cm a" if "index_end cm \<le> a" for a
  proof -
    have "4096 \<le> a" using that by (simp add: index_end_def)
    then show ?thesis using ro(6) ro(7)[of a] fr[OF that] d by (auto simp: cow_data_def split: option.splits)
  qed
  show "cow_saved w' cm' = cow_saved w cm"
  proof (rule ext, rule cow_saved_cong)
    fix b
    assume "cow_map w cm b \<noteq> 0"
    then have "index_end cm \<le> unat (cow_map w cm b) * 4096" using inv by (simp add: snap_inv_def)
    then show "\<forall>i < 4096. cow_data w' cm' (unat (cow_map w cm b) * 4096 + i) =
        cow_data w cm (unat (cow_map w cm b) * 4096 + i)" using data by simp
  qed (simp add: m)
  show "snap_inv w' cm'" using inv ro(1,8,9) hf c' m by (simp add: snap_inv_def)
qed

text \<open>
  Reopening after a clean close: the manager kept its section array, the header gives its fields
  back. \<open>w1\<close> is a later world in which the bytes of the file are what closing left.
\<close>

lemma cow_reopen_ok:
  assumes K: "kernel_ok K" and wf: "cow_wf cm" and z: "cow_zero w cm" and u: "length (uuid cm) = COW_UUID_SIZE"
    and d: "dfilp cm = Some d" and cl: "cow_sync_and_close K w cm = Some (0, w', cm')"
    and p: "resolves K path (df_inode d)" and w1: "data_of w1 (df_inode d) = data_of w' (df_inode d)"
    and r: "cow_reopen K path w1 cm' = Some (0, w2, cm2)"
  shows "cow_wf cm2" "cow_map w2 cm2 = cow_map w cm" "cow_zero w2 cm2"
    "\<And>a. index_end cm \<le> a \<Longrightarrow> cow_data w2 cm2 a = cow_data w cm a"
    "cow_fields cm2 = cow_fields (cm\<lparr>flags := clean_flag False (flags cm)\<rparr>)"
proof -
  let ?c = "cm'\<lparr>dfilp := Some d\<rparr>"
  note c = cow_sync_and_close_ok[OF K wf z u d cl]
  obtain d1 w0 where op: "open_moocbt_cow_file K path False w1 = (Opened d1, w0)"
    and oh: "cow_open_header K (bit (flags cm') COW_INDEX_ONLY) False w0 (cm'\<lparr>dfilp := Some d1\<rparr>) = (0, w2, cm2)"
    using r open_cow_file_err[OF K, of path False w1]
    by (auto simp: cow_reopen_def Let_def split: open_result.splits prod.splits if_splits)
  note o = open_cow_file_ok[OF K p op]
  have hw: "buf_header (data_of w0 (df_inode d1)) = header_of (cm\<lparr>flags := clean_flag True (flags cm)\<rparr>)"
    using o w1 c(1) by (simp add: holds_cow_def)
  have "dfilp (cm'\<lparr>dfilp := Some d1\<rparr>) = Some d1" by simp
  from cow_open_header_ok[OF K this oh] obtain d2 h where h0: "h = buf_header (data_of w0 (df_inode d1))"
    and cm2: "cm2 = (with_header h (clean_flag False (loaded_flags False h)) (cm'\<lparr>dfilp := Some d1\<rparr>))\<lparr>dfilp := Some d2\<rparr>"
    and d20: "df_inode d2 = df_inode d1"
    and fr0: "\<And>a. 64 \<le> a \<Longrightarrow> data_of w2 (df_inode d1) a = data_of w0 (df_inode d1) a"
    by blast
  have h: "h = header_of (cm\<lparr>flags := clean_flag True (flags cm)\<rparr>)" and d2: "df_inode d2 = df_inode d"
    using h0 d20 hw o(1) by simp_all
  have fr: "data_of w2 (df_inode d) a = data_of w' (df_inode d) a" if "64 \<le> a" for a
    using fr0[OF that] o w1 by simp
  have at: "sect_at cm2 j = sect_at ?c j" "sect_size cm2 = sect_size ?c" for j
    using cm2 by (simp_all add: sect_at_def with_header_def)
  have data: "cow_data w2 cm2 a = cow_data w' ?c a" if "64 \<le> a" for a
    using fr[OF that] cm2 d2 by (simp add: cow_data_def)
  then have "index_entry w2 cm2 pos = index_entry w' ?c pos" for pos by (intro index_entry_data) simp
  from cow_same_index[OF at this] c(7,8) show "cow_map w2 cm2 = cow_map w cm" "cow_zero w2 cm2" by simp_all
  show "cow_wf cm2" using c(5) cm2 by (auto simp: cow_wf_def with_header_def split: option.splits)
  show "cow_data w2 cm2 a = cow_data w cm a" if "index_end cm \<le> a" for a
    using data[of a] c(2)[OF that] that d by (simp add: cow_data_def index_end_def)
  have "clean_flag False (clean_flag True x) = clean_flag False x" for x
    by (rule bit_word_eqI) simp
  then show "cow_fields cm2 = cow_fields (cm\<lparr>flags := clean_flag False (flags cm)\<rparr>)"
    using c(6) cm2 h d d2 by (simp add: cow_fields_def with_header_def loaded_flags_def header_of_def)
qed

subsection \<open>Creation\<close>

lemma get_order_section [simp]: "get_order 32768 = 3"
  by (simp add: get_order.simps)

lemma write_zero_pages_ok:
  assumes K: "kernel_write_ok K"
  shows "write_zero_pages K d off n w = (0, d', w') \<Longrightarrow> data_of w (df_inode d) = (\<lambda>_. 0) \<Longrightarrow>
    df_inode d' = df_inode d \<and> data_of w' (df_inode d) = (\<lambda>_. 0)"
proof (induction n arbitrary: off d w)
  case (Suc n)
  obtain ret e w1 where f: "file_write K (Some d) (\<lambda>_. 0) off 4096 w = (ret, e, w1)" by (metis prod_cases3)
  obtain d1 where d1: "e = Some d1" "df_inode d1 = df_inode d" using file_write_inode[OF f] by auto
  with f Suc.prems have z: "ret = 0" "write_zero_pages K d1 (off + 4096) n w1 = (0, d', w')"
    by (auto split: if_splits)
  have "data_of w1 (df_inode d) a = 0" for a
  proof (cases "off \<le> a \<and> a < off + 4096")
    case True
    then obtain i where "a = off + i" "i < 4096" by (metis le_Suc_ex nat_add_left_cancel_less)
    then show ?thesis using file_write_bytes[OF f K z(1)] by auto
  next
    case False
    then show ?thesis using file_write_frame[OF f K, of a "df_inode d"] Suc.prems(2) by auto
  qed
  then show ?case using Suc.IH[OF z(2)] d1 by auto
qed simp

lemma file_allocate_ok:
  assumes K: "kernel_ok K" and r: "file_allocate K d 0 len w = (0, d', w')"
    and z: "data_of w (df_inode d) = (\<lambda>_. 0)"
  shows "df_inode d' = df_inode d" "data_of w' (df_inode d) = (\<lambda>_. 0)" "len < 2 ^ 63"
proof -
  have Kw: "kernel_write_ok K" and Kf: "kernel_falloc_ok K" using K by (simp_all add: kernel_ok_def)
  obtain ret d1 w1 where t: "try_real_fallocate K d 0 len w = (ret, d1, w1)" by (metis prod_cases3)
  have t': "df_inode d1 = df_inode d" "data_of w1 (df_inode d) = (\<lambda>_. 0)" "ret \<noteq> - EFBIG \<longrightarrow> len < 2 ^ 63"
    using t z Kf by (auto simp: try_real_fallocate_def file_lock_defs kernel_falloc_ok_def split: prod.splits if_splits)
      (metis snd_conv)+
  have c: "ret \<noteq> - EFBIG" "ret = 0 \<and> d' = d1 \<and> w' = w1 \<or>
      write_zero_pages K d1 0 (NUM_SEGMENTS len 12) (ktick w1) = (0, d', w')"
    using r t by (auto simp: file_allocate_def Let_def split: if_splits)
  show "len < 2 ^ 63" using c(1) t' by simp
  show "df_inode d' = df_inode d" "data_of w' (df_inode d) = (\<lambda>_. 0)"
    using c(2) t' write_zero_pages_ok[OF Kw, of d1 0 _ "ktick w1" d' w'] by auto
qed

lemma cow_init_ok:
  assumes K: "kernel_ok K" and p: "resolves K path ino" and n: "n \<le> 2 ^ 51"
    and r: "cow_init K dev path n COW_SECTION_SIZE cs fmax uo sid w = Some (0, w', Some cm)"
  shows "snap_inv w' cm" "cow_zero w' cm" "cow_map w' cm = (\<lambda>_. 0)" "n \<le> capacity cm"
    "version cm = COW_VERSION_CHANGED_BLOCKS" "nr_changed_blocks cm = 0" "seqid cm = sid" "file_size cm = fmax"
    "unat (data_offset cm) = index_end cm" "map_option df_inode (dfilp cm) = Some ino"
    "uo = Some u \<Longrightarrow> uuid cm = u" "\<not> bit (flags cm) COW_INDEX_ONLY"
    "sect_size cm = COW_SECTION_SIZE" "total_sects cm = NUM_SEGMENTS n 12"
proof -
  let ?t = "NUM_SEGMENTS n 12"
  obtain d w1 where op: "open_moocbt_cow_file K path True (ktick w) = (Opened d, w1)"
    using r by (auto simp: cow_init_def cow_init_fail_def Let_def split: if_splits open_result.splits prod.splits option.splits)
  note o = open_cow_file_ok[OF K p op]
  obtain u w2 where uu: "(case uo of Some u \<Rightarrow> (u, w1) | None \<Rightarrow> (k_uuid K (clock w1), ktick w1)) = (u, w2)"
    by (metis prod.exhaust)
  have w2: "inodes w2 = inodes w1" "uo = Some v \<Longrightarrow> u = v" for v using uu by (auto split: option.splits)
  let ?cm = "(cow_geometry n 4096 cs d)\<lparr>version := 1, nr_changed_blocks := 0, flags := 0, file_size := fmax,
     seqid := sid, curr_pos := data_offset (cow_geometry n 4096 cs d) div 4096, cm_dev := Some dev, uuid := u\<rparr>"
  obtain w3 cm3 d4 w4 where al: "alloc_sects K False w2 ?cm = (True, w3, cm3)"
    and fa: "file_allocate K d 0 (unat fmax) w3 = (0, d4, w4)"
    and wh: "cow_write_header K False w4 (cm3\<lparr>dfilp := Some d4\<rparr>) = (0, w', cm)"
    using r op uu by (auto simp: cow_init_def cow_init_fail_def Let_def split: if_splits option.splits prod.splits)
  obtain fl where al': "inodes w3 = inodes w2" "bit fl COW_INDEX_ONLY = bit (flags ?cm) COW_INDEX_ONLY"
    "cm3 = ?cm\<lparr>flags := fl, sects := Some (replicate ?t \<lparr>has_data = False, usage = 0, mappings = None\<rparr>)\<rparr>"
    using alloc_sects_ok[OF al] by (auto simp: geometry_simps)
  have "data_of w3 (df_inode d) = (\<lambda>_. 0)" using o w2 al' by simp
  note fo = file_allocate_ok[OF K fa this]
  have "kernel_write_ok K" using K by (simp add: kernel_ok_def)
  from cow_write_header_ok[OF this wh] obtain d5 where
    cm: "cm = cm3\<lparr>flags := clean_flag False fl, dfilp := d5\<rparr>" and d5: "map_option df_inode d5 = Some ino"
    and fr: "\<And>a j. 64 \<le> a \<Longrightarrow> data_of w' j a = data_of w4 j a"
    using fo(1) o(1) al' by (auto simp: geometry_simps)
  show cf: "version cm = COW_VERSION_CHANGED_BLOCKS" "nr_changed_blocks cm = 0" "seqid cm = sid" "file_size cm = fmax"
    "map_option df_inode (dfilp cm) = Some ino" "uo = Some u \<Longrightarrow> uuid cm = u" "\<not> bit (flags cm) COW_INDEX_ONLY"
    "sect_size cm = COW_SECTION_SIZE" "total_sects cm = ?t" for u
    using cm al' d5 w2 by simp_all
  show "n \<le> capacity cm" using NUM_SEGMENTS_covers[of n 12] cf by (simp add: capacity_def)
  have wf: "cow_wf cm" using cm al' d5 by (intro fresh_sects_wf(1)[of _ False]) auto
  show z: "cow_map w' cm = (\<lambda>_. 0)"
    using cm al' by (auto simp: cow_map_def sect_at_def sect_val_def fun_eq_iff split: option.splits)
  have "cow_data w' cm a = 0" if "64 \<le> a" for a
    using fr[OF that] d5 fo(2) o(1) cm by (auto simp: cow_data_def)
  then have "index_entry w' cm pos = 0" for pos
    by (simp add: index_entry_def buf_mappings_def le_word64_def)
  then show "cow_zero w' cm" by (simp add: cow_zero_def)
  have t: "?t \<le> 2 ^ 39" using n by (simp add: NUM_SEGMENTS_div)
  have off: "data_offset cm = of_nat (index_end cm)" "curr_pos cm = data_offset cm div 4096"
    using cm al' by (simp_all add: index_end_def capacity_def)
  have ie: "index_end cm = (1 + 8 * ?t) * 4096" using cf by (simp add: index_end_def capacity_def)
  have "index_end cm < 2 ^ 64" using t ie by simp
  then show uo: "unat (data_offset cm) = index_end cm"
    unfolding off(1) by (simp only: unat_of_nat) (simp add: take_bit_nat_eq_self)
  have "unat (curr_pos cm) = 1 + 8 * ?t" using off(2) uo ie by (simp add: unat_div)
  then show "snap_inv w' cm"
    using wf z ie t fo(3) cf by (simp add: snap_inv_def)
qed

subsection \<open>Truncation to the index\<close>

lemma cow_truncate_ok:
  assumes K: "kernel_ok K" and wf: "cow_wf cm" and o: "unat (data_offset cm) = index_end cm"
    and r: "cow_truncate_to_index K w cm = Some (ret, w', cm')"
  shows "cow_map w' cm' = cow_map w cm" "cow_wf cm'" "cow_zero w cm \<Longrightarrow> cow_zero w' cm'"
    "bit (flags cm') COW_INDEX_ONLY" "ret = 0 \<Longrightarrow> file_size cm' = data_offset cm" "capacity cm' = capacity cm"
proof -
  obtain d where d: "dfilp cm = Some d" using wf by (auto simp: cow_wf_def)
  obtain ret' d1 w1 where f: "file_truncate K d (unat (data_offset cm)) w = (ret', d1, w1)" by (metis prod_cases3)
  have f': "df_inode d1 = df_inode d" "a < index_end cm \<Longrightarrow> data_of w1 (df_inode d) a = data_of w (df_inode d) a" for a
    using f K o by (auto simp: file_truncate_def file_lock_defs kernel_ok_def kernel_truncate_ok_def
        split: prod.splits if_splits) (metis snd_conv)+
  have cm': "ret = ret'" "w' = w1" "cm' = (let c = cm\<lparr>flags := flags cm OR push_bit COW_INDEX_ONLY 1, dfilp := Some d1\<rparr> in
      if ret = 0 then c\<lparr>file_size := data_offset cm\<rparr> else c)"
    using r d f by (auto simp: cow_truncate_to_index_def Let_def)
  have at: "sect_at cm' j = sect_at cm j" "sect_size cm' = sect_size cm" "total_sects cm' = total_sects cm"
    "dfilp cm' = Some d1" for j
    using cm'(3) by (simp_all add: sect_at_def Let_def)
  show "bit (flags cm') COW_INDEX_ONLY" "ret = 0 \<Longrightarrow> file_size cm' = data_offset cm" "capacity cm' = capacity cm"
    using cm'(3) by (simp_all add: Let_def bit_simps capacity_def)
  show "cow_wf cm'" using wf cm'(3) by (auto simp: cow_wf_def Let_def split: option.splits)
  have ent: "index_entry w' cm' pos = index_entry w cm pos" if "sect_at cm (pos div sect_size cm) = Some s" for pos s
  proof (rule index_entry_data)
    fix k :: nat
    assume "k < 8"
    have "pos < capacity cm"
      using sect_at_bound[OF wf that] wf by (simp add: capacity_def cow_wf_def div_less_iff_less_mult)
    then have "4096 + 8 * pos + k < index_end cm" using \<open>k < 8\<close> by (simp add: index_end_def)
    then show "cow_data w' cm' (4096 + 8 * pos + k) = cow_data w cm (4096 + 8 * pos + k)"
      using f' cm'(2) at(4) d by (simp add: cow_data_def)
  qed
  show "cow_map w' cm' = cow_map w cm"
    by (rule cow_map_eqI) (auto simp: at sect_val_def ent split: option.splits)
  show "cow_zero w' cm'" if "cow_zero w cm" using that by (auto simp: cow_zero_def at ent)
qed

subsection \<open>The memory kernel runs the life cycle\<close>

lemma ram_write:
  "\<exists>w'. file_write ram_kernel (Some d) b off len w = (0, Some d, w') \<and>
     data_of w' (df_inode d) = (\<lambda>a. if off \<le> a \<and> a < off + len then b (a - off) else data_of w (df_inode d) a) \<and>
     (\<forall>j. i_isreg (inodes w' j) = i_isreg (inodes w j))"
  by (auto simp: file_write_def file_io_def moocbt_kernel_write_def file_lock_defs ram_kernel_def
      set_data_def set_immutable_def)

lemma ram_read:
  "\<exists>w'. file_read ram_kernel (Some d) off len w = (0, \<lambda>i. data_of w (df_inode d) (off + i), Some d, w') \<and>
     data_of w' = data_of w \<and> (\<forall>j. i_isreg (inodes w' j) = i_isreg (inodes w j))"
  by (auto simp: file_read_def file_io_def moocbt_kernel_read_def file_lock_defs ram_kernel_def
      set_immutable_def)

lemma ram_header:
  assumes "dfilp cm = Some d"
  shows "\<exists>w'. cow_write_header ram_kernel c w cm = (0, w', cm\<lparr>flags := clean_flag c (flags cm)\<rparr>) \<and>
    (\<forall>j. i_isreg (inodes w' j) = i_isreg (inodes w j))"
proof -
  let ?cm = "cm\<lparr>flags := clean_flag c (flags cm)\<rparr>"
  have e: "cow_write_header ram_kernel c w cm =
      (let (ret, d, w) = file_write ram_kernel (dfilp cm) (header_buf (header_of ?cm)) 0 64 w
       in (ret, w, ?cm\<lparr>dfilp := d\<rparr>))"
    by (simp add: cow_write_header_def clean_flag_def header_of_def Let_def)
  obtain w' where "file_write ram_kernel (Some d) (header_buf (header_of ?cm)) 0 64 w = (0, Some d, w')"
    "\<forall>j. i_isreg (inodes w' j) = i_isreg (inodes w j)" using ram_write by blast
  with e assms show ?thesis by simp
qed

lemma ram_resolves: "resolves ram_kernel path 0"
  by (simp add: resolves_def ram_kernel_def)

lemma ram_open_header:
  assumes d: "dfilp cm = Some d" and h: "h = buf_header (data_of w (df_inode d))" "h_magic h = COW_MAGIC"
    "bit (h_flags h) COW_CLEAN" "bit (h_flags h) COW_INDEX_ONLY = io"
  shows "\<exists>w' cm'. cow_open_header ram_kernel io rv w cm = (0, w', cm')"
proof -
  obtain w1 where rd: "file_read ram_kernel (dfilp cm) 0 64 w = (0, \<lambda>i. data_of w (df_inode d) i, Some d, w1)"
    using ram_read[of d 0 64 w] d by auto
  let ?cm = "with_header h (loaded_flags rv h) (cm\<lparr>dfilp := Some d\<rparr>)"
  have "dfilp ?cm = Some d" by (simp add: with_header_def)
  from ram_header[OF this] obtain w2 where
    "cow_write_header ram_kernel False w1 ?cm = (0, w2, ?cm\<lparr>flags := clean_flag False (flags ?cm)\<rparr>)" by blast
  then show ?thesis using rd h by (auto simp: cow_open_header_def with_header_def loaded_flags_def Let_def)
qed

lemma ram_open:
  assumes "i_isreg (inodes w 0)"
  shows "\<exists>w' d. open_moocbt_cow_file ram_kernel path tr w = (Opened d, w') \<and> df_inode d = 0 \<and> writers d = 0 \<and>
    data_of w' 0 = (if tr then \<lambda>_. 0 else data_of w 0)"
  using assms by (simp add: open_moocbt_cow_file_def file_open_def moocbt_cow_file_wrap_def ram_kernel_def Let_def)

lemma ram_alloc [simp]: "k_alloc ram_kernel t"
  by (simp add: ram_kernel_def)

lemma ram_reload:
  assumes w: "i_isreg (inodes w 0)" and h: "h = buf_header (data_of w 0)" "h_magic h = COW_MAGIC"
    "bit (h_flags h) COW_CLEAN" "bit (h_flags h) COW_INDEX_ONLY = io"
  shows "\<exists>w' cm. cow_reload ram_kernel path n sz cs io w = Some (0, w', Some cm)"
    "\<exists>w' cm'. bit (flags cm) COW_INDEX_ONLY = io \<longrightarrow> cow_reopen ram_kernel path w cm = Some (0, w', cm')"
proof -
  obtain w1 d where op: "open_moocbt_cow_file ram_kernel path False (ktick w) = (Opened d, w1)" "df_inode d = 0"
    "data_of w1 0 = data_of w 0"
    using ram_open[of "ktick w" path False] w by auto
  then obtain w2 cm2 where "cow_open_header ram_kernel io True w1 (cow_geometry n sz cs d) = (0, w2, cm2)"
    using ram_open_header[of _ d h w1 io] h by fastforce
  then show "\<exists>w' cm. cow_reload ram_kernel path n sz cs io w = Some (0, w', Some cm)"
    using op by (simp add: cow_reload_def alloc_sects_def Let_def)
  obtain w3 e where oq: "open_moocbt_cow_file ram_kernel path False w = (Opened e, w3)" "df_inode e = 0"
    "data_of w3 0 = data_of w 0"
    using ram_open[of w path False] w by auto
  then obtain w4 cm4 where "cow_open_header ram_kernel io False w3 (cm\<lparr>dfilp := Some e\<rparr>) = (0, w4, cm4)"
    using ram_open_header[of _ e h w3 io] h by fastforce
  then show "\<exists>w' cm'. bit (flags cm) COW_INDEX_ONLY = io \<longrightarrow> cow_reopen ram_kernel path w cm = Some (0, w', cm')"
    using oq by (simp add: cow_reopen_def Let_def)
qed

lemma sample_cow_facts:
  "dfilp sample_cow = Some \<lparr>df_inode = 0, df_mnt = 0, writers = 0\<rparr>" "length (uuid sample_cow) = 16"
  "cow_zero ram_world sample_cow" "sect_size sample_cow = 4096"
  "total_sects sample_cow = NUM_SEGMENTS 4096 (get_order (sect_size sample_cow * 8) + 9)"
  by (simp_all add: sample_cow_def cow_zero_def index_entry_def cow_data_def ram_world_def buf_mappings_def
      le_word64_def NUM_SEGMENTS_div)

lemma sample_sync:
  "\<exists>w'. cow_sync_and_free ram_kernel ram_world sample_cow = Some (0, w') \<and>
     cow_sync_and_close ram_kernel ram_world sample_cow =
       Some (0, w', sample_cow\<lparr>flags := clean_flag True (flags sample_cow), dfilp := None\<rparr>) \<and>
     i_isreg (inodes w' 0)"
proof -
  have sy: "cow_sync_and_free_sections ram_kernel 0 ram_world sample_cow = Some (0, ram_world, sample_cow)"
    by (simp add: cow_sync_and_free_sections_def sample_cow_def sect_at_def put_sect_def)
  obtain w' where "cow_write_header ram_kernel True ram_world sample_cow =
      (0, w', sample_cow\<lparr>flags := clean_flag True (flags sample_cow)\<rparr>)"
    "\<forall>j. i_isreg (inodes w' j) = i_isreg (inodes ram_world j)"
    using ram_header[of sample_cow _ True ram_world] by (auto simp: sample_cow_def)
  then show ?thesis using sy
    by (auto simp: cow_sync_and_free_def cow_sync_and_close_def close_and_destroy_moocbt_cow_file_def file_close_def
        moocbt_cow_file_unlock_def set_immutable_def ram_world_def split: option.splits)
qed

lemma ram_init:
  "\<exists>w' cm. cow_init ram_kernel 0 ''/cow'' 4096 4096 0 1048576 None 1 ram_world = Some (0, w', Some cm)"
proof -
  obtain w1 d where op: "open_moocbt_cow_file ram_kernel ''/cow'' True (ktick ram_world) = (Opened d, w1)"
    using ram_open[of "ktick ram_world" "''/cow''" True] by (auto simp: ram_world_def)
  have fa: "\<exists>d' w'. file_allocate ram_kernel d 0 1048576 w = (0, d', w')" for w
    by (simp add: file_allocate_def try_real_fallocate_def file_lock_defs ram_kernel_def)
  have wh: "fst (cow_write_header ram_kernel False w cm) = 0" if "dfilp cm \<noteq> None" for w cm
    using ram_header[of cm _ False w] that by auto
  obtain d1 w2 where "file_allocate ram_kernel d 0 1048576 (ktick (ktick w1)) = (0, d1, w2)" using fa by blast
  then show ?thesis using op by (simp add: cow_init_def Let_def alloc_sects_def case_prod_unfold wh)
qed

subsection \<open>Properties\<close>

text \<open>
  C4: a clean shutdown and the reload after a restart lose nothing. The manager is flushed, its
  header written and the file closed; later, with the bytes of the file unchanged, the file is
  loaded. Every saved block, the index, the append position, the sequence number, the UUID and the
  count of changed blocks are those from before, and the invariant holds.
\<close>

theorem cow_restart_roundtrip:
  assumes "kernel_ok K" "snap_inv w cm" "cow_zero w cm" "length (uuid cm) = COW_UUID_SIZE"
    and "dfilp cm = Some d" "resolves K path (df_inode d)"
    and "total_sects cm = NUM_SEGMENTS n (get_order (sect_size cm * 8) + 9)"
    and "cow_sync_and_free K w cm = Some (0, w1)"
    and "data_of w2 (df_inode d) = data_of w1 (df_inode d)"
    and "cow_reload K path n (sect_size cm) cs io w2 = Some (0, w3, Some cm3)"
  shows "cow_saved w3 cm3 = cow_saved w cm \<and> cow_map w3 cm3 = cow_map w cm \<and> snap_inv w3 cm3 \<and>
    curr_pos cm3 = curr_pos cm \<and> seqid cm3 = seqid cm \<and> uuid cm3 = uuid cm \<and>
    nr_changed_blocks cm3 = nr_changed_blocks cm"
proof -
  have wf: "cow_wf cm" using assms(2) by (simp add: snap_inv_def)
  note c = cow_sync_and_free_ok[OF assms(1) wf assms(3,4,5,8)]
  have hc: "holds_cow (data_of w2 (df_inode d)) (header_of (cm\<lparr>flags := clean_flag True (flags cm)\<rparr>))
      (NUM_SEGMENTS n (get_order (sect_size cm * 8) + 9) * sect_size cm) (cow_map w cm)"
    using c(1) assms(9) by (simp add: capacity_def assms(7))
  have sz: "0 < sect_size cm" using wf by (simp add: cow_wf_def)
  note ro = cow_reload_ok[OF assms(1,6) sz hc assms(10)]
  note rs = cow_reload_saved[OF assms(1,6,2,5) refl assms(7) _ _ _ _ assms(10)]
  show ?thesis using rs[of "header_of (cm\<lparr>flags := clean_flag True (flags cm)\<rparr>)"] ro(8,10,11,13) c assms(9)
    by (simp add: header_of_def)
qed

theorem cow_restart_roundtrip_witness:
  "\<exists>w1 w3 cm3. cow_sync_and_free ram_kernel ram_world sample_cow = Some (0, w1) \<and>
     cow_reload ram_kernel ''/cow'' 4096 COW_SECTION_SIZE 0 False w1 = Some (0, w3, Some cm3) \<and>
     cow_saved w3 cm3 = cow_saved ram_world sample_cow \<and> seqid cm3 = 1"
proof -
  note c = sample_cow_facts
  obtain w1 where s: "cow_sync_and_free ram_kernel ram_world sample_cow = Some (0, w1)" "i_isreg (inodes w1 0)"
    using sample_sync by blast
  have r: "resolves ram_kernel ''/cow'' (df_inode \<lparr>df_inode = 0, df_mnt = 0, writers = 0\<rparr>)" by (simp add: ram_resolves)
  have "buf_header (data_of w1 0) = header_of (sample_cow\<lparr>flags := clean_flag True (flags sample_cow)\<rparr>)"
    using cow_sync_and_free_ok(1)[OF ram_kernel_ok sample_cow_inv(1) c(3,2,1) s(1)] by (simp add: holds_cow_def)
  then obtain w3 cm3 where "cow_reload ram_kernel ''/cow'' 4096 (sect_size sample_cow) 0 False w1 = Some (0, w3, Some cm3)"
    using ram_reload(1)[OF s(2) refl, where io = False and path = "''/cow''" and n = 4096 and cs = 0
        and sz = "sect_size sample_cow"]
    by (auto simp: header_of_def sample_cow_def)
  with cow_restart_roundtrip[OF ram_kernel_ok sample_cow_inv(2) c(3,2,1) r c(5) s(1) refl this] s(1) c(4)
  show ?thesis by (auto simp: sample_cow_def)
qed

text \<open>
  C5: going dormant and back. Closing the manager and reopening the same file, with its bytes
  unchanged in between, gives the same index, the same data area and the same fields, with the
  clean flag cleared again.
\<close>

theorem cow_dormant_roundtrip:
  assumes "kernel_ok K" "snap_inv w cm" "cow_zero w cm" "length (uuid cm) = COW_UUID_SIZE"
    and "dfilp cm = Some d" "cow_sync_and_close K w cm = Some (0, w1, cm1)"
    and "resolves K path (df_inode d)" "data_of w2 (df_inode d) = data_of w1 (df_inode d)"
    and "cow_reopen K path w2 cm1 = Some (0, w3, cm3)"
  shows "cow_saved w3 cm3 = cow_saved w cm \<and> snap_inv w3 cm3 \<and> cow_zero w3 cm3 \<and>
    cow_fields cm3 = cow_fields (cm\<lparr>flags := clean_flag False (flags cm)\<rparr>)"
proof -
  have wf: "cow_wf cm" using assms(2) by (simp add: snap_inv_def)
  note r = cow_reopen_ok[OF assms(1) wf assms(3-9)]
  have "cow_saved w3 cm3 b = cow_saved w cm b" for b
    using assms(2) r(2,4) by (intro cow_saved_cong) (auto simp: snap_inv_def)
  moreover have "snap_inv w3 cm3"
    using assms(2) r(1,2) fields_simps(4,6,9)[OF r(5)] by (simp add: snap_inv_def index_end_def capacity_def)
  ultimately show ?thesis using r(3,5) by blast
qed

theorem cow_dormant_roundtrip_witness:
  "\<exists>w1 cm1 w3 cm3. cow_sync_and_close ram_kernel ram_world sample_cow = Some (0, w1, cm1) \<and>
     cow_reopen ram_kernel ''/cow'' w1 cm1 = Some (0, w3, cm3) \<and>
     cow_saved w3 cm3 = cow_saved ram_world sample_cow"
proof -
  note c = sample_cow_facts
  let ?c = "sample_cow\<lparr>flags := clean_flag True (flags sample_cow), dfilp := None\<rparr>"
  obtain w1 where s: "cow_sync_and_close ram_kernel ram_world sample_cow = Some (0, w1, ?c)" "i_isreg (inodes w1 0)"
    using sample_sync by blast
  have r: "resolves ram_kernel ''/cow'' (df_inode \<lparr>df_inode = 0, df_mnt = 0, writers = 0\<rparr>)" by (simp add: ram_resolves)
  have "buf_header (data_of w1 0) = header_of (sample_cow\<lparr>flags := clean_flag True (flags sample_cow)\<rparr>)"
    using cow_sync_and_close_ok(1)[OF ram_kernel_ok sample_cow_inv(1) c(3,2,1) s(1)] by (simp add: holds_cow_def)
  then obtain w3 cm3 where "cow_reopen ram_kernel ''/cow'' w1 ?c = Some (0, w3, cm3)"
    using ram_reload(2)[OF s(2) refl, where io = False and path = "''/cow''" and cm = ?c]
    by (auto simp: header_of_def sample_cow_def)
  with cow_dormant_roundtrip[OF ram_kernel_ok sample_cow_inv(2) c(3,2,1) s(1) r refl this] s(1)
  show ?thesis by blast
qed

text \<open>
  C6: a new COW file. When \<^verbatim>\<open>cow_init\<close> returns zero for a device of \<open>n\<close> blocks, the invariant
  holds, no block is saved, every block of the device is within the index, and the sequence number
  and the file limit are the ones asked for.
\<close>

theorem cow_init_fresh:
  assumes "kernel_ok K" "resolves K path ino" "n \<le> 2 ^ 51"
    and "cow_init K dev path n COW_SECTION_SIZE cs fmax uo sid w = Some (0, w', Some cm)"
  shows "snap_inv w' cm \<and> cow_zero w' cm \<and> count_inv w' cm \<and> cow_saved w' cm = Map.empty \<and>
    n \<le> capacity cm \<and> seqid cm = sid \<and> file_size cm = fmax \<and> unat (data_offset cm) = index_end cm"
  using cow_init_ok[OF assms]
  by (auto simp: cow_saved_def count_inv_def changed_count_def)

theorem cow_init_fresh_witness:
  "\<exists>w' cm. cow_init ram_kernel 0 ''/cow'' 4096 COW_SECTION_SIZE 0 1048576 None 1 ram_world = Some (0, w', Some cm) \<and>
     snap_inv w' cm \<and> cow_saved w' cm = Map.empty"
proof -
  obtain w' cm where "cow_init ram_kernel 0 ''/cow'' 4096 4096 0 1048576 None 1 ram_world = Some (0, w', Some cm)"
    using ram_init by blast
  with cow_init_fresh[OF ram_kernel_ok ram_resolves _ this] show ?thesis by auto
qed

text \<open>
  C7: truncating to the index keeps the index. Whatever \<^verbatim>\<open>cow_truncate_to_index\<close> returns, the mapping
  of every block is what it was and the manager is marked index-only; on success the size recorded is
  the offset of the data area.
\<close>

theorem cow_truncate_keeps_index:
  assumes "kernel_ok K" "cow_wf cm" "unat (data_offset cm) = index_end cm"
  shows "\<exists>ret w' cm'. cow_truncate_to_index K w cm = Some (ret, w', cm') \<and> cow_map w' cm' = cow_map w cm \<and>
    cow_wf cm' \<and> bit (flags cm') COW_INDEX_ONLY \<and> (ret = 0 \<longrightarrow> file_size cm' = data_offset cm)"
proof -
  obtain d where "dfilp cm = Some d" using assms(2) by (auto simp: cow_wf_def)
  moreover obtain r1 d1 w1 where "file_truncate K d (unat (data_offset cm)) w = (r1, d1, w1)" by (metis prod_cases3)
  ultimately obtain ret w' cm' where r: "cow_truncate_to_index K w cm = Some (ret, w', cm')"
    by (simp add: cow_truncate_to_index_def Let_def)
  from cow_truncate_ok[OF assms r] r show ?thesis by blast
qed

theorem cow_truncate_keeps_index_witness:
  "\<exists>ret w' cm'. cow_truncate_to_index ram_kernel ram_world sample_cow = Some (ret, w', cm') \<and>
     cow_map w' cm' = cow_map ram_world sample_cow \<and> bit (flags cm') COW_INDEX_ONLY"
proof -
  have "unat (data_offset sample_cow) = index_end sample_cow"
    by (simp add: index_end_def capacity_def sample_cow_def)
  from cow_truncate_keeps_index[OF ram_kernel_ok sample_cow_inv(1) this] show ?thesis by blast
qed

end
