(* ===== verification/Bio.thy ===== *)
theory Bio
  imports Prelude Filesystem
begin

text \<open>
  Block I/O requests (\<^verbatim>\<open>struct bio\<close> of the kernel, as \<^verbatim>\<open>src/src/bio_helper.h\<close> reads it) and the
  memory pages they point to. A bio is a list of segments, each a range of a page; the iterator is
  the triple of start sector, remaining size and index. The pages are a store of their own, so
  that filling one segment is visible through every bio that shares the page.
\<close>

datatype req_op = REQ_OP_READ | REQ_OP_WRITE | REQ_OP_FLUSH | REQ_OP_DISCARD | REQ_OP_SECURE_ERASE
  | REQ_OP_WRITE_SAME | REQ_OP_WRITE_ZEROES

type_synonym page_id = nat
type_synonym pages = "page_id \<Rightarrow> buf"

record bio_vec =
  bv_page :: page_id
  bv_offset :: nat
  bv_len :: nat

record bio =
  bi_sector :: nat
  bi_size :: nat
  bi_idx :: nat
  bi_io_vec :: "bio_vec list"
  bi_bdev :: nat
  bi_op :: req_op
  bi_passthrough :: bool
  bi_private :: nat
  bi_end_io :: nat

text \<open>\<^verbatim>\<open>bio_data_dir\<close>: every operation but a read goes towards the device.\<close>

definition bio_data_dir :: "bio \<Rightarrow> bool" where
  "bio_data_dir b \<longleftrightarrow> bi_op b \<noteq> REQ_OP_READ"

definition bio_last_sector :: "bio \<Rightarrow> nat" where
  "bio_last_sector b = bi_sector b + bi_size b div SECTOR_SIZE"

text \<open>
  The segments \<^verbatim>\<open>bio_for_each_segment\<close> visits: from the current index on, as long as bytes
  remain, each cut to the bytes that remain. \<^verbatim>\<open>bio_for_each_segment_all\<close> visits \<open>bi_io_vec\<close>.
\<close>

fun iter_segments :: "bio_vec list \<Rightarrow> nat \<Rightarrow> bio_vec list" where
  "iter_segments [] sz = []"
| "iter_segments (v # vs) sz =
     (if sz = 0 then [] else v\<lparr>bv_len := min (bv_len v) sz\<rparr> # iter_segments vs (sz - bv_len v))"

definition bio_segments :: "bio \<Rightarrow> bio_vec list" where
  "bio_segments b = iter_segments (drop (bi_idx b) (bi_io_vec b)) (bi_size b)"

definition vec_bytes :: "bio_vec list \<Rightarrow> nat" where
  "vec_bytes vs = sum_list (map bv_len vs)"

text \<open>
  A bio whose iterator stands at the start: index zero, all bytes remaining, whole sectors in
  every segment, and no byte of memory in two segments.
\<close>

fun disjoint_vecs :: "bio_vec list \<Rightarrow> bool" where
  "disjoint_vecs [] \<longleftrightarrow> True"
| "disjoint_vecs (v # vs) \<longleftrightarrow>
     (\<forall>u \<in> set vs. bv_page u = bv_page v \<longrightarrow>
        bv_offset u + bv_len u \<le> bv_offset v \<or> bv_offset v + bv_len v \<le> bv_offset u) \<and> disjoint_vecs vs"

definition fresh_bio :: "bio \<Rightarrow> bool" where
  "fresh_bio b \<longleftrightarrow> bi_idx b = 0 \<and> bi_size b = vec_bytes (bi_io_vec b) \<and>
     (\<forall>v \<in> set (bi_io_vec b). 0 < bv_len v \<and> bv_len v mod SECTOR_SIZE = 0) \<and> disjoint_vecs (bi_io_vec b)"

lemma iter_segments_all:
  "\<forall>v \<in> set vs. 0 < bv_len v \<Longrightarrow> iter_segments vs (vec_bytes vs) = vs"
  by (induction vs) (auto simp: vec_bytes_def)

lemma bio_segments_fresh: "fresh_bio b \<Longrightarrow> bio_segments b = bi_io_vec b"
  by (simp add: bio_segments_def fresh_bio_def iter_segments_all)

text \<open>
  The address of the device byte that belongs at byte \<open>x\<close> of page \<open>pg\<close>, when segments \<open>vs\<close> hold the
  device bytes from \<open>a\<close> on; and the store after the device filled the segments from content \<open>d\<close>.
\<close>

fun seg_addr :: "bio_vec list \<Rightarrow> nat \<Rightarrow> page_id \<Rightarrow> nat \<Rightarrow> nat option" where
  "seg_addr [] a pg x = None"
| "seg_addr (v # vs) a pg x =
     (if pg = bv_page v \<and> bv_offset v \<le> x \<and> x < bv_offset v + bv_len v then Some (a + (x - bv_offset v))
      else seg_addr vs (a + bv_len v) pg x)"

definition fill_segs :: "buf \<Rightarrow> bio_vec list \<Rightarrow> nat \<Rightarrow> pages \<Rightarrow> pages" where
  "fill_segs d vs a P pg x = (case seg_addr vs a pg x of None \<Rightarrow> P pg x | Some b \<Rightarrow> d b)"

lemma seg_addr_bounds: "seg_addr vs a pg x = Some b \<Longrightarrow> a \<le> b \<and> b < a + vec_bytes vs"
  by (induction vs arbitrary: a) (fastforce simp: vec_bytes_def split: if_splits)+

lemma seg_addr_disjoint:
  assumes "disjoint_vecs (v # vs)" "bv_offset v \<le> x" "x < bv_offset v + bv_len v"
  shows "seg_addr vs a (bv_page v) x = None"
proof -
  have "\<forall>u \<in> set vs. bv_page u = bv_page v \<longrightarrow> \<not> (bv_offset u \<le> x \<and> x < bv_offset u + bv_len u)"
    using assms by fastforce
  then show ?thesis by (induction vs arbitrary: a) auto
qed

lemma fill_segs_other: "pg \<notin> bv_page ` set vs \<Longrightarrow> fill_segs D vs a P pg = P pg"
proof -
  have "pg \<notin> bv_page ` set vs \<Longrightarrow> seg_addr vs a pg x = None" for a x by (induction vs arbitrary: a) auto
  then show "pg \<notin> bv_page ` set vs \<Longrightarrow> fill_segs D vs a P pg = P pg" by (simp add: fill_segs_def fun_eq_iff)
qed

lemma seg_addr_page:
  assumes "distinct (map bv_page vs)" "\<forall>v \<in> set vs. bv_offset v = 0 \<and> bv_len v = 4096" "k < length vs" "i < 4096"
  shows "seg_addr vs a (bv_page (vs ! k)) i = Some (a + k * 4096 + i)"
  using assms
proof (induction vs arbitrary: a k)
  case (Cons v vs)
  show ?case
  proof (cases k)
    case 0
    then show ?thesis using Cons.prems by simp
  next
    case (Suc j)
    then have "bv_page (vs ! j) \<noteq> bv_page v" using Cons.prems(1,3) by (metis Suc_less_eq distinct.simps(2) image_eqI length_Cons list.set_map list.simps(9) nth_mem)
    then show ?thesis using Suc Cons.IH[of j "a + 4096"] Cons.prems by simp
  qed
qed simp

lemma fresh_bio_size: "fresh_bio b \<Longrightarrow> 512 dvd bi_size b"
proof -
  have "\<forall>v \<in> set vs. bv_len v mod 512 = 0 \<Longrightarrow> 512 dvd vec_bytes vs" for vs by (induction vs) (auto simp: vec_bytes_def)
  then show "fresh_bio b \<Longrightarrow> 512 dvd bi_size b" by (simp add: fresh_bio_def)
qed

end
