(* ===== verification/Queues.thy ===== *)
theory Queues
  imports Bio
begin

text \<open>
  The queues of the driver: singly linked lists with a head and a tail pointer
  (\<^verbatim>\<open>src/src/sset_list.c\<close>, \<^verbatim>\<open>src/src/bio_list.c\<close>) and the locked queues around them
  (\<^verbatim>\<open>src/src/sset_queue.c\<close>, \<^verbatim>\<open>src/src/bio_queue.c\<close>). The links are in a store from addresses to
  addresses, shared by all the queues; an operation runs under the lock of its queue, so it is one
  step. The locale \<open>fifo\<close> is the contract the threads rely on, and both lists are instances of it.
\<close>

type_synonym addr = nat
type_synonym links = "addr \<Rightarrow> addr option"

subsection \<open>Sector-set lists and queues\<close>

record sset_list =
  sl_head :: "addr option"
  sl_tail :: "addr option"

definition sset_list_init :: sset_list where
  "sset_list_init = \<lparr>sl_head = None, sl_tail = None\<rparr>"

definition sset_list_empty :: "sset_list \<Rightarrow> bool" where
  "sset_list_empty sl \<longleftrightarrow> sl_head sl = None"

definition sset_list_add :: "addr \<Rightarrow> links \<times> sset_list \<Rightarrow> links \<times> sset_list" where
  "sset_list_add sset = (\<lambda>(nx, sl).
     let nx = nx(sset := None) in
     case sl_tail sl of
       Some t \<Rightarrow> (nx(t := Some sset), sl\<lparr>sl_tail := Some sset\<rparr>)
     | None \<Rightarrow> (nx, sl\<lparr>sl_head := Some sset, sl_tail := Some sset\<rparr>))"

definition sset_list_pop :: "links \<times> sset_list \<Rightarrow> addr option \<times> links \<times> sset_list" where
  "sset_list_pop = (\<lambda>(nx, sl).
     case sl_head sl of
       None \<Rightarrow> (None, nx, sl)
     | Some sset \<Rightarrow>
         let sl = sl\<lparr>sl_head := nx sset\<rparr>;
             sl = (if sl_head sl = None then sl\<lparr>sl_tail := None\<rparr> else sl)
         in (Some sset, nx(sset := None), sl))"

record sset_queue =
  sq_ssets :: sset_list

definition sset_queue_init :: sset_queue where
  "sset_queue_init = \<lparr>sq_ssets = sset_list_init\<rparr>"

definition sset_queue_empty :: "sset_queue \<Rightarrow> bool" where
  "sset_queue_empty sq = sset_list_empty (sq_ssets sq)"

definition sset_queue_add :: "addr \<Rightarrow> links \<times> sset_queue \<Rightarrow> links \<times> sset_queue" where
  "sset_queue_add sset = (\<lambda>(nx, sq).
     let (nx, sl) = sset_list_add sset (nx, sq_ssets sq) in (nx, sq\<lparr>sq_ssets := sl\<rparr>))"

definition sset_queue_dequeue :: "links \<times> sset_queue \<Rightarrow> addr option \<times> links \<times> sset_queue" where
  "sset_queue_dequeue = (\<lambda>(nx, sq).
     let (sset, nx, sl) = sset_list_pop (nx, sq_ssets sq) in (sset, nx, sq\<lparr>sq_ssets := sl\<rparr>))"

subsection \<open>Bio lists and queues\<close>

record bio_list =
  bl_head :: "addr option"
  bl_tail :: "addr option"

definition bio_list_init :: bio_list where
  "bio_list_init = \<lparr>bl_head = None, bl_tail = None\<rparr>"

definition bio_list_empty :: "bio_list \<Rightarrow> bool" where
  "bio_list_empty bl \<longleftrightarrow> bl_head bl = None"

definition bio_list_add :: "addr \<Rightarrow> links \<times> bio_list \<Rightarrow> links \<times> bio_list" where
  "bio_list_add bio = (\<lambda>(nx, bl).
     let nx = nx(bio := None) in
     case bl_tail bl of
       Some t \<Rightarrow> (nx(t := Some bio), bl\<lparr>bl_tail := Some bio\<rparr>)
     | None \<Rightarrow> (nx, bl\<lparr>bl_head := Some bio, bl_tail := Some bio\<rparr>))"

definition bio_list_pop :: "links \<times> bio_list \<Rightarrow> addr option \<times> links \<times> bio_list" where
  "bio_list_pop = (\<lambda>(nx, bl).
     case bl_head bl of
       None \<Rightarrow> (None, nx, bl)
     | Some bio \<Rightarrow>
         let bl = bl\<lparr>bl_head := nx bio\<rparr>;
             bl = (if bl_head bl = None then bl\<lparr>bl_tail := None\<rparr> else bl)
         in (Some bio, nx(bio := None), bl))"

record bio_queue =
  bq_bios :: bio_list

definition bio_queue_init :: bio_queue where
  "bio_queue_init = \<lparr>bq_bios = bio_list_init\<rparr>"

definition bio_queue_empty :: "bio_queue \<Rightarrow> bool" where
  "bio_queue_empty bq = bio_list_empty (bq_bios bq)"

definition bio_queue_add :: "addr \<Rightarrow> links \<times> bio_queue \<Rightarrow> links \<times> bio_queue" where
  "bio_queue_add bio = (\<lambda>(nx, bq).
     let (nx, bl) = bio_list_add bio (nx, bq_bios bq) in (nx, bq\<lparr>bq_bios := bl\<rparr>))"

definition bio_queue_dequeue :: "links \<times> bio_queue \<Rightarrow> addr option \<times> links \<times> bio_queue" where
  "bio_queue_dequeue = (\<lambda>(nx, bq).
     let (bio, nx, bl) = bio_list_pop (nx, bq_bios bq) in (bio, nx, bq\<lparr>bq_bios := bl\<rparr>))"

definition bio_overlap :: "bio \<Rightarrow> bio \<Rightarrow> bool" where
  "bio_overlap bio1 bio2 \<longleftrightarrow>
     max (bi_sector bio1) (bi_sector bio2) \<le>
     min (bi_sector bio1 + bi_size bio1 div SECTOR_SIZE) (bi_sector bio2 + bi_size bio2 div SECTOR_SIZE)"

text \<open>
  The scan for a write that overlaps the dequeued read. It follows the links, so it is a partial
  function; on a well-formed queue it ends (below). The write is unlinked and returned, and the
  read takes its place.
\<close>

partial_function (option) delay_scan ::
  "(addr \<Rightarrow> bio) \<Rightarrow> addr \<Rightarrow> addr option \<Rightarrow> addr option \<Rightarrow> links \<Rightarrow> bio_list \<Rightarrow> (addr \<times> links \<times> bio_list) option"
where
  "delay_scan bios bio prev tmp nx bl =
     (case tmp of
        None \<Rightarrow> Some (bio, nx, bl)
      | Some t \<Rightarrow>
          if bio_data_dir (bios t) \<and> bio_overlap (bios bio) (bios t) then
            let (nx, bl) = (case prev of Some p \<Rightarrow> (nx(p := Some bio), bl)
                            | None \<Rightarrow> (nx, bl\<lparr>bl_head := Some bio\<rparr>));
                bl = (if bl_tail bl = Some t then bl\<lparr>bl_tail := Some bio\<rparr> else bl);
                nx = nx(bio := nx t);
                nx = nx(t := None)
            in Some (t, nx, bl)
          else delay_scan bios bio (Some t) (nx t) nx bl)"

text \<open>On an empty queue the C code dereferences a NULL bio: \<open>None\<close>.\<close>

definition bio_queue_dequeue_delay_read ::
  "(addr \<Rightarrow> bio) \<Rightarrow> links \<times> bio_queue \<Rightarrow> (addr \<times> links \<times> bio_queue) option" where
  "bio_queue_dequeue_delay_read bios = (\<lambda>(nx, bq). do {
     let (b, nx, bl) = bio_list_pop (nx, bq_bios bq);
     bio \<leftarrow> b;
     (bio, nx, bl) \<leftarrow> (if \<not> bio_data_dir (bios bio) then delay_scan bios bio None (bl_head bl) nx bl
                        else Some (bio, nx, bl));
     Some (bio, nx, bq\<lparr>bq_bios := bl\<rparr>)
   })"

subsection \<open>Linked lists\<close>

primrec linked :: "links \<Rightarrow> addr option \<Rightarrow> addr list \<Rightarrow> bool" where
  "linked nx p [] \<longleftrightarrow> p = None"
| "linked nx p (x # xs) \<longleftrightarrow> p = Some x \<and> linked nx (nx x) xs"

definition queue_rep :: "links \<Rightarrow> addr option \<Rightarrow> addr option \<Rightarrow> addr list \<Rightarrow> bool" where
  "queue_rep nx hd_p tl_p xs \<longleftrightarrow> linked nx hd_p xs \<and> tl_p = (if xs = [] then None else Some (last xs)) \<and> distinct xs"

lemma linked_frame: "(\<And>x. x \<in> set xs \<Longrightarrow> nx' x = nx x) \<Longrightarrow> linked nx' p xs = linked nx p xs"
  by (induction xs arbitrary: p) auto

lemma linked_append:
  "xs \<noteq> [] \<Longrightarrow> distinct xs \<Longrightarrow> y \<notin> set xs \<Longrightarrow> linked nx p xs \<Longrightarrow>
   linked (nx(y := None, last xs := Some y)) p (xs @ [y])"
proof (induction xs arbitrary: p)
  case (Cons x xs)
  show ?case
  proof (cases "xs = []")
    case False
    then have "last xs \<noteq> x" using Cons.prems(2) by auto
    then show ?thesis using Cons False by auto
  qed (use Cons.prems in auto)
qed simp

lemma queue_rep_add:
  assumes "queue_rep nx hp tp xs" "y \<notin> set xs"
  shows "tp = Some t \<Longrightarrow> queue_rep (nx(y := None, t := Some y)) hp (Some y) (xs @ [y])"
    "tp = None \<Longrightarrow> queue_rep (nx(y := None)) (Some y) (Some y) (xs @ [y])"
  using assms linked_append[of xs y nx hp] by (auto simp: queue_rep_def split: if_splits)

lemma queue_rep_pop:
  assumes "queue_rep nx hp tp (x # xs)"
  shows "hp = Some x" "queue_rep (nx(x := None)) (nx x) (if nx x = None then None else tp) xs"
proof -
  show "hp = Some x" using assms by (simp add: queue_rep_def)
  have "x \<notin> set xs" "linked nx (nx x) xs" using assms by (auto simp: queue_rep_def)
  then have "linked (nx(x := None)) (nx x) xs" by (subst linked_frame[of xs _ nx]) auto
  then show "queue_rep (nx(x := None)) (nx x) (if nx x = None then None else tp) xs"
    using assms by (cases xs) (auto simp: queue_rep_def)
qed

lemma queue_rep_Nil: "queue_rep nx hp tp [] = (hp = None \<and> tp = None)"
  by (auto simp: queue_rep_def)


lemma queue_rep_frame: "(\<And>x. x \<in> set xs \<Longrightarrow> nx' x = nx x) \<Longrightarrow> queue_rep nx' hp tp xs = queue_rep nx hp tp xs"
  using linked_frame[of xs nx' nx hp] by (simp add: queue_rep_def)

subsection \<open>The contract of a queue\<close>

text \<open>
  \<open>rep s xs\<close>: the links and the queue of state \<open>s\<close> hold exactly \<open>xs\<close>, oldest first. Adding appends,
  popping takes the oldest, and neither touches the links of elements outside the queue, so that
  other queues on the same links are kept.
\<close>

locale fifo =
  fixes rep :: "links \<times> 'q \<Rightarrow> addr list \<Rightarrow> bool" and empty :: "'q \<Rightarrow> bool"
    and add :: "addr \<Rightarrow> links \<times> 'q \<Rightarrow> links \<times> 'q" and pop :: "links \<times> 'q \<Rightarrow> addr option \<times> links \<times> 'q"
  assumes empty_iff: "rep s xs \<Longrightarrow> empty (snd s) = (xs = [])"
    and add_rep: "rep s xs \<Longrightarrow> y \<notin> set xs \<Longrightarrow> rep (add y s) (xs @ [y])"
    and add_frame: "rep s xs \<Longrightarrow> z \<notin> insert y (set xs) \<Longrightarrow> fst (add y s) z = fst s z"
    and pop_Nil: "rep s [] \<Longrightarrow> pop s = (None, s)"
    and pop_Cons: "rep s (x # xs) \<Longrightarrow> fst (pop s) = Some x \<and> rep (snd (pop s)) xs"
    and pop_frame: "rep s (x # xs) \<Longrightarrow> z \<notin> set (x # xs) \<Longrightarrow> fst (snd (pop s)) z = fst s z"
begin

primrec drain :: "nat \<Rightarrow> links \<times> 'q \<Rightarrow> addr option list \<times> links \<times> 'q" where
  "drain 0 s = ([], s)"
| "drain (Suc n) s = (let (x, s) = pop s; (ys, s) = drain n s in (x # ys, s))"

lemma adds_rep: "rep s xs \<Longrightarrow> distinct (xs @ ys) \<Longrightarrow> rep (fold add ys s) (xs @ ys)"
proof (induction ys arbitrary: s xs)
  case (Cons y ys)
  then have "rep (add y s) (xs @ [y])" by (intro add_rep) auto
  from Cons.IH[OF this] Cons.prems(2) show ?case by simp
qed simp

lemma drain_rep: "rep s xs \<Longrightarrow> fst (drain (length xs) s) = map Some xs \<and> rep (snd (drain (length xs) s)) []"
proof (induction xs arbitrary: s)
  case (Cons x xs)
  obtain y s1 where p: "pop s = (y, s1)" by (metis prod.exhaust)
  with pop_Cons[OF Cons.prems] have "y = Some x" "rep s1 xs" by auto
  then show ?case using Cons.IH[OF \<open>rep s1 xs\<close>] p by (simp add: case_prod_unfold Let_def)
qed simp

text \<open>What goes in comes out, once and in order.\<close>

lemma fifo_order:
  assumes "rep s xs" "distinct (xs @ ys)"
  shows "fst (drain (length (xs @ ys)) (fold add ys s)) = map Some (xs @ ys) \<and>
    empty (snd (snd (drain (length (xs @ ys)) (fold add ys s))))"
  using drain_rep[OF adds_rep[OF assms]] empty_iff[of _ "[]"] by auto

end

definition sset_rep :: "links \<times> sset_list \<Rightarrow> addr list \<Rightarrow> bool" where
  "sset_rep s xs \<longleftrightarrow> queue_rep (fst s) (sl_head (snd s)) (sl_tail (snd s)) xs"

definition bio_rep :: "links \<times> bio_list \<Rightarrow> addr list \<Rightarrow> bool" where
  "bio_rep s xs \<longleftrightarrow> queue_rep (fst s) (bl_head (snd s)) (bl_tail (snd s)) xs"

lemma rep_tail_None: "queue_rep nx hp None xs \<Longrightarrow> xs = []"
  by (auto simp: queue_rep_def split: if_splits)

lemma rep_tail_in: "queue_rep nx hp (Some t) xs \<Longrightarrow> t \<in> set xs"
  by (auto simp: queue_rep_def split: if_splits)

interpretation ssets: fifo sset_rep sset_list_empty sset_list_add sset_list_pop
proof (unfold_locales, goal_cases)
  case (1 s xs)
  then show ?case by (cases xs) (auto simp: sset_rep_def sset_list_empty_def queue_rep_def)
next
  case (2 s xs y)
  then show ?case using queue_rep_add[of "fst s" "sl_head (snd s)" "sl_tail (snd s)" xs y]
    by (auto simp: sset_rep_def sset_list_add_def case_prod_unfold Let_def split: option.splits)
next
  case (3 s xs z y)
  then show ?case
    by (auto simp: sset_rep_def sset_list_add_def case_prod_unfold Let_def dest: rep_tail_in split: option.splits)
next
  case (4 s)
  then show ?case by (cases s) (simp add: sset_rep_def sset_list_pop_def queue_rep_Nil)
next
  case (5 s x xs)
  then show ?case using queue_rep_pop[of "fst s" "sl_head (snd s)" "sl_tail (snd s)" x xs]
    by (auto simp: sset_rep_def sset_list_pop_def case_prod_unfold Let_def split: if_splits)
next
  case (6 s x xs z)
  then show ?case by (auto simp: sset_rep_def sset_list_pop_def case_prod_unfold Let_def queue_rep_def)
qed

interpretation bios: fifo bio_rep bio_list_empty bio_list_add bio_list_pop
proof (unfold_locales, goal_cases)
  case (1 s xs)
  then show ?case by (cases xs) (auto simp: bio_rep_def bio_list_empty_def queue_rep_def)
next
  case (2 s xs y)
  then show ?case using queue_rep_add[of "fst s" "bl_head (snd s)" "bl_tail (snd s)" xs y]
    by (auto simp: bio_rep_def bio_list_add_def case_prod_unfold Let_def split: option.splits)
next
  case (3 s xs z y)
  then show ?case
    by (auto simp: bio_rep_def bio_list_add_def case_prod_unfold Let_def dest: rep_tail_in split: option.splits)
next
  case (4 s)
  then show ?case by (cases s) (simp add: bio_rep_def bio_list_pop_def queue_rep_Nil)
next
  case (5 s x xs)
  then show ?case using queue_rep_pop[of "fst s" "bl_head (snd s)" "bl_tail (snd s)" x xs]
    by (auto simp: bio_rep_def bio_list_pop_def case_prod_unfold Let_def split: if_splits)
next
  case (6 s x xs z)
  then show ?case by (auto simp: bio_rep_def bio_list_pop_def case_prod_unfold Let_def queue_rep_def)
qed

subsection \<open>Dequeuing past a read\<close>

text \<open>
  What the scan does, on lists: the first element that satisfies \<open>q\<close> leaves the list and the read
  takes its place; if there is none, the read itself leaves.
\<close>

fun promote :: "(addr \<Rightarrow> bool) \<Rightarrow> addr \<Rightarrow> addr list \<Rightarrow> addr \<times> addr list" where
  "promote q r [] = (r, [])"
| "promote q r (t # zs) = (if q t then (t, r # zs) else let (u, ys) = promote q r zs in (u, t # ys))"

definition delay_dequeue :: "(addr \<Rightarrow> bio) \<Rightarrow> addr list \<Rightarrow> addr \<times> addr list" where
  "delay_dequeue bs xs =
     (let r = hd xs in
      if bio_data_dir (bs r) then (r, tl xs)
      else promote (\<lambda>t. bio_data_dir (bs t) \<and> bio_overlap (bs r) (bs t)) r (tl xs))"

lemma promote_set: "insert (fst (promote q r zs)) (set (snd (promote q r zs))) = insert r (set zs)"
  by (induction zs) (auto simp: case_prod_unfold Let_def)

lemma promote_distinct:
  "distinct (r # zs) \<Longrightarrow> distinct (fst (promote q r zs) # snd (promote q r zs))"
proof (induction zs)
  case (Cons t zs)
  then show ?case using promote_set[of q r zs] by (auto simp: case_prod_unfold Let_def)
qed simp

lemma promote_none: "fst (promote q r zs) = r \<Longrightarrow> r \<notin> set zs \<Longrightarrow> (\<forall>t \<in> set zs. \<not> q t) \<and> snd (promote q r zs) = zs"
  by (induction zs) (auto simp: case_prod_unfold Let_def split: if_splits)

lemma promote_cases:
  assumes "promote q r zs = (t, ys)"
  obtains (none) "t = r" "ys = zs" "\<forall>z \<in> set zs. \<not> q z" | (overtake) us vs where "zs = us @ t # vs" "ys = us @ r # vs" "q t"
proof -
  have "promote q r zs = (t, ys) \<Longrightarrow> (t = r \<and> ys = zs \<and> (\<forall>z \<in> set zs. \<not> q z)) \<or> (\<exists>us vs. zs = us @ t # vs \<and> ys = us @ r # vs \<and> q t)"
  proof (induction zs arbitrary: ys)
    case (Cons z zs)
    show ?case
    proof (cases "q z")
      case True
      then have "z # zs = [] @ t # zs" "ys = [] @ r # zs" "q t" using Cons.prems by auto
      then show ?thesis by blast
    next
      case False
      then obtain ys' where "promote q r zs = (t, ys')" "ys = z # ys'" using Cons.prems by (auto split: prod.splits)
      with Cons.IH[OF this(1)] False show ?thesis by (metis append_Cons set_ConsD)
    qed
  qed auto
  with assms show thesis using none overtake by blast
qed

lemma delay_dequeue_cases:
  assumes "delay_dequeue bs xs = (t, ys)" "xs \<noteq> []"
  obtains (head) "xs = t # ys" "bio_data_dir (bs t)"
    | (overtake) r us vs where "xs = r # us @ t # vs" "ys = us @ r # vs" "bio_data_dir (bs t)" "\<not> bio_data_dir (bs r)"
    | (read) "xs = t # ys" "\<not> bio_data_dir (bs t)" "\<forall>u \<in> set ys. bio_data_dir (bs u) \<longrightarrow> \<not> bio_overlap (bs t) (bs u)"
proof -
  obtain r zs where xs: "xs = r # zs" using assms(2) by (cases xs) auto
  show thesis
  proof (cases "bio_data_dir (bs r)")
    case True
    then show thesis using assms(1) xs head by (simp add: delay_dequeue_def)
  next
    case False
    then have "promote (\<lambda>t. bio_data_dir (bs t) \<and> bio_overlap (bs r) (bs t)) r zs = (t, ys)" using assms(1) xs by (simp add: delay_dequeue_def)
    then show thesis
    proof (cases rule: promote_cases)
      case none
      then show thesis using read xs False by simp
    next
      case p: (overtake us vs)
      show thesis by (rule overtake[of r us vs]) (use p xs False in auto)
    qed
  qed
qed

lemma linked_swap:
  assumes "linked nx p (ys @ t # zs)" "distinct (ys @ t # zs)" "r \<notin> set (ys @ t # zs)"
  shows "linked ((if ys = [] then nx else nx(last ys := Some r))(r := nx t, t := None))
    (if ys = [] then Some r else p) (ys @ r # zs)"
  using assms
proof (induction ys arbitrary: p)
  case Nil
  then have "linked (nx(r := nx t, t := None)) (nx t) zs" by (subst linked_frame[of zs _ nx]) auto
  with Nil show ?case by (auto simp: fun_upd_def)
next
  case (Cons y ys)
  show ?case
  proof (cases "ys = []")
    case True
    have "linked (nx(y := Some r, r := nx t, t := None)) (nx t) zs"
      using Cons.prems True by (subst linked_frame[of zs _ nx]) auto
    then show ?thesis using Cons.prems True by (auto simp: fun_upd_def)
  next
    case False
    then have "y \<noteq> last ys" "y \<noteq> t" "y \<noteq> r" using Cons.prems by auto
    then show ?thesis using Cons.IH[of "nx y"] Cons.prems False by auto
  qed
qed

lemma delay_scan_ok:
  assumes "bio_rep (nx, bl) (ys @ zs)" "r \<notin> set (ys @ zs)" "linked nx tmp zs"
    and "prev = (if ys = [] then None else Some (last ys))"
  shows "\<exists>nx' bl'. delay_scan bs r prev tmp nx bl =
      Some (fst (promote (\<lambda>t. bio_data_dir (bs t) \<and> bio_overlap (bs r) (bs t)) r zs), nx', bl') \<and>
    bio_rep (nx', bl') (ys @ snd (promote (\<lambda>t. bio_data_dir (bs t) \<and> bio_overlap (bs r) (bs t)) r zs))"
  using assms
proof (induction zs arbitrary: ys prev tmp)
  case Nil
  then show ?case by (subst delay_scan.simps) simp
next
  case (Cons t zs)
  let ?q = "\<lambda>t. bio_data_dir (bs t) \<and> bio_overlap (bs r) (bs t)"
  have tmp: "tmp = Some t" "linked nx (nx t) zs" using Cons.prems(3) by simp_all
  show ?case
  proof (cases "?q t")
    case False
    have "bio_rep (nx, bl) ((ys @ [t]) @ zs)" "r \<notin> set ((ys @ [t]) @ zs)" using Cons.prems by simp_all
    from Cons.IH[OF this tmp(2), of "Some t"] obtain nx' bl' where
      "delay_scan bs r (Some t) (nx t) nx bl = Some (fst (promote ?q r zs), nx', bl')"
      "bio_rep (nx', bl') (ys @ t # snd (promote ?q r zs))" by auto
    moreover have "delay_scan bs r prev tmp nx bl = delay_scan bs r (Some t) (nx t) nx bl"
      using False tmp(1) by (subst delay_scan.simps) auto
    ultimately show ?thesis using False by (auto simp: case_prod_unfold Let_def)
  next
    case True
    let ?nx = "(if ys = [] then nx else nx(last ys := Some r))(r := nx t, t := None)"
    let ?bl = "\<lparr>bl_head = (if ys = [] then Some r else bl_head bl), bl_tail = (if bl_tail bl = Some t then Some r else bl_tail bl)\<rparr>"
    have d: "distinct (ys @ t # zs)" "bl_tail bl = Some (last (ys @ t # zs))" "linked nx (bl_head bl) (ys @ t # zs)"
      using Cons.prems(1) by (simp_all add: bio_rep_def queue_rep_def)
    have lt: "ys \<noteq> [] \<Longrightarrow> last ys \<noteq> t" using d(1) by auto
    have "delay_scan bs r prev tmp nx bl = Some (t, ?nx, ?bl)"
      using True tmp(1) Cons.prems(4) lt
      by (subst delay_scan.simps) (cases bl; auto simp: Let_def)
    moreover have "bio_rep (?nx, ?bl) (ys @ r # zs)"
      using linked_swap[OF d(3,1) Cons.prems(2)] d Cons.prems(2)
      by (auto simp: bio_rep_def queue_rep_def)
    ultimately show ?thesis using True by simp
  qed
qed

lemma delay_dequeue_refines:
  assumes "bio_rep (nx, bq_bios bq) xs" "xs \<noteq> []"
  shows "\<exists>nx' bq'. bio_queue_dequeue_delay_read bs (nx, bq) = Some (fst (delay_dequeue bs xs), nx', bq') \<and>
    bio_rep (nx', bq_bios bq') (snd (delay_dequeue bs xs))"
proof -
  obtain r zs where xs: "xs = r # zs" using assms(2) by (cases xs) auto
  obtain o' nx1 bl1 where p: "bio_list_pop (nx, bq_bios bq) = (o', nx1, bl1)" by (metis prod_cases3)
  have o: "o' = Some r" "bio_rep (nx1, bl1) zs" using bios.pop_Cons[of "(nx, bq_bios bq)" r zs] assms(1) p xs by auto
  have r: "r \<notin> set zs" "linked nx1 (bl_head bl1) zs"
    using assms(1) xs o(2) by (auto simp: bio_rep_def queue_rep_def)
  show ?thesis
  proof (cases "bio_data_dir (bs r)")
    case True
    then show ?thesis using p o xs by (auto simp: bio_queue_dequeue_delay_read_def delay_dequeue_def)
  next
    case False
    obtain nx2 bl2 where "delay_scan bs r None (bl_head bl1) nx1 bl1 = Some (fst (delay_dequeue bs xs), nx2, bl2)"
      "bio_rep (nx2, bl2) (snd (delay_dequeue bs xs))"
      using delay_scan_ok[of nx1 bl1 "[]" zs r "bl_head bl1" None bs] o(2) r xs False
      by (auto simp: delay_dequeue_def)
    then show ?thesis using p o(1) False by (auto simp: bio_queue_dequeue_delay_read_def)
  qed
qed

subsection \<open>Properties\<close>

text \<open>
  C11: the bio queue is a first-in first-out queue. A queue that holds \<open>xs\<close> holds \<open>xs @ [b]\<close> after
  \<open>b\<close> was added; it is empty exactly when \<open>xs\<close> is; dequeuing takes the oldest bio and leaves the
  rest. A second queue \<open>zs\<close> over the same links, with other bios in it, is not disturbed by either.
\<close>

theorem bio_queue_fifo:
  assumes "bio_rep (nx, bq_bios bq) xs" "b \<notin> set xs"
    and "bio_rep (nx, bl2) zs" "set zs \<inter> set xs = {}" "b \<notin> set zs"
  shows "bio_queue_empty bq = (xs = []) \<and>
    (case bio_queue_add b (nx, bq) of (nx', bq') \<Rightarrow> bio_rep (nx', bq_bios bq') (xs @ [b]) \<and> bio_rep (nx', bl2) zs) \<and>
    (case bio_queue_dequeue (nx, bq) of (x, nx', bq') \<Rightarrow>
       (xs = [] \<longrightarrow> x = None) \<and>
       (xs \<noteq> [] \<longrightarrow> x = Some (hd xs) \<and> bio_rep (nx', bq_bios bq') (tl xs) \<and> bio_rep (nx', bl2) zs))"
proof -
  have fr: "bio_rep (nx', bl2) zs" if "\<And>z. z \<in> set zs \<Longrightarrow> nx' z = nx z" for nx'
    using assms(3) queue_rep_frame[of zs nx' nx, OF that] by (simp add: bio_rep_def)
  obtain nx1 bl1 where a: "bio_list_add b (nx, bq_bios bq) = (nx1, bl1)" by (metis prod.exhaust)
  have "bio_rep (nx1, bl1) (xs @ [b])" using bios.add_rep[OF assms(1,2)] a by simp
  moreover have "bio_rep (nx1, bl2) zs"
    using bios.add_frame[OF assms(1), of _ b] a assms(4,5) by (intro fr) (metis disjoint_iff fst_conv insertE)
  moreover obtain x nx2 bl3 where p: "bio_list_pop (nx, bq_bios bq) = (x, nx2, bl3)" by (metis prod_cases3)
  have "x = Some (hd xs) \<and> bio_rep (nx2, bl3) (tl xs) \<and> bio_rep (nx2, bl2) zs" if "xs \<noteq> []"
  proof -
    have xs: "xs = hd xs # tl xs" using that by simp
    have r: "bio_rep (nx, bq_bios bq) (hd xs # tl xs)" using assms(1) xs by simp
    have "nx2 z = nx z" if "z \<in> set zs" for z
      using bios.pop_frame[OF r, of z] p that assms(4) xs by (metis disjoint_iff fst_conv snd_conv)
    then show ?thesis using bios.pop_Cons[OF r] p fr by simp
  qed
  moreover have "x = None" if "xs = []" using bios.pop_Nil[of "(nx, bq_bios bq)"] assms(1) that p by simp
  ultimately show ?thesis using bios.empty_iff[OF assms(1)] a p
    by (simp add: bio_queue_empty_def bio_queue_add_def bio_queue_dequeue_def)
qed

text \<open>The links and the queue of two bios, 4 before 6.\<close>

definition two_bios :: "links \<times> bio_queue" where
  "two_bios = ((\<lambda>_. None)(4 := Some 6), \<lparr>bq_bios = \<lparr>bl_head = Some 4, bl_tail = Some 6\<rparr>\<rparr>)"

definition two_bs :: "addr \<Rightarrow> bio" where
  "two_bs a = \<lparr>bi_sector = a * 100, bi_size = 4096, bi_idx = 0, bi_io_vec = [], bi_bdev = 0,
     bi_op = (if a = 4 then REQ_OP_READ else REQ_OP_WRITE), bi_passthrough = False, bi_private = 0, bi_end_io = 0\<rparr>"

lemma two_bios_rep: "bio_rep (fst two_bios, bq_bios (snd two_bios)) [4, 6]"
  by (simp add: two_bios_def bio_rep_def queue_rep_def)

theorem bio_queue_fifo_witness:
  "case bio_queue_add 9 two_bios of (nx', bq') \<Rightarrow> bio_rep (nx', bq_bios bq') [4, 6, 9]"
  using bio_queue_fifo[OF two_bios_rep, of 9 bio_list_init "[]"]
  by (auto simp: bio_rep_def queue_rep_def bio_list_init_def)

text \<open>
  C12: dequeuing past a read ends and loses nothing. On every non-empty queue the scan along the
  links ends; the bio returned and the bios left are together those of the queue, each once; and the
  links and pointers left form a queue again.
\<close>

theorem dequeue_delay_read_total:
  assumes "bio_rep (nx, bq_bios bq) xs" "xs \<noteq> []"
  shows "\<exists>b nx' bq' ys. bio_queue_dequeue_delay_read bs (nx, bq) = Some (b, nx', bq') \<and>
    bio_rep (nx', bq_bios bq') ys \<and> distinct (b # ys) \<and> set (b # ys) = set xs"
proof -
  obtain r zs where xs: "xs = r # zs" using assms(2) by (cases xs) auto
  let ?d = "delay_dequeue bs xs"
  have d: "distinct (r # zs)" using assms(1) xs by (simp add: bio_rep_def queue_rep_def)
  have "distinct (fst ?d # snd ?d)" "set (fst ?d # snd ?d) = set xs"
    using promote_distinct[OF d] promote_set d xs by (simp_all add: delay_dequeue_def Let_def)
  then show ?thesis using delay_dequeue_refines[OF assms, of bs] by blast
qed

theorem dequeue_delay_read_total_witness:
  "\<exists>b nx' bq' ys. bio_queue_dequeue_delay_read two_bs two_bios = Some (b, nx', bq') \<and>
    bio_rep (nx', bq_bios bq') ys \<and> distinct (b # ys) \<and> set (b # ys) = {4, 6}"
  using dequeue_delay_read_total[OF two_bios_rep, of two_bs] by simp



text \<open>
  The sector-set queue is a first-in first-out queue.
\<close>

lemma sset_queue_fifo:
  assumes "sset_rep (nx, sq_ssets sq) xs" "b \<notin> set xs"
  shows "sset_queue_empty sq = (xs = []) \<and>
    (case sset_queue_add b (nx, sq) of (nx', sq') \<Rightarrow> sset_rep (nx', sq_ssets sq') (xs @ [b])) \<and>
    (case sset_queue_dequeue (nx, sq) of (x, nx', sq') \<Rightarrow>
       (xs = [] \<longrightarrow> x = None) \<and> (xs \<noteq> [] \<longrightarrow> x = Some (hd xs) \<and> sset_rep (nx', sq_ssets sq') (tl xs)))"
proof -
  obtain nx1 sl1 where a: "sset_list_add b (nx, sq_ssets sq) = (nx1, sl1)" by (metis prod.exhaust)
  obtain x nx2 sl3 where p: "sset_list_pop (nx, sq_ssets sq) = (x, nx2, sl3)" by (metis prod_cases3)
  have "sset_rep (nx1, sl1) (xs @ [b])" using ssets.add_rep[OF assms] a by simp
  moreover have "x = Some (hd xs) \<and> sset_rep (nx2, sl3) (tl xs)" if "xs \<noteq> []"
    using ssets.pop_Cons[of "(nx, sq_ssets sq)" "hd xs" "tl xs"] assms(1) that p by simp
  moreover have "x = None" if "xs = []" using ssets.pop_Nil[of "(nx, sq_ssets sq)"] assms(1) that p by simp
  ultimately show ?thesis using ssets.empty_iff[OF assms(1)] a p
    by (simp add: sset_queue_empty_def sset_queue_add_def sset_queue_dequeue_def)
qed

end
