(* ===== verification/Snap_Handle.thy ===== *)
theory Snap_Handle
  imports Bio Cow_Life
begin

text \<open>
  The handlers the kernel threads run on a request (\<^verbatim>\<open>src/src/snap_handle.c\<close>): reading from the
  snapshot, saving the blocks of a captured write, and marking the blocks of a sector set.

  The block layer underneath is the parameter \<open>submit\<close>: \<^verbatim>\<open>submit_bio_wait\<close> on the base device, from
  the device content, the bio and the pages to a code, the bio and the pages. \<open>submit_ok\<close> is what it
  documents for a read: on success the segments hold the device bytes, and nothing else changes but
  the iterator and the completion fields of the bio.
\<close>

type_synonym submit = "nat \<Rightarrow> buf \<Rightarrow> bio \<Rightarrow> pages \<Rightarrow> int \<times> bio \<times> pages"

definition submit_ok :: "submit \<Rightarrow> bool" where
  "submit_ok submit \<longleftrightarrow>
     (\<forall>t D b P. case submit t D b P of (ret, b', P') \<Rightarrow>
        bi_io_vec b' = bi_io_vec b \<and>
        (ret = 0 \<longrightarrow> fresh_bio b \<longrightarrow> bi_op b = REQ_OP_READ \<longrightarrow>
           P' = fill_segs D (bi_io_vec b) (bi_sector b * SECTOR_SIZE) P))"

definition ram_submit :: submit where
  "ram_submit t D b P =
     (0, b\<lparr>bi_sector := bio_last_sector b, bi_size := 0, bi_idx := length (bi_io_vec b)\<rparr>,
      fill_segs D (bi_io_vec b) (bi_sector b * SECTOR_SIZE) P)"

lemma ram_submit_ok: "submit_ok ram_submit"
  by (simp add: submit_ok_def ram_submit_def)

subsection \<open>The read mode\<close>

abbreviation (input) READ_MODE_COW_FILE :: int where "READ_MODE_COW_FILE \<equiv> 1"
abbreviation (input) READ_MODE_BASE_DEVICE :: int where "READ_MODE_BASE_DEVICE \<equiv> 2"
abbreviation (input) READ_MODE_MIXED :: int where "READ_MODE_MIXED \<equiv> 3"

text \<open>
  The inner loop over one segment and the loop over the segments. \<open>ModeGo\<close> carries the mode so far
  and the end byte; \<open>ModeRet\<close> is a return from inside the loops, with the code and the mode.
\<close>

datatype mode_ctl = ModeGo int nat | ModeRet int int

function get_mode_seg ::
  "kernel \<Rightarrow> nat \<Rightarrow> nat \<Rightarrow> int \<Rightarrow> nat \<Rightarrow> world \<Rightarrow> cow_manager \<Rightarrow> (mode_ctl \<times> world \<times> cow_manager) option" where
  "get_mode_seg K len bytes start_mode curr_end_byte w cm =
     (if \<not> bytes < len then Some (ModeGo start_mode curr_end_byte, w, cm)
      else do {
        let curr_byte = curr_end_byte;
        let curr_end_byte = curr_byte + min (COW_BLOCK_SIZE - curr_byte mod COW_BLOCK_SIZE) (len - bytes);
        (ret, block_mapping, w, cm) \<leftarrow> cow_read_mapping K (curr_byte div COW_BLOCK_SIZE) w cm;
        if ret \<noteq> 0 then Some (ModeRet ret 0, w, cm)
        else if start_mode \<noteq> 0 \<and>
                ((start_mode = READ_MODE_COW_FILE \<and> block_mapping = 0) \<or>
                 (start_mode = READ_MODE_BASE_DEVICE \<and> block_mapping \<noteq> 0))
             then Some (ModeRet 0 READ_MODE_MIXED, w, cm)
        else get_mode_seg K len (bytes + (curr_end_byte - curr_byte))
               (if start_mode \<noteq> 0 then start_mode
                else if block_mapping \<noteq> 0 then READ_MODE_COW_FILE else READ_MODE_BASE_DEVICE)
               curr_end_byte w cm
      })"
  by pat_completeness auto
termination
  by (relation "measure (\<lambda>(K, len, bytes, _). len - bytes)") auto

declare get_mode_seg.simps [simp del]

fun get_mode_segs ::
  "kernel \<Rightarrow> bio_vec list \<Rightarrow> int \<Rightarrow> nat \<Rightarrow> world \<Rightarrow> cow_manager \<Rightarrow> (mode_ctl \<times> world \<times> cow_manager) option" where
  "get_mode_segs K [] start_mode cur w cm = Some (ModeGo start_mode cur, w, cm)"
| "get_mode_segs K (v # vs) start_mode cur w cm = do {
     (c, w, cm) \<leftarrow> get_mode_seg K (bv_len v) 0 start_mode cur w cm;
     case c of ModeRet ret mode \<Rightarrow> Some (ModeRet ret mode, w, cm)
     | ModeGo start_mode cur \<Rightarrow> get_mode_segs K vs start_mode cur w cm
   }"

definition snap_read_bio_get_mode ::
  "kernel \<Rightarrow> bio \<Rightarrow> world \<Rightarrow> cow_manager \<Rightarrow> (int \<times> int \<times> world \<times> cow_manager) option" where
  "snap_read_bio_get_mode K b w cm = do {
     (c, w, cm) \<leftarrow> get_mode_segs K (bio_segments b) 0 (bi_sector b * SECTOR_SIZE) w cm;
     case c of ModeRet ret mode \<Rightarrow> Some (ret, mode, w, cm) | ModeGo start_mode _ \<Rightarrow> Some (0, start_mode, w, cm)
   }"

subsection \<open>Reading from the snapshot\<close>

definition put_page :: "pages \<Rightarrow> page_id \<Rightarrow> nat \<Rightarrow> nat \<Rightarrow> buf \<Rightarrow> pages" where
  "put_page P pg off len b = P(pg := \<lambda>x. if off \<le> x \<and> x < off + len then b (x - off) else P pg x)"

text \<open>
  One turn of the inner loop: look the block up and, if it is saved, read the bytes into the page,
  over the live data; the loop then moves on by the bytes covered.
\<close>

definition read_cow_chunk ::
  "kernel \<Rightarrow> page_id \<Rightarrow> nat \<Rightarrow> nat \<Rightarrow> nat \<Rightarrow> nat \<Rightarrow> pages \<Rightarrow> world \<Rightarrow> cow_manager \<Rightarrow>
     (int \<times> pages \<times> world \<times> cow_manager) option" where
  "read_cow_chunk K pg bvec_off cur_block block_off bytes_to_copy P w cm = do {
     (ret, block_mapping, w, cm) \<leftarrow> cow_read_mapping K cur_block w cm;
     if ret \<noteq> 0 then Some (ret, P, w, cm)
     else if block_mapping \<noteq> 0 then
       let (ret, b, w, cm) = cow_read_data K block_mapping block_off bytes_to_copy w cm
       in Some (ret, put_page P pg bvec_off bytes_to_copy b, w, cm)
     else Some (0, P, w, cm)
   }"

function read_cow_bvec ::
  "kernel \<Rightarrow> bio_vec \<Rightarrow> nat \<Rightarrow> nat \<Rightarrow> pages \<Rightarrow> world \<Rightarrow> cow_manager \<Rightarrow>
     (int \<times> nat \<times> pages \<times> world \<times> cow_manager) option" where
  "read_cow_bvec K bvec bvec_off cur_sect P w cm =
     (if \<not> bvec_off < bv_offset bvec + bv_len bvec then Some (0, cur_sect, P, w, cm)
      else do {
        let cur_block = (cur_sect * SECTOR_SIZE) div COW_BLOCK_SIZE;
        let block_off = (cur_sect * SECTOR_SIZE) mod COW_BLOCK_SIZE;
        let bytes_to_copy = min (bv_offset bvec + bv_len bvec - bvec_off) (COW_BLOCK_SIZE - block_off);
        (ret, P, w, cm) \<leftarrow> read_cow_chunk K (bv_page bvec) bvec_off cur_block block_off bytes_to_copy P w cm;
        if ret \<noteq> 0 then Some (ret, cur_sect, P, w, cm)
        else read_cow_bvec K bvec (bvec_off + bytes_to_copy) (cur_sect + bytes_to_copy div SECTOR_SIZE) P w cm
      })"
  by pat_completeness auto
termination
  by (relation "measure (\<lambda>(K, bvec, bvec_off, _). bv_offset bvec + bv_len bvec - bvec_off)") auto

declare read_cow_bvec.simps [simp del]

fun read_cow_bvecs ::
  "kernel \<Rightarrow> bio_vec list \<Rightarrow> nat \<Rightarrow> pages \<Rightarrow> world \<Rightarrow> cow_manager \<Rightarrow> (int \<times> pages \<times> world \<times> cow_manager) option" where
  "read_cow_bvecs K [] cur_sect P w cm = Some (0, P, w, cm)"
| "read_cow_bvecs K (v # vs) cur_sect P w cm = do {
     (ret, cur_sect, P, w, cm) \<leftarrow> read_cow_bvec K v (bv_offset v) cur_sect P w cm;
     if ret \<noteq> 0 then Some (ret, P, w, cm) else read_cow_bvecs K vs cur_sect P w cm
   }"

definition snap_handle_read_bio ::
  "kernel \<Rightarrow> submit \<Rightarrow> nat \<Rightarrow> buf \<Rightarrow> bio \<Rightarrow> pages \<Rightarrow> world \<Rightarrow> cow_manager \<Rightarrow>
     (int \<times> bio \<times> pages \<times> world \<times> cow_manager) option" where
  "snap_handle_read_bio K submit base_dev D bio P w cm = do {
     let orig_private = bi_private bio;
     let orig_end_io = bi_end_io bio;
     let orig_iter = (bi_idx bio, bi_size bio, bi_sector bio);
     let bio = bio\<lparr>bi_bdev := base_dev, bi_op := REQ_OP_READ, bi_passthrough := False\<rparr>;
     (ret, mode, w, cm) \<leftarrow> snap_read_bio_get_mode K bio w cm;
     let (ret, bio, P, w) =
       (if ret \<noteq> 0 then (ret, bio, P, w)
        else if mode \<noteq> READ_MODE_COW_FILE then
          let (ret, bio, P) = submit (clock w) D bio P in (ret, bio, P, ktick w)
        else (0, bio, P, w));
     let reset = (\<lambda>bio. case orig_iter of (i, sz, s) \<Rightarrow> bio\<lparr>bi_idx := i, bi_size := sz, bi_sector := s\<rparr>);
     (ret, bio, P, w, cm) \<leftarrow>
       (if ret = 0 \<and> mode \<noteq> READ_MODE_BASE_DEVICE then do {
          let bio = reset bio;
          (ret, P, w, cm) \<leftarrow> read_cow_bvecs K (bi_io_vec bio) (bi_sector bio) P w cm;
          Some (ret, bio, P, w, cm)
        } else Some (ret, bio, P, w, cm));
     let bio = (if ret \<noteq> 0 then reset bio else bio);
     Some (ret, bio\<lparr>bi_private := orig_private, bi_end_io := orig_end_io\<rparr>, P, w, cm)
   }"

subsection \<open>Saving a captured write and marking a sector set\<close>

text \<open>
  Each segment of a captured write passes the page it maps to the manager once per block it spans;
  the running block number is carried from segment to segment.
\<close>

fun write_bio_bvecs ::
  "kernel \<Rightarrow> pages \<Rightarrow> bio_vec list \<Rightarrow> nat \<Rightarrow> world \<times> cow_manager \<Rightarrow> (int \<times> world \<times> cow_manager) option" where
  "write_bio_bvecs K P [] end_block s = Some (0, s)"
| "write_bio_bvecs K P (v # vs) end_block s = do {
     let start_block = end_block;
     let end_block = start_block + bv_len v div COW_BLOCK_SIZE;
     (ret, s) \<leftarrow> block_loop (\<lambda>b (w, cm). cow_write_current K b (P (bv_page v)) w cm)
                   start_block (end_block - start_block) s;
     if ret \<noteq> 0 then Some (ret, s) else write_bio_bvecs K P vs end_block s
   }"

definition snap_handle_write_bio :: "kernel \<Rightarrow> bio \<Rightarrow> pages \<Rightarrow> world \<Rightarrow> cow_manager \<Rightarrow> cow_res" where
  "snap_handle_write_bio K bio P w cm =
     write_bio_bvecs K P (bi_io_vec bio) (SECTOR_TO_BLOCK (bi_sector bio)) (w, cm)"

record sector_set =
  ss_sect :: nat
  ss_len :: nat

definition inc_handle_sset :: "kernel \<Rightarrow> sector_set \<Rightarrow> world \<Rightarrow> cow_manager \<Rightarrow> cow_res" where
  "inc_handle_sset K sset w cm =
     (let start_block = SECTOR_TO_BLOCK (ss_sect sset);
          end_block = NUM_SEGMENTS (ss_sect sset + ss_len sset) 3
      in block_loop (\<lambda>b (w, cm). cow_write_filler_mapping K b w cm) start_block (end_block - start_block) (w, cm))"

subsection \<open>What the handlers do to the store\<close>

lemma fold_mark: "fold (\<lambda>b m. m(b := v)) [a..<e] m = (\<lambda>b. if a \<le> b \<and> b < e then v else m b)"
  by (induction e) (auto simp: fun_eq_iff less_Suc_eq)

lemma NUM_SEGMENTS_3: "NUM_SEGMENTS x 3 = (x + 7) div 8"
  by (simp add: NUM_SEGMENTS_div)

lemma sset_blocks:
  assumes "0 < len"
  shows "(SECTOR_TO_BLOCK sect \<le> b \<and> b < NUM_SEGMENTS (sect + len) 3) \<longleftrightarrow>
    (\<exists>s. sect \<le> s \<and> s < sect + len \<and> SECTOR_TO_BLOCK s = b)"
proof
  assume l: "SECTOR_TO_BLOCK sect \<le> b \<and> b < NUM_SEGMENTS (sect + len) 3"
  let ?s = "max sect (8 * b)"
  have "sect \<le> ?s" "?s < sect + len" "?s div 8 = b"
    using l assms by (auto simp: SECTOR_TO_BLOCK_def NUM_SEGMENTS_3 max_def)
  then show "\<exists>s. sect \<le> s \<and> s < sect + len \<and> SECTOR_TO_BLOCK s = b" unfolding SECTOR_TO_BLOCK_def by blast
next
  assume "\<exists>s. sect \<le> s \<and> s < sect + len \<and> SECTOR_TO_BLOCK s = b"
  then show "SECTOR_TO_BLOCK sect \<le> b \<and> b < NUM_SEGMENTS (sect + len) 3"
    by (auto simp: SECTOR_TO_BLOCK_def NUM_SEGMENTS_3 intro: div_le_mono)
qed

lemma inc_handle_sset_ok:
  assumes "kernel_ok K" "cow_wf cm" "NUM_SEGMENTS (ss_sect ss + ss_len ss) 3 \<le> capacity cm" "0 < ss_len ss"
  shows "\<exists>ret w' cm'. inc_handle_sset K ss w cm = Some (ret, w', cm') \<and> capacity cm' = capacity cm \<and>
    (ret = 0 \<longrightarrow> cow_wf cm' \<and> same_file w cm w' cm' \<and> (\<forall>b. cow_map w' cm' b =
       (if \<exists>s. ss_sect ss \<le> s \<and> s < ss_sect ss + ss_len ss \<and> SECTOR_TO_BLOCK s = b then 1 else cow_map w cm b)))"
proof -
  let ?a = "SECTOR_TO_BLOCK (ss_sect ss)" and ?e = "NUM_SEGMENTS (ss_sect ss + ss_len ss) 3"
  have le: "?a \<le> ?e" using assms(4) by (simp add: SECTOR_TO_BLOCK_def NUM_SEGMENTS_3 div_le_mono)
  have "\<exists>r s'. block_loop (\<lambda>b (w, cm). cow_write_filler_mapping K b w cm) ?a (?e - ?a) (w, cm) = Some (r, s') \<and>
      (case s' of (w, cm) \<Rightarrow> capacity cm) = capacity cm \<and>
      (r = 0 \<longrightarrow> (case s' of (w', cm') \<Rightarrow> kernel_ok K \<and> cow_wf cm' \<and> same_file w cm w' cm') \<and>
        (case s' of (w, cm) \<Rightarrow> cow_map w cm) = fold (\<lambda>b m. m(b := 1)) [?a..<?a + (?e - ?a)] (cow_map w cm))"
    using marking.loop_ok[of K w cm "(w, cm)" ?a "?e - ?a"] assms le by simp
  then obtain r w' cm' where "inc_handle_sset K ss w cm = Some (r, w', cm')" "capacity cm' = capacity cm"
    "r = 0 \<longrightarrow> cow_wf cm' \<and> same_file w cm w' cm' \<and> cow_map w' cm' = fold (\<lambda>b m. m(b := 1)) [?a..<?a + (?e - ?a)] (cow_map w cm)"
    by (auto simp: inc_handle_sset_def)
  then show ?thesis using le unfolding sset_blocks[OF assms(4), symmetric] by (simp add: fold_mark)
qed

lemma cow_read_data_ok:
  assumes K: "kernel_ok K" and inv: "snap_inv w cm" and m: "cow_map w cm b \<noteq> 0" and len: "off + len \<le> 4096" "0 < len"
    and r: "cow_read_data K (cow_map w cm b) off len w cm = (ret, bf, w', cm')"
  shows "cow_stable w cm w' cm'" "ret = 0 \<Longrightarrow> \<exists>d. cow_saved w cm b = Some d \<and> (\<forall>i < len. bf i = d (off + i))"
proof -
  let ?m = "cow_map w cm b"
  have Kr: "kernel_read_ok K" using K by (simp add: kernel_ok_def)
  have "unat ?m < unat (curr_pos cm)" "unat (curr_pos cm) * 4096 \<le> 2 ^ 63 + 4096"
    using inv m by (simp_all add: snap_inv_def word_less_nat_alt)
  then have u: "unat (?m * 4096) = unat ?m * 4096" by (intro unat_mult_block) simp
  obtain ret' d1 where rd: "file_read K (dfilp cm) (unat ?m * 4096 + off) len w = (ret', bf, d1, w')"
    and e: "ret = ret'" "cm' = cm\<lparr>dfilp := d1\<rparr>"
    using r len u by (auto simp: cow_read_data_def split: prod.splits)
  have wf: "cow_wf cm" using inv by (simp add: snap_inv_def)
  show "cow_stable w cm w' cm'"
    using e file_read_inode[OF rd] file_read_data[OF rd] by (auto intro: cow_stable_dfilp[OF wf])
  show "\<exists>d. cow_saved w cm b = Some d \<and> (\<forall>i < len. bf i = d (off + i))" if "ret = 0"
  proof -
    have "ret' = 0" using that e by simp
    from file_read_bytes[OF rd Kr this] obtain d where
      "dfilp cm = Some d" "\<forall>i < len. bf i = data_of w (df_inode d) (unat ?m * 4096 + off + i)" by blast
    then show ?thesis using m len by (auto simp: cow_saved_def block_of_def cow_data_def add.assoc)
  qed
qed


text \<open>The saved copies after a captured write: each block takes the first copy it is given.\<close>

lemma saved_store_put: "store_put m b d b' = (if b' = b \<and> m b = None then Some (block_of d) else m b')"
  by (auto simp: store_put_def)

primrec captured :: "pages \<Rightarrow> bio_vec list \<Rightarrow> nat \<Rightarrow> nat \<Rightarrow> buf option" where
  "captured P [] start b = None"
| "captured P (v # vs) start b =
     (if b = start then Some (block_of (P (bv_page v))) else captured P vs (Suc start) b)"

lemma captured_before: "b < start \<Longrightarrow> captured P vs start b = None"
  by (induction vs arbitrary: start) auto

lemma captured_dom: "captured P vs start b \<noteq> None \<longleftrightarrow> start \<le> b \<and> b < start + length vs"
  by (induction vs arbitrary: start) auto

lemma captured_nth: "start \<le> b \<Longrightarrow> b < start + length vs \<Longrightarrow> captured P vs start b = Some (block_of (P (bv_page (vs ! (b - start)))))"
proof (induction vs arbitrary: start)
  case (Cons v vs)
  then show ?case using Cons.IH[of "Suc start"] by (cases "b = start") (auto simp: Suc_diff_Suc[symmetric] Suc_le_eq)
qed simp

lemma captured_cong:
  "(\<And>v. v \<in> set vs \<Longrightarrow> P' (bv_page v) = P (bv_page v)) \<Longrightarrow> captured P' vs start = captured P vs start"
  by (rule ext) (induction vs arbitrary: start, auto)

lemma write_bio_bvecs_ok:
  assumes K: "kernel_ok K"
  shows "snap_inv w cm \<Longrightarrow> \<forall>v \<in> set vs. bv_len v = COW_BLOCK_SIZE \<Longrightarrow> start + length vs \<le> capacity cm \<Longrightarrow>
    \<exists>ret w' cm'. write_bio_bvecs K P vs start (w, cm) = Some (ret, w', cm') \<and> capacity cm' = capacity cm \<and>
      (ret = 0 \<longrightarrow> snap_inv w' cm' \<and> cow_saved w' cm' = captured P vs start ++ cow_saved w cm)"
proof (induction vs arbitrary: start w cm)
  case Nil
  then show ?case by (simp add: map_add_def fun_eq_iff split: option.splits)
next
  case (Cons v vs)
  have "\<exists>r s'. block_loop (\<lambda>b (w, cm). cow_write_current K b (P (bv_page v)) w cm) start 1 (w, cm) = Some (r, s') \<and>
      (case s' of (w, cm) \<Rightarrow> capacity cm) = capacity cm \<and>
      (r = 0 \<longrightarrow> (case s' of (w, cm) \<Rightarrow> kernel_ok K \<and> snap_inv w cm) \<and>
        (case s' of (w, cm) \<Rightarrow> cow_saved w cm) = fold (\<lambda>b m. store_put m b (P (bv_page v))) [start..<start + 1] (cow_saved w cm))"
    using saving.loop_ok[of K "(w, cm)" start 1 "\<lambda>_. P (bv_page v)"] K Cons.prems by simp
  then obtain r w1 cm1 where s: "block_loop (\<lambda>b (w, cm). cow_write_current K b (P (bv_page v)) w cm) start 1 (w, cm) = Some (r, w1, cm1)"
    "capacity cm1 = capacity cm" "r = 0 \<longrightarrow> snap_inv w1 cm1 \<and> cow_saved w1 cm1 = store_put (cow_saved w cm) start (P (bv_page v))"
    by (auto simp del: block_loop.simps)
  have eq: "write_bio_bvecs K P (v # vs) start (w, cm) =
      (if r \<noteq> 0 then Some (r, w1, cm1) else write_bio_bvecs K P vs (Suc start) (w1, cm1))"
    using s(1) Cons.prems(2) by (simp del: block_loop.simps)
  show ?case
  proof (cases "r = 0")
    case False
    then show ?thesis unfolding eq using s by simp
  next
    case True
    with s have inv1: "snap_inv w1 cm1" and sv: "cow_saved w1 cm1 = store_put (cow_saved w cm) start (P (bv_page v))" by simp_all
    obtain r2 w2 cm2 where "write_bio_bvecs K P vs (Suc start) (w1, cm1) = Some (r2, w2, cm2)" "capacity cm2 = capacity cm1"
      "r2 = 0 \<longrightarrow> snap_inv w2 cm2 \<and> cow_saved w2 cm2 = captured P vs (Suc start) ++ cow_saved w1 cm1"
      using Cons.IH[OF inv1, of "Suc start"] Cons.prems s(2) by auto
    moreover have "captured P vs (Suc start) ++ cow_saved w1 cm1 = captured P (v # vs) start ++ cow_saved w cm"
      by (auto simp: sv map_add_def saved_store_put fun_eq_iff captured_before split: option.splits)
    ultimately show ?thesis unfolding eq using s(2) True by (simp del: captured.simps)
  qed
qed


subsection \<open>The read mode is sound\<close>

text \<open>
  What a mode says of the bytes from \<open>lo\<close> to \<open>hi\<close>: all their blocks are mapped, or none is. No mode
  yet means no byte was looked at.
\<close>

definition mode_sound :: "(nat \<Rightarrow> u64) \<Rightarrow> int \<Rightarrow> nat \<Rightarrow> nat \<Rightarrow> bool" where
  "mode_sound m mode lo hi \<longleftrightarrow> (mode = 0 \<longrightarrow> hi = lo) \<and>
     (mode = READ_MODE_COW_FILE \<longrightarrow> (\<forall>a. lo \<le> a \<and> a < hi \<longrightarrow> m (a div COW_BLOCK_SIZE) \<noteq> 0)) \<and>
     (mode = READ_MODE_BASE_DEVICE \<longrightarrow> (\<forall>a. lo \<le> a \<and> a < hi \<longrightarrow> m (a div COW_BLOCK_SIZE) = 0))"

definition mode_post :: "(nat \<Rightarrow> u64) \<Rightarrow> nat \<Rightarrow> nat \<Rightarrow> mode_ctl \<Rightarrow> bool" where
  "mode_post m lo hi c = (case c of ModeGo mode e \<Rightarrow> e = hi \<and> mode_sound m mode lo hi
     | ModeRet ret mode \<Rightarrow> ret = 0 \<longrightarrow> mode = READ_MODE_MIXED)"

lemma same_block:
  assumes "(a :: nat) \<le> x" "x < a + min (4096 - a mod 4096) n"
  shows "x div 4096 = a div 4096"
proof -
  define q where "q = a div 4096"
  define r where "r = a mod 4096"
  have a: "a = 4096 * q + r" "r < 4096" by (simp_all add: q_def r_def)
  have "x < a + (4096 - r)" using assms(2) by (simp add: r_def)
  then have "4096 * q \<le> x" "x < 4096 * q + 4096" using a assms(1) by simp_all
  then have "x div 4096 = q" by (intro div_nat_eqI) simp_all
  then show ?thesis by (simp add: q_def)
qed

lemma mode_sound_step:
  assumes s: "mode_sound m mode lo cur" and le: "lo \<le> cur" and b: "v = m (cur div 4096)"
    and k: "\<not> (mode \<noteq> 0 \<and> ((mode = 1 \<and> v = 0) \<or> (mode = 2 \<and> v \<noteq> 0)))" "0 < n"
  shows "mode_sound m (if mode \<noteq> 0 then mode else if v \<noteq> 0 then 1 else 2) lo (cur + min (4096 - cur mod 4096) n)"
proof -
  define e where "e = cur + min (4096 - cur mod 4096) n"
  have new: "m (x div 4096) = v" if "cur \<le> x" "x < e" for x
    using same_block[of cur x n] that b by (simp add: e_def)
  show ?thesis unfolding e_def[symmetric]
  proof (cases "mode = 0")
    case True
    then have "lo = cur" using s by (simp add: mode_sound_def)
    then show "mode_sound m (if mode \<noteq> 0 then mode else if v \<noteq> 0 then 1 else 2) lo e"
      using True new by (simp add: mode_sound_def)
  next
    case False
    have "(m (x div 4096) = 0) = (v = 0)" if "mode = 1 \<or> mode = 2" "lo \<le> x" "x < e" for x
      using that s k new[of x] by (cases "x < cur") (auto simp: mode_sound_def)
    then show "mode_sound m (if mode \<noteq> 0 then mode else if v \<noteq> 0 then 1 else 2) lo e"
      using False k by (auto simp: mode_sound_def)
  qed
qed

lemma byte_in_capacity: "(x :: nat) < c * 4096 \<Longrightarrow> x div 4096 < c"
  by (simp add: less_mult_imp_div_less)

lemma get_mode_seg_ok:
  assumes K: "kernel_ok K"
  shows "cow_wf cm \<Longrightarrow> mode_sound (cow_map w cm) mode lo cur \<Longrightarrow> lo \<le> cur \<Longrightarrow>
    cur + (len - bytes) \<le> capacity cm * COW_BLOCK_SIZE \<Longrightarrow>
    \<exists>c w' cm'. get_mode_seg K len bytes mode cur w cm = Some (c, w', cm') \<and> cow_stable w cm w' cm' \<and>
      mode_post (cow_map w cm) lo (cur + (len - bytes)) c"
proof (induction "len - bytes" arbitrary: bytes mode cur w cm rule: less_induct)
  case less
  show ?case
  proof (cases "bytes < len")
    case False
    then show ?thesis using less.prems by (simp add: get_mode_seg.simps[of K len bytes] cow_stable_refl mode_post_def)
  next
    case True
    let ?n = "min (4096 - cur mod 4096) (len - bytes)"
    have "cur div 4096 < capacity cm" using less.prems True by (intro byte_in_capacity) simp
    from cow_read_mapping_ok[OF K less.prems(1) this, of w] obtain ret v w1 cm1 where
      rd: "cow_read_mapping K (cur div 4096) w cm = Some (ret, v, w1, cm1)" and st: "cow_stable w cm w1 cm1"
      and v: "ret = 0 \<longrightarrow> v = cow_map w cm (cur div 4096)" by blast
    have m1: "cow_map w1 cm1 = cow_map w cm" and wf1: "cow_wf cm1" using st by (simp_all add: cow_stable_def)
    let ?mixed = "mode \<noteq> 0 \<and> ((mode = 1 \<and> v = 0) \<or> (mode = 2 \<and> v \<noteq> 0))"
    let ?mode = "if mode \<noteq> 0 then mode else if v \<noteq> 0 then 1 else 2"
    show ?thesis
    proof (cases "ret \<noteq> 0 \<or> ?mixed")
      case True
      then show ?thesis using rd st \<open>bytes < len\<close> by (auto simp: get_mode_seg.simps[of K len bytes] Let_def mode_post_def)
    next
      case False
      have eq: "get_mode_seg K len bytes mode cur w cm = get_mode_seg K len (bytes + ?n) ?mode (cur + ?n) w1 cm1"
        using rd False \<open>bytes < len\<close> by (auto simp: get_mode_seg.simps[of K len bytes] Let_def)
      have n: "0 < ?n" "bytes + ?n \<le> len" "len - (bytes + ?n) < len - bytes" using True by auto
      have sd: "mode_sound (cow_map w1 cm1) ?mode lo (cur + ?n)"
        unfolding m1 by (rule mode_sound_step) (use less.prems False v True in auto)
      have e: "cur + ?n + (len - (bytes + ?n)) = cur + (len - bytes)" using n by linarith
      have "\<exists>c w' cm'. get_mode_seg K len (bytes + ?n) ?mode (cur + ?n) w1 cm1 = Some (c, w', cm') \<and>
          cow_stable w1 cm1 w' cm' \<and> mode_post (cow_map w1 cm1) lo (cur + ?n + (len - (bytes + ?n))) c"
        by (rule less.hyps[OF n(3) wf1 sd]) (use less.prems cow_stable_capacity[OF st] e in auto)
      then show ?thesis unfolding eq e m1 using st cow_stable_trans by blast
    qed
  qed
qed

lemma get_mode_segs_ok:
  assumes K: "kernel_ok K"
  shows "cow_wf cm \<Longrightarrow> mode_sound (cow_map w cm) mode lo cur \<Longrightarrow> lo \<le> cur \<Longrightarrow>
    cur + vec_bytes vs \<le> capacity cm * COW_BLOCK_SIZE \<Longrightarrow>
    \<exists>c w' cm'. get_mode_segs K vs mode cur w cm = Some (c, w', cm') \<and> cow_stable w cm w' cm' \<and>
      mode_post (cow_map w cm) lo (cur + vec_bytes vs) c"
proof (induction vs arbitrary: mode cur w cm)
  case Nil
  then show ?case by (simp add: cow_stable_refl mode_post_def vec_bytes_def)
next
  case (Cons v vs)
  have vb: "vec_bytes (v # vs) = bv_len v + vec_bytes vs" by (simp add: vec_bytes_def)
  obtain c w1 cm1 where c: "get_mode_seg K (bv_len v) 0 mode cur w cm = Some (c, w1, cm1)"
    and st: "cow_stable w cm w1 cm1" and p: "mode_post (cow_map w cm) lo (cur + bv_len v) c"
    using get_mode_seg_ok[OF K Cons.prems(1-3), of "bv_len v" 0] Cons.prems(4) vb by auto
  have m1: "cow_map w1 cm1 = cow_map w cm" and wf1: "cow_wf cm1" using st by (simp_all add: cow_stable_def)
  show ?case
  proof (cases c)
    case (ModeRet ret mode)
    then show ?thesis using c st p by (simp add: mode_post_def)
  next
    case (ModeGo mode' cur')
    then have s: "cur' = cur + bv_len v" "mode_sound (cow_map w1 cm1) mode' lo cur'"
      using p m1 by (simp_all add: mode_post_def)
    obtain c2 w2 cm2 where "get_mode_segs K vs mode' cur' w1 cm1 = Some (c2, w2, cm2)" "cow_stable w1 cm1 w2 cm2"
      "mode_post (cow_map w cm) lo (cur + vec_bytes (v # vs)) c2"
      using Cons.IH[OF wf1 s(2)] Cons.prems(3,4) s(1) vb cow_stable_capacity[OF st] m1 by (auto simp: add.assoc)
    then show ?thesis using c ModeGo cow_stable_trans[OF st] by auto
  qed
qed


subsection \<open>Reading from the snapshot returns the saved bytes\<close>

text \<open>The content of the snapshot: the saved copy of a block, or the device where there is none.\<close>

definition snap_view :: "(nat \<rightharpoonup> buf) \<Rightarrow> buf \<Rightarrow> buf" where
  "snap_view sv D a = (case sv (a div COW_BLOCK_SIZE) of None \<Rightarrow> D a | Some d \<Rightarrow> d (a mod COW_BLOCK_SIZE))"

text \<open>One segment after the loop: \<open>off\<close> is the page offset of the device byte \<open>a\<close>, \<open>e\<close> the end.\<close>

definition overlay :: "(nat \<rightharpoonup> buf) \<Rightarrow> page_id \<Rightarrow> nat \<Rightarrow> nat \<Rightarrow> nat \<Rightarrow> pages \<Rightarrow> pages" where
  "overlay sv p off e a P pg x =
     (if pg = p \<and> off \<le> x \<and> x < e then snap_view sv (\<lambda>_. P pg x) (a + (x - off)) else P pg x)"

lemma block_offset:
  assumes "i < 4096 - a mod 4096"
  shows "(a + i) div 4096 = a div 4096" "(a + i) mod 4096 = a mod 4096 + (i :: nat)"
proof -
  show d: "(a + i) div 4096 = a div 4096" using same_block[of a "a + i" "Suc i"] assms by simp
  show "(a + i) mod 4096 = a mod 4096 + i"
    using div_mult_mod_eq[of "a + i" 4096] div_mult_mod_eq[of a 4096] unfolding d by linarith
qed

lemma overlay_none:
  assumes "n \<le> 4096 - a mod 4096" "sv (a div 4096) = None"
  shows "overlay sv p (off + n) e (a + n) P = overlay sv p off e a P"
proof (intro ext)
  fix pg x
  show "overlay sv p (off + n) e (a + n) P pg x = overlay sv p off e a P pg x"
  proof (cases "pg = p \<and> off \<le> x \<and> x < off + n")
    case True
    then have "x - off < 4096 - a mod 4096" using assms(1) by linarith
    from block_offset(1)[OF this] show ?thesis using True assms by (simp add: overlay_def snap_view_def)
  qed (auto simp: overlay_def snap_view_def)
qed

lemma overlay_some:
  assumes "off + n \<le> e" "n \<le> 4096 - a mod 4096" "sv (a div 4096) = Some d" "\<forall>i < n. b i = d (a mod 4096 + i)"
  shows "overlay sv p (off + n) e (a + n) (put_page P p off n b) = overlay sv p off e a P"
proof (intro ext)
  fix pg x
  show "overlay sv p (off + n) e (a + n) (put_page P p off n b) pg x = overlay sv p off e a P pg x"
  proof (cases "pg = p \<and> off \<le> x \<and> x < off + n")
    case True
    then have i: "x - off < 4096 - a mod 4096" "x - off < n" using assms(2) by linarith+
    from block_offset[OF i(1)] show ?thesis using True assms i(2) by (simp add: overlay_def put_page_def snap_view_def)
  next
    case False
    then show ?thesis using assms(1) by (auto simp: overlay_def put_page_def snap_view_def)
  qed
qed

lemma bytes_to_copy_sectors:
  assumes "r mod 512 = 0" "0 < (r :: nat)" and n_def: "n = min r (4096 - (s * 512) mod 4096)"
  shows "n mod 512 = 0" "0 < n" "(s + n div 512) * 512 = s * 512 + n"
proof -
  have "(s * 512) mod 4096 = (s mod 8) * 512" using mult_mod_right[of 512 s 8] by (simp add: mult.commute)
  then have "(4096 - (s * 512) mod 4096) = (8 - s mod 8) * 512" by (simp add: diff_mult_distrib)
  then show m: "n mod 512 = 0" using assms(1) by (auto simp: n_def min_def)
  show "0 < n" using assms(2) by (simp add: n_def)
  have "n div 512 * 512 = n" using m by (metis add.right_neutral div_mult_mod_eq)
  then show "(s + n div 512) * 512 = s * 512 + n" by (simp add: add_mult_distrib)
qed


lemma read_cow_chunk_ok:
  assumes K: "kernel_ok K" and inv: "snap_inv w cm" and c: "a div 4096 < capacity cm"
    and n: "n \<le> 4096 - a mod 4096" "0 < n" "off + n \<le> e"
  shows "\<exists>ret P' w' cm'. read_cow_chunk K p off (a div 4096) (a mod 4096) n P w cm = Some (ret, P', w', cm') \<and>
    cow_stable w cm w' cm' \<and>
    (ret = 0 \<longrightarrow> overlay (cow_saved w cm) p (off + n) e (a + n) P' = overlay (cow_saved w cm) p off e a P)"
proof -
  have wf: "cow_wf cm" using inv by (simp add: snap_inv_def)
  obtain ret m w1 cm1 where rd: "cow_read_mapping K (a div 4096) w cm = Some (ret, m, w1, cm1)"
    and st: "cow_stable w cm w1 cm1" and m: "ret = 0 \<longrightarrow> m = cow_map w cm (a div 4096)"
    using cow_read_mapping_ok[OF K wf c, of w] by blast
  note sv = cow_stable_saved[OF inv st]
  consider "ret \<noteq> 0" | (none) "ret = 0" "m = 0" | (some) "ret = 0" "m \<noteq> 0" by blast
  then show ?thesis
  proof cases
    case none
    then have "cow_saved w cm (a div 4096) = None" using m by (simp add: cow_saved_def)
    then show ?thesis using none rd st overlay_none[OF n(1)] by (simp add: read_cow_chunk_def)
  next
    case some
    have mm: "m = cow_map w1 cm1 (a div 4096)" using m some st by (simp add: cow_stable_def)
    obtain ret2 b w2 cm2 where cr: "cow_read_data K m (a mod 4096) n w1 cm1 = (ret2, b, w2, cm2)" by (metis prod_cases4)
    have bd: "a mod 4096 + n \<le> 4096" using n(1) by simp
    have nz: "cow_map w1 cm1 (a div 4096) \<noteq> 0" using some mm by simp
    note ro = cow_read_data_ok[OF K sv(2) nz bd n(2) cr[unfolded mm]]
    have "overlay (cow_saved w cm) p (off + n) e (a + n) (put_page P p off n b) = overlay (cow_saved w cm) p off e a P"
      if "ret2 = 0" using ro(2)[OF that] overlay_some[OF n(3,1)] sv(1) by auto
    then show ?thesis using some rd cr cow_stable_trans[OF st ro(1)] by (simp add: read_cow_chunk_def)
  qed (use rd st in \<open>simp add: read_cow_chunk_def\<close>)
qed

lemma sector_arith:
  assumes "n mod 512 = 0" "off + n \<le> (e :: nat)" "(e - off) mod 512 = 0"
  shows "(e - (off + n)) mod 512 = 0" "n div 512 + (e - (off + n)) div 512 = (e - off) div 512"
proof -
  obtain k where k: "n = 512 * k" using assms(1) by (metis mod_0_imp_dvd dvd_def)
  obtain j where j: "e - off = 512 * j" using assms(3) by (metis mod_0_imp_dvd dvd_def)
  have d: "e - (off + n) = 512 * (j - k)" "k \<le> j" using j k assms(2) by auto
  show "(e - (off + n)) mod 512 = 0" "n div 512 + (e - (off + n)) div 512 = (e - off) div 512"
    using d j k by simp_all
qed

lemma read_cow_bvec_ok:
  assumes K: "kernel_ok K"
  shows "snap_inv w cm \<Longrightarrow> (bv_offset v + bv_len v - off) mod SECTOR_SIZE = 0 \<Longrightarrow>
    s * SECTOR_SIZE + (bv_offset v + bv_len v - off) \<le> capacity cm * COW_BLOCK_SIZE \<Longrightarrow>
    \<exists>ret s' P' w' cm'. read_cow_bvec K v off s P w cm = Some (ret, s', P', w', cm') \<and> cow_stable w cm w' cm' \<and>
      (ret = 0 \<longrightarrow> s' = s + (bv_offset v + bv_len v - off) div SECTOR_SIZE \<and>
        P' = overlay (cow_saved w cm) (bv_page v) off (bv_offset v + bv_len v) (s * SECTOR_SIZE) P)"
proof (induction "bv_offset v + bv_len v - off" arbitrary: off s P w cm rule: less_induct)
  case less
  let ?e = "bv_offset v + bv_len v" and ?a = "s * 512"
  have wf: "cow_wf cm" using less.prems(1) by (simp add: snap_inv_def)
  show ?case
  proof (cases "off < ?e")
    case False
    then have "overlay (cow_saved w cm) (bv_page v) off ?e ?a P = P" by (auto simp: overlay_def fun_eq_iff)
    then show ?thesis using False cow_stable_refl[OF wf] by (simp add: read_cow_bvec.simps[of K v off])
  next
    case True
    define n where "n = min (?e - off) (4096 - ?a mod 4096)"
    have n: "n mod 512 = 0" "0 < n" "(s + n div 512) * 512 = ?a + n"
      using bytes_to_copy_sectors[OF less.prems(2) _ n_def] True by simp_all
    have nle: "n \<le> 4096 - ?a mod 4096" "off + n \<le> ?e" "?e - (off + n) < ?e - off"
      using True n(2) by (auto simp: n_def)
    have c: "?a div 4096 < capacity cm" using less.prems(3) True by (intro byte_in_capacity) simp
    obtain ret P1 w1 cm1 where
      ch: "read_cow_chunk K (bv_page v) off (?a div 4096) (?a mod 4096) n P w cm = Some (ret, P1, w1, cm1)"
      and st: "cow_stable w cm w1 cm1" and ov: "ret = 0 \<longrightarrow>
        overlay (cow_saved w cm) (bv_page v) (off + n) ?e (?a + n) P1 = overlay (cow_saved w cm) (bv_page v) off ?e ?a P"
      using read_cow_chunk_ok[OF K less.prems(1) c nle(1) n(2) nle(2), of "bv_page v" P] by blast
    have eq: "read_cow_bvec K v off s P w cm = (if ret \<noteq> 0 then Some (ret, s, P1, w1, cm1)
        else read_cow_bvec K v (off + n) (s + n div 512) P1 w1 cm1)"
      unfolding read_cow_bvec.simps[of K v off] Let_def n_def[symmetric] ch using True by simp
    show ?thesis
    proof (cases "ret = 0")
      case False
      then show ?thesis unfolding eq using st by simp
    next
      case ok: True
      note sv = cow_stable_saved[OF less.prems(1) st]
      note ar = sector_arith[OF n(1) nle(2) less.prems(2)]
      have cp: "(s + n div 512) * 512 + (?e - (off + n)) \<le> capacity cm1 * 4096"
        using less.prems(3) n(3) nle(2) cow_stable_capacity[OF st] by simp
      obtain ret3 s3 P3 w3 cm3 where "read_cow_bvec K v (off + n) (s + n div 512) P1 w1 cm1 = Some (ret3, s3, P3, w3, cm3)"
        "cow_stable w1 cm1 w3 cm3" "ret3 = 0 \<longrightarrow> s3 = s + n div 512 + (?e - (off + n)) div 512 \<and>
          P3 = overlay (cow_saved w1 cm1) (bv_page v) (off + n) ?e ((s + n div 512) * 512) P1"
        using less.hyps[OF nle(3) sv(2) ar(1) cp] by blast
      then show ?thesis unfolding eq using ar(2) n(3) sv(1) ov ok cow_stable_trans[OF st] by simp
    qed
  qed
qed


definition overlay_segs :: "(nat \<rightharpoonup> buf) \<Rightarrow> bio_vec list \<Rightarrow> nat \<Rightarrow> pages \<Rightarrow> pages" where
  "overlay_segs sv vs a P pg x =
     (case seg_addr vs a pg x of None \<Rightarrow> P pg x | Some b \<Rightarrow> snap_view sv (\<lambda>_. P pg x) b)"

lemma overlay_segs_Cons:
  assumes "disjoint_vecs (v # vs)"
  shows "overlay_segs sv vs (a + bv_len v) (overlay sv (bv_page v) (bv_offset v) (bv_offset v + bv_len v) a P) =
    overlay_segs sv (v # vs) a P"
  using seg_addr_disjoint[OF assms] by (auto simp: overlay_segs_def overlay_def fun_eq_iff split: option.splits)

lemma read_cow_bvecs_ok:
  assumes K: "kernel_ok K"
  shows "snap_inv w cm \<Longrightarrow> \<forall>v \<in> set vs. bv_len v mod SECTOR_SIZE = 0 \<Longrightarrow> disjoint_vecs vs \<Longrightarrow>
    s * SECTOR_SIZE + vec_bytes vs \<le> capacity cm * COW_BLOCK_SIZE \<Longrightarrow>
    \<exists>ret P' w' cm'. read_cow_bvecs K vs s P w cm = Some (ret, P', w', cm') \<and> cow_stable w cm w' cm' \<and>
      (ret = 0 \<longrightarrow> P' = overlay_segs (cow_saved w cm) vs (s * SECTOR_SIZE) P)"
proof (induction vs arbitrary: s P w cm)
  case Nil
  then show ?case by (auto simp: snap_inv_def cow_stable_refl overlay_segs_def fun_eq_iff)
next
  case (Cons v vs)
  have vb: "vec_bytes (v # vs) = bv_len v + vec_bytes vs" by (simp add: vec_bytes_def)
  have md: "bv_len v mod 512 = 0" using Cons.prems(2) by simp
  obtain ret s1 P1 w1 cm1 where r: "read_cow_bvec K v (bv_offset v) s P w cm = Some (ret, s1, P1, w1, cm1)"
    and st: "cow_stable w cm w1 cm1" and p: "ret = 0 \<longrightarrow> s1 = s + bv_len v div 512 \<and>
      P1 = overlay (cow_saved w cm) (bv_page v) (bv_offset v) (bv_offset v + bv_len v) (s * 512) P"
    using read_cow_bvec_ok[OF K Cons.prems(1), of v "bv_offset v" s P] md Cons.prems(4) vb by auto
  note sv = cow_stable_saved[OF Cons.prems(1) st]
  show ?case
  proof (cases "ret = 0")
    case False
    then show ?thesis using r st by simp
  next
    case True
    have s1: "s1 * 512 = s * 512 + bv_len v" using p True md by (simp add: add_mult_distrib) (metis add.right_neutral div_mult_mod_eq)
    obtain ret2 P2 w2 cm2 where "read_cow_bvecs K vs s1 P1 w1 cm1 = Some (ret2, P2, w2, cm2)" "cow_stable w1 cm1 w2 cm2"
      "ret2 = 0 \<longrightarrow> P2 = overlay_segs (cow_saved w1 cm1) vs (s1 * 512) P1"
      using Cons.IH[OF sv(2), of s1 P1] Cons.prems s1 vb cow_stable_capacity[OF st] by auto
    then show ?thesis using r True cow_stable_trans[OF st] p sv(1) s1 overlay_segs_Cons[OF Cons.prems(3)] by simp
  qed
qed

lemma fill_view_base:
  "mode_sound m 2 a (a + vec_bytes vs) \<Longrightarrow> (\<And>b. m b = 0 \<Longrightarrow> sv b = None) \<Longrightarrow>
   fill_segs (snap_view sv D) vs a P = fill_segs D vs a P"
  using seg_addr_bounds[of vs a]
  by (auto simp: fill_segs_def mode_sound_def snap_view_def fun_eq_iff split: option.splits)

lemma fill_view_cow:
  assumes "mode_sound m 1 a (a + vec_bytes vs)" "\<And>b. sv b = None \<Longrightarrow> m b = 0"
  shows "overlay_segs sv vs a P = fill_segs (snap_view sv D) vs a P"
proof (intro ext)
  fix pg x
  show "overlay_segs sv vs a P pg x = fill_segs (snap_view sv D) vs a P pg x"
    using seg_addr_bounds[of vs a pg x] assms
    by (cases "seg_addr vs a pg x")
      (auto simp: fill_segs_def overlay_segs_def mode_sound_def snap_view_def split: option.splits)
qed

lemma fill_view_mixed: "overlay_segs sv vs a (fill_segs D vs a P) = fill_segs (snap_view sv D) vs a P"
  by (auto simp: fill_segs_def overlay_segs_def snap_view_def fun_eq_iff split: option.splits)

lemma saved_iff_map: "(cow_saved w cm b = None) = (cow_map w cm b = 0)"
  by (simp add: cow_saved_def)

lemma get_mode_ok:
  assumes K: "kernel_ok K" and wf: "cow_wf cm" and f: "fresh_bio b"
    and c: "bi_sector b * SECTOR_SIZE + bi_size b \<le> capacity cm * COW_BLOCK_SIZE"
  shows "\<exists>ret mode w' cm'. snap_read_bio_get_mode K b w cm = Some (ret, mode, w', cm') \<and> cow_stable w cm w' cm' \<and>
    (ret = 0 \<longrightarrow> mode \<in> {1, 2} \<longrightarrow> mode_sound (cow_map w cm) mode (bi_sector b * SECTOR_SIZE)
       (bi_sector b * SECTOR_SIZE + vec_bytes (bi_io_vec b)))"
proof -
  let ?a = "bi_sector b * 512"
  have "mode_sound (cow_map w cm) 0 ?a ?a" by (simp add: mode_sound_def)
  from get_mode_segs_ok[OF K wf this, of "bi_io_vec b"] f c obtain c w' cm' where
    "get_mode_segs K (bio_segments b) 0 ?a w cm = Some (c, w', cm')" "cow_stable w cm w' cm'"
    "mode_post (cow_map w cm) ?a (?a + vec_bytes (bi_io_vec b)) c"
    unfolding bio_segments_fresh[OF f] by (auto simp: fresh_bio_def)
  then show ?thesis by (cases c) (auto simp: snap_read_bio_get_mode_def mode_post_def)
qed


text \<open>The part of the handler after the mode is known, and what it leaves in the pages.\<close>

lemma snap_handle_read_ok:
  assumes K: "kernel_ok K" and S: "submit_ok submit" and inv: "snap_inv w cm" and f: "fresh_bio b"
    and c: "bi_sector b * SECTOR_SIZE + bi_size b \<le> capacity cm * COW_BLOCK_SIZE"
  shows "\<exists>ret b' P' w' cm'. snap_handle_read_bio K submit dv D b P w cm = Some (ret, b', P', w', cm') \<and>
    cow_stable w cm w' cm' \<and> bi_private b' = bi_private b \<and> bi_end_io b' = bi_end_io b \<and>
    (ret = 0 \<longrightarrow> P' = fill_segs (snap_view (cow_saved w cm) D) (bi_io_vec b) (bi_sector b * SECTOR_SIZE) P) \<and>
    (ret \<noteq> 0 \<longrightarrow> bi_sector b' = bi_sector b \<and> bi_size b' = bi_size b \<and> bi_idx b' = bi_idx b)"
proof -
  let ?b = "b\<lparr>bi_bdev := dv, bi_op := REQ_OP_READ, bi_passthrough := False\<rparr>" and ?a = "bi_sector b * 512"
  let ?view = "fill_segs (snap_view (cow_saved w cm) D) (bi_io_vec b) ?a P"
  have wf: "cow_wf cm" using inv by (simp add: snap_inv_def)
  have fb: "fresh_bio ?b" using f by (simp add: fresh_bio_def)
  obtain ret mode w1 cm1 where md: "snap_read_bio_get_mode K ?b w cm = Some (ret, mode, w1, cm1)"
    and st: "cow_stable w cm w1 cm1" and ms: "ret = 0 \<longrightarrow> mode \<in> {1, 2} \<longrightarrow>
      mode_sound (cow_map w cm) mode ?a (?a + vec_bytes (bi_io_vec b))"
    using get_mode_ok[OF K wf fb, of w] c by auto
  define after where "after = (if mode \<noteq> 1 then submit (clock w1) D ?b P else (0, ?b, P))"
  define w2 where "w2 = (if mode \<noteq> 1 then ktick w1 else w1)"
  obtain ret2 b2 P2 where a2: "after = (ret2, b2, P2)" by (metis prod_cases3)
  have sub: "bi_io_vec b2 = bi_io_vec b" "ret2 = 0 \<longrightarrow> P2 = (if mode \<noteq> 1 then fill_segs D (bi_io_vec b) ?a P else P)"
    using a2 S fb unfolding after_def submit_ok_def by (fastforce split: if_splits prod.splits)+
  have st2: "cow_stable w cm w2 cm1"
  proof -
    have "cow_stable w1 cm1 w2 cm1"
      using cow_stable_dfilp[of cm1 w2 w1 "dfilp cm1"] st by (simp add: w2_def cow_stable_def)
    then show ?thesis by (rule cow_stable_trans[OF st])
  qed
  note sv = cow_stable_saved[OF inv st2]
  obtain ret3 P3 w3 cm3 where r3: "read_cow_bvecs K (bi_io_vec b) (bi_sector b) P2 w2 cm1 = Some (ret3, P3, w3, cm3)"
    and st3: "cow_stable w2 cm1 w3 cm3" and p3: "ret3 = 0 \<longrightarrow> P3 = overlay_segs (cow_saved w cm) (bi_io_vec b) ?a P2"
    using read_cow_bvecs_ok[OF K sv(2), of "bi_io_vec b" "bi_sector b" P2] f c cow_stable_capacity[OF st2] sv(1)
    by (auto simp: fresh_bio_def)
  have base: "P2 = ?view" if "ret = 0" "ret2 = 0" "mode = 2"
    using sub(2) that ms fill_view_base[of "cow_map w cm" ?a "bi_io_vec b" "cow_saved w cm" D P] by (simp add: saved_iff_map)
  have rest: "P3 = ?view" if "ret = 0" "ret2 = 0" "ret3 = 0" "mode \<noteq> 2"
    using p3 that sub(2) ms fill_view_mixed fill_view_cow[of "cow_map w cm" ?a "bi_io_vec b" "cow_saved w cm" P D]
    by (cases "mode = 1") (simp_all add: saved_iff_map)
  consider (err) "ret \<noteq> 0" | (sub) "ret = 0" "ret2 \<noteq> 0" | (base) "ret = 0" "ret2 = 0" "mode = 2"
    | (cow) "ret = 0" "ret2 = 0" "mode \<noteq> 2" by blast
  then show ?thesis
  proof cases
    case err
    then show ?thesis using md st by (simp add: snap_handle_read_bio_def Let_def)
  next
    case sub
    then have "mode \<noteq> 1" using a2 by (auto simp: after_def)
    then show ?thesis using md sub a2 st2 by (simp add: snap_handle_read_bio_def Let_def after_def w2_def)
  next
    case base
    then show ?thesis using md a2 st2 \<open>ret = 0 \<Longrightarrow> ret2 = 0 \<Longrightarrow> mode = 2 \<Longrightarrow> P2 = ?view\<close>
      by (simp add: snap_handle_read_bio_def Let_def after_def w2_def)
  next
    case cow
    have "snap_handle_read_bio K submit dv D b P w cm = Some (ret3,
        (b2\<lparr>bi_idx := bi_idx b, bi_size := bi_size b, bi_sector := bi_sector b\<rparr>)
          \<lparr>bi_private := bi_private b, bi_end_io := bi_end_io b\<rparr>, P3, w3, cm3)"
      using md cow a2 r3 sub(1)
      by (cases "mode = 1") (simp_all add: snap_handle_read_bio_def Let_def after_def w2_def)
    then show ?thesis using cow_stable_trans[OF st2 st3] rest[OF cow(1,2) _ cow(3)] by simp
  qed
qed


subsection \<open>Properties\<close>

text \<open>A request for one page of the device, at block \<open>b\<close>.\<close>

definition page_bio :: "req_op \<Rightarrow> nat \<Rightarrow> page_id \<Rightarrow> bio" where
  "page_bio rop b pg = \<lparr>bi_sector = b * SECTORS_PER_BLOCK, bi_size = PAGE_SIZE, bi_idx = 0,
     bi_io_vec = [\<lparr>bv_page = pg, bv_offset = 0, bv_len = PAGE_SIZE\<rparr>], bi_bdev = 0, bi_op = rop,
     bi_passthrough = False, bi_private = 0, bi_end_io = 0\<rparr>"

lemma page_bio_fresh: "fresh_bio (page_bio rop b pg)"
  by (simp add: fresh_bio_def page_bio_def vec_bytes_def)

text \<open>
  C8: a read of the snapshot returns the snapshot. For a request within the device,
  \<^verbatim>\<open>snap_handle_read_bio\<close> returns; the saved copies and the invariant are as before; when it
  returns zero, every byte of every segment is the saved byte of its block, or the byte of the base
  device where the block is not saved, and no other byte of memory has changed. This holds for
  all three read modes, for segments that start and end inside a block, and for segments that share a
  page. The completion fields of the request are restored, and on an error its iterator too.
\<close>

theorem snap_handle_read_bio_view:
  assumes "kernel_ok K" "submit_ok submit" "snap_inv w cm" "fresh_bio b"
    and "bi_sector b * SECTOR_SIZE + bi_size b \<le> capacity cm * COW_BLOCK_SIZE"
  shows "\<exists>ret b' P' w' cm'. snap_handle_read_bio K submit dv D b P w cm = Some (ret, b', P', w', cm') \<and>
    snap_inv w' cm' \<and> cow_saved w' cm' = cow_saved w cm \<and>
    bi_private b' = bi_private b \<and> bi_end_io b' = bi_end_io b \<and>
    (ret = 0 \<longrightarrow> P' = fill_segs (snap_view (cow_saved w cm) D) (bi_io_vec b) (bi_sector b * SECTOR_SIZE) P) \<and>
    (ret \<noteq> 0 \<longrightarrow> bi_sector b' = bi_sector b \<and> bi_size b' = bi_size b \<and> bi_idx b' = bi_idx b)"
  using snap_handle_read_ok[OF assms, of dv D P] cow_stable_saved[OF assms(3)] by blast

theorem snap_handle_read_bio_view_witness:
  "\<exists>ret b' P' w' cm'. snap_handle_read_bio ram_kernel ram_submit 1 (\<lambda>a. 7) (page_bio REQ_OP_READ 3 0) (\<lambda>_ _. 0)
       ram_world sample_cow = Some (ret, b', P', w', cm') \<and> (ret = 0 \<longrightarrow> P' 0 5 = 7)"
  using snap_handle_read_bio_view[OF ram_kernel_ok ram_submit_ok sample_cow_inv(2)
      page_bio_fresh[of REQ_OP_READ 3 0], where w = ram_world and dv = 1 and D = "\<lambda>a. 7" and P = "\<lambda>_ _. 0"]
  by (auto simp: page_bio_def sample_cow_inv(3) fill_segs_def snap_view_def sample_cow_saved)

text \<open>
  C9: a captured write saves its blocks once. When the segments are the pages of a read clone,
  \<^verbatim>\<open>snap_handle_write_bio\<close> returns; when it returns zero the invariant holds and the saved copies are
  those from before, with the captured page of every other block of the request added.
\<close>

theorem snap_handle_write_bio_saves:
  assumes "kernel_ok K" "snap_inv w cm" "\<forall>v \<in> set (bi_io_vec b). bv_len v = COW_BLOCK_SIZE"
    and "SECTOR_TO_BLOCK (bi_sector b) + length (bi_io_vec b) \<le> capacity cm"
  shows "\<exists>ret w' cm'. snap_handle_write_bio K b P w cm = Some (ret, w', cm') \<and>
    (ret = 0 \<longrightarrow> snap_inv w' cm' \<and>
       cow_saved w' cm' = captured P (bi_io_vec b) (SECTOR_TO_BLOCK (bi_sector b)) ++ cow_saved w cm)"
  using write_bio_bvecs_ok[OF assms] unfolding snap_handle_write_bio_def by blast

theorem snap_handle_write_bio_saves_witness:
  "\<exists>ret w' cm'. snap_handle_write_bio ram_kernel (page_bio REQ_OP_WRITE 3 0) (\<lambda>_ _. 9) ram_world sample_cow =
       Some (ret, w', cm') \<and> (ret = 0 \<longrightarrow> cow_saved w' cm' 3 = Some (block_of (\<lambda>_. 9)))"
  using snap_handle_write_bio_saves[OF ram_kernel_ok sample_cow_inv(2),
      where b = "page_bio REQ_OP_WRITE 3 0" and w = ram_world and P = "\<lambda>_ _. 9"]
  by (auto simp: page_bio_def sample_cow_inv(3) SECTOR_TO_BLOCK_def sample_cow_saved)

text \<open>
  C10: a sector set marks its blocks and no other. When \<^verbatim>\<open>inc_handle_sset\<close> returns zero, a block is
  marked exactly if one of the sectors of the set lies in it; every other mapping is what it was.
\<close>

theorem inc_handle_sset_exact:
  assumes "kernel_ok K" "cow_wf cm" "NUM_SEGMENTS (ss_sect ss + ss_len ss) 3 \<le> capacity cm" "0 < ss_len ss"
  shows "\<exists>ret w' cm'. inc_handle_sset K ss w cm = Some (ret, w', cm') \<and> capacity cm' = capacity cm \<and>
    (ret = 0 \<longrightarrow> cow_wf cm' \<and> (\<forall>b. cow_map w' cm' b =
       (if \<exists>s. ss_sect ss \<le> s \<and> s < ss_sect ss + ss_len ss \<and> SECTOR_TO_BLOCK s = b then 1 else cow_map w cm b)))"
  using inc_handle_sset_ok[OF assms, of w] by blast

theorem inc_handle_sset_exact_witness:
  "\<exists>ret w' cm'. inc_handle_sset ram_kernel \<lparr>ss_sect = 6, ss_len = 3\<rparr> ram_world sample_cow = Some (ret, w', cm') \<and>
     (ret = 0 \<longrightarrow> cow_map w' cm' 1 = 1)"
proof -
  have "\<exists>s. 6 \<le> s \<and> s < 6 + 3 \<and> SECTOR_TO_BLOCK s = 1"
    by (rule exI[of _ 8]) (simp add: SECTOR_TO_BLOCK_def)
  then show ?thesis
    using inc_handle_sset_exact[OF ram_kernel_ok sample_cow_inv(1), where w = ram_world
        and ss = "\<lparr>ss_sect = 6, ss_len = 3\<rparr>"]
    by (auto simp: sample_cow_inv(3) NUM_SEGMENTS_div)
qed

end
