(* ===== verification/Snap_Device.thy ===== *)
theory Snap_Device
  imports Queues Snap_Handle
begin

text \<open>
  The device structure (\<^verbatim>\<open>src/src/snap_device.h\<close>), the tests the tracing entry points make on it
  (\<^verbatim>\<open>src/src/tracer_helper.c\<close>), the memory that bios and tracing parameters live in, and the reference
  counted tracing parameters (\<^verbatim>\<open>src/src/tracing_params.c\<close>).

  The queues of a device appear here as the lists they represent, oldest first; that the linked queues
  of the driver behave so is the contract \<open>fifo\<close> and the refinement of the delayed dequeue in
  theory \<open>Queues\<close>.
\<close>

abbreviation (input) SNAPSHOT :: nat where "SNAPSHOT \<equiv> 0"
abbreviation (input) ACTIVE :: nat where "ACTIVE \<equiv> 1"
abbreviation (input) UNVERIFIED :: nat where "UNVERIFIED \<equiv> 2"

text \<open>The configuration the kernel feature tests choose.\<close>

record config =
  USE_HOOK_TRACER :: bool
  USE_BDOPS_SUBMIT_BIO :: bool

text \<open>
  The COW thread of a device: its function, whether it was ever woken up, and the local \<open>is_failed\<close>
  of its loop. The functions a request can be handed to: the tracing function of the driver, its two
  stand-ins for a missing function, and the functions of other drivers.
\<close>

datatype thread_fn = Snap_Cow_Thread | Inc_Sset_Thread

record kthread =
  kt_fn :: thread_fn
  kt_woken :: bool
  kt_failed :: bool

datatype mrf_fn = Tracing_Fn | Null_Mrf | Snap_Null_Mrf | Driver_Fn nat

record snap_device =
  sd_minor :: nat
  sd_state :: u64
  sd_falloc_size :: u64
  sd_cache_size :: u64
  sd_refs :: int
  sd_fail_code :: int
  sd_active :: int
  sd_sect_off :: nat
  sd_size :: nat
  sd_queue :: bool
  sd_gd :: bool
  sd_base_dev :: "nat option"
  sd_bdev_path :: "string option"
  sd_cow :: "addr option"
  sd_cow_path :: "string option"
  sd_cow_inode :: "nat option"
  sd_orig_request_fn :: "mrf_fn option"
  sd_cow_thread :: "kthread option"
  sd_cow_bios :: "addr list"
  sd_mrf_thread :: bool
  sd_orig_bios :: "addr list"
  sd_read_thread :: bool
  sd_read_bios :: "addr list"
  sd_pending_ssets :: "sector_set list"
  sd_bioset :: bool
  sd_submitted_cnt :: u64
  sd_received_cnt :: u64
  bd_ops :: "nat option"
  sd_tracing_ops :: "nat option"

definition test_bit :: "nat \<Rightarrow> u64 \<Rightarrow> bool" where
  "test_bit n x = bit x n"

definition set_state_bit :: "nat \<Rightarrow> u64 \<Rightarrow> u64" where
  "set_state_bit n x = x OR push_bit n 1"

definition clear_state_bit :: "nat \<Rightarrow> u64 \<Rightarrow> u64" where
  "clear_state_bit n x = x AND NOT (push_bit n 1)"

lemma test_set_bit [simp]: "n < 64 \<Longrightarrow> test_bit m (set_state_bit n x) = (m = n \<or> test_bit m x)"
  by (auto simp: test_bit_def set_state_bit_def bit_simps)

lemma test_clear_bit [simp]: "test_bit m (clear_state_bit n x) = (m \<noteq> n \<and> test_bit m x)"
  by (auto simp: test_bit_def clear_state_bit_def bit_simps dest: bit_imp_le_length)

lemma test_zero_bit [simp]: "\<not> test_bit m 0"
  by (simp add: test_bit_def)

subsection \<open>The failure state\<close>

definition tracer_read_fail_state :: "snap_device \<Rightarrow> int" where
  "tracer_read_fail_state dev = sd_fail_code dev"

text \<open>The first error sticks: a compare-and-exchange against zero.\<close>

definition tracer_set_fail_state :: "int \<Rightarrow> snap_device \<Rightarrow> snap_device" where
  "tracer_set_fail_state err dev = (if sd_fail_code dev = 0 then dev\<lparr>sd_fail_code := err\<rparr> else dev)"

subsection \<open>Memory of the block layer\<close>

text \<open>
  Tracing parameters: the original bio, the reference count and the list of clones with the sector
  and the size each was made with.
\<close>

record tracing_params =
  tp_orig_bio :: addr
  tp_refs :: int
  tp_bio_sects :: "(addr \<times> nat \<times> nat) list"

text \<open>
  \<open>bios\<close> and \<open>pages_of\<close> hold the requests and the page contents, \<open>tps\<close> the live tracing
  parameters; \<open>fresh\<close> is the next address an allocation returns. \<open>submitted\<close> lists the bios handed
  to the layer below, \<open>ended\<close> the bios completed with a code, \<open>freed\<close> the clones given back.
\<close>

record bheap =
  bios :: "addr \<Rightarrow> bio"
  pages_of :: pages
  tps :: "addr \<Rightarrow> tracing_params option"
  fresh :: addr
  bclock :: nat
  submitted :: "addr list"
  ended :: "(addr \<times> int) list"
  freed :: "addr list"

text \<open>
  The kernel below: whether an allocation succeeds, whether \<^verbatim>\<open>bio_add_page\<close> takes a whole page more,
  the limit on pages per bio, the queue of a block device, and what \<^verbatim>\<open>struct page\<close> says of the
  pages of a request.
\<close>

record blk =
  b_alloc :: "nat \<Rightarrow> bool"
  b_add_page :: "nat \<Rightarrow> nat \<Rightarrow> bool"
  bio_max_vecs :: nat
  bdev_queue :: "nat \<Rightarrow> nat"
  compound_head :: "page_id \<Rightarrow> page_id"
  page_anon :: "page_id \<Rightarrow> bool"
  page_mapping :: "page_id \<Rightarrow> (bool \<times> nat) option"

definition btick :: "bheap \<Rightarrow> bheap" where
  "btick h = h\<lparr>bclock := Suc (bclock h)\<rparr>"

definition submit_real :: "addr \<Rightarrow> bheap \<Rightarrow> bheap" where
  "submit_real b h = h\<lparr>submitted := submitted h @ [b]\<rparr>"

definition moocbt_bio_endio :: "addr \<Rightarrow> int \<Rightarrow> bheap \<Rightarrow> bheap" where
  "moocbt_bio_endio b err h = h\<lparr>ended := ended h @ [(b, err)]\<rparr>"

definition bio_free_clone :: "addr \<Rightarrow> bheap \<Rightarrow> bheap" where
  "bio_free_clone b h = h\<lparr>freed := freed h @ [b]\<rparr>"

subsection \<open>Which bios are traced\<close>

definition page_get_inode :: "blk \<Rightarrow> page_id option \<Rightarrow> nat option" where
  "page_get_inode B pg =
     (case pg of None \<Rightarrow> None
      | Some pg \<Rightarrow>
          let pg = compound_head B pg in
          if page_anon B pg then None
          else case page_mapping B pg of None \<Rightarrow> None
               | Some (valid, host) \<Rightarrow> if \<not> valid then None else Some host)"

definition bio_needs_cow :: "blk \<Rightarrow> bio \<Rightarrow> nat option \<Rightarrow> bool" where
  "bio_needs_cow B b inode \<longleftrightarrow> bi_op b = REQ_OP_WRITE_ZEROES \<or>
     list_ex (\<lambda>v. page_get_inode B (Some (bv_page v)) \<noteq> inode) (bio_segments b)"

definition bio_is_discard :: "bio \<Rightarrow> bool" where
  "bio_is_discard b \<longleftrightarrow> bi_op b = REQ_OP_DISCARD \<or> bi_op b = REQ_OP_SECURE_ERASE"

definition tracer_queue_matches_bio :: "blk \<Rightarrow> snap_device \<Rightarrow> bio \<Rightarrow> bool" where
  "tracer_queue_matches_bio B dev b \<longleftrightarrow> map_option (bdev_queue B) (sd_base_dev dev) = Some (bdev_queue B (bi_bdev b))"

definition tracer_sector_matches_bio :: "snap_device \<Rightarrow> bio \<Rightarrow> bool" where
  "tracer_sector_matches_bio dev b \<longleftrightarrow> sd_sect_off dev \<le> bi_sector b \<and> bi_sector b < sd_sect_off dev + sd_size dev"

definition tracer_is_bio_for_dev :: "blk \<Rightarrow> snap_device option \<Rightarrow> bio \<Rightarrow> bool" where
  "tracer_is_bio_for_dev B d b =
     (case d of None \<Rightarrow> False
      | Some dev \<Rightarrow>
          if test_bit UNVERIFIED (sd_state dev) \<or> sd_active dev = 0 then False
          else if \<not> tracer_queue_matches_bio B dev b then False
          else sd_sect_off dev \<le> bi_sector b \<and> bi_sector b < sd_sect_off dev + sd_size dev)"

definition tracer_is_bio_for_dev_only_queue :: "blk \<Rightarrow> snap_device option \<Rightarrow> bio \<Rightarrow> bool" where
  "tracer_is_bio_for_dev_only_queue B d b =
     (case d of None \<Rightarrow> False
      | Some dev \<Rightarrow> \<not> test_bit UNVERIFIED (sd_state dev) \<and> tracer_queue_matches_bio B dev b \<and> sd_active dev \<noteq> 0)"

definition tracer_should_trace_bio :: "snap_device option \<Rightarrow> bio \<Rightarrow> bool" where
  "tracer_should_trace_bio d b =
     (case d of None \<Rightarrow> False
      | Some dev \<Rightarrow> \<not> bio_is_discard b \<and> bio_data_dir b \<and> bi_size b \<noteq> 0 \<and> tracer_read_fail_state dev = 0 \<and>
          tracer_sector_matches_bio dev b)"

subsection \<open>Tracing parameters\<close>

text \<open>An operation on parameters that were freed is \<open>None\<close>.\<close>

definition tp_alloc :: "blk \<Rightarrow> addr \<Rightarrow> bheap \<Rightarrow> int \<times> addr option \<times> bheap" where
  "tp_alloc B bio h =
     (if \<not> b_alloc B (bclock h) then (- ENOMEM, None, btick h)
      else let tp = fresh h; h = btick h in
        (0, Some tp, h\<lparr>fresh := Suc tp,
           tps := (tps h)(tp \<mapsto> \<lparr>tp_orig_bio = bio, tp_refs = 1, tp_bio_sects = []\<rparr>)\<rparr>))"

definition tp_get :: "addr \<Rightarrow> bheap \<Rightarrow> bheap option" where
  "tp_get tp h = do {
     p \<leftarrow> tps h tp;
     Some (h\<lparr>tps := (tps h)(tp \<mapsto> p\<lparr>tp_refs := tp_refs p + 1\<rparr>)\<rparr>)
   }"

definition tp_put :: "addr \<Rightarrow> snap_device \<Rightarrow> bheap \<Rightarrow> (snap_device \<times> bheap) option" where
  "tp_put tp dev h = do {
     p \<leftarrow> tps h tp;
     let p = p\<lparr>tp_refs := tp_refs p - 1\<rparr>;
     if tp_refs p = 0
     then Some (dev\<lparr>sd_orig_bios := sd_orig_bios dev @ [tp_orig_bio p]\<rparr>, h\<lparr>tps := (tps h)(tp := None)\<rparr>)
     else Some (dev, h\<lparr>tps := (tps h)(tp \<mapsto> p)\<rparr>)
   }"

definition tp_add :: "blk \<Rightarrow> addr \<Rightarrow> addr \<Rightarrow> bheap \<Rightarrow> (int \<times> bheap) option" where
  "tp_add B tp bio h =
     (if \<not> b_alloc B (bclock h) then Some (- ENOMEM, btick h)
      else do {
        p \<leftarrow> tps h tp;
        let h = btick h;
        Some (0, h\<lparr>tps := (tps h)(tp \<mapsto>
          p\<lparr>tp_bio_sects := tp_bio_sects p @ [(bio, bi_sector (bios h bio), bi_size (bios h bio))]\<rparr>)\<rparr>)
      })"

end
