(* ===== verification/Tracing.thy ===== *)
theory Tracing
  imports Snap_Device
begin

text \<open>
  The tracing of writes: read clones (\<^verbatim>\<open>bio_make_read_clone\<close> and its completion in
  \<^verbatim>\<open>src/src/bio_helper.c\<close>), the two tracers and the entry points that choose between them
  (\<^verbatim>\<open>src/src/tracer.c\<close>), the entry point of the snapshot disk (\<^verbatim>\<open>src/src/snap_ops.c\<close>), and the
  bodies of the kernel threads (\<^verbatim>\<open>src/src/module_threads.c\<close>).

  A whole result is \<open>None\<close> where the code would use memory it has given back.
\<close>

subsection \<open>Read clones\<close>

text \<open>
  The page loop of the clone: \<open>n\<close> pages are still wanted and \<open>i\<close> are in the bio. The boolean is
  whether the loop ended without an allocation failure.
\<close>

fun clone_pages :: "blk \<Rightarrow> nat \<Rightarrow> nat \<Rightarrow> bio_vec list \<Rightarrow> bheap \<Rightarrow> bool \<times> bio_vec list \<times> bheap" where
  "clone_pages B 0 i vs h = (True, vs, h)"
| "clone_pages B (Suc n) i vs h =
     (if \<not> b_alloc B (bclock h) then (False, vs, btick h)
      else let pg = fresh h; h = (btick h)\<lparr>fresh := Suc pg\<rparr>; ok = b_add_page B (bclock h) i; h = btick h in
        if \<not> ok then (True, vs, h)
        else clone_pages B n (Suc i) (vs @ [\<lparr>bv_page = pg, bv_offset = 0, bv_len = PAGE_SIZE\<rparr>]) h)"

text \<open>The result: the code, the clone and the bytes it holds.\<close>

definition bio_make_read_clone ::
  "blk \<Rightarrow> addr \<Rightarrow> addr \<Rightarrow> nat \<Rightarrow> nat \<Rightarrow> bheap \<Rightarrow> (int \<times> addr option \<times> nat \<times> bheap) option" where
  "bio_make_read_clone B tp orig_bio sect npages h =
     (let actual_pages = (if npages > bio_max_vecs B then bio_max_vecs B else npages) in
      if \<not> b_alloc B (bclock h) then Some (- ENOMEM, None, 0, btick h)
      else
        let new_bio = fresh h;
            h = (btick h)\<lparr>fresh := Suc new_bio\<rparr>;
            (ok, vs, h) = clone_pages B actual_pages 0 [] h;
            h = h\<lparr>bios := (bios h)(new_bio :=
                  \<lparr>bi_sector = sect, bi_size = vec_bytes vs, bi_idx = 0, bi_io_vec = vs,
                   bi_bdev = bi_bdev (bios h orig_bio), bi_op = REQ_OP_READ, bi_passthrough = False,
                   bi_private = tp, bi_end_io = 1\<rparr>)\<rparr>
        in if \<not> ok then Some (- ENOMEM, None, 0, bio_free_clone new_bio h)
           else do { h \<leftarrow> tp_get tp h; Some (0, Some new_bio, vec_bytes vs, h) })"

text \<open>
  Completion of a read clone. On success the clone becomes a write at its sector relative to the
  device and is queued for the COW thread; its reference on the tracing parameters is dropped last.
\<close>

fun find_sect :: "addr \<Rightarrow> (addr \<times> nat \<times> nat) list \<Rightarrow> (nat \<times> nat) option" where
  "find_sect b [] = None"
| "find_sect b ((b', sect, sz) # ms) = (if b = b' then Some (sect, sz) else find_sect b ms)"

definition on_bio_read_complete ::
  "addr \<Rightarrow> int \<Rightarrow> snap_device \<Rightarrow> bheap \<Rightarrow> (snap_device \<times> bheap) option" where
  "on_bio_read_complete bio err dev h = do {
     let tp = bi_private (bios h bio);
     if err \<noteq> 0 then do {
       let dev = tracer_set_fail_state err dev;
       (dev, h) \<leftarrow> tp_put tp dev h;
       Some (dev, bio_free_clone bio h)
     } else do {
       p \<leftarrow> tps h tp;
       let b = (bios h bio)\<lparr>bi_op := REQ_OP_WRITE, bi_passthrough := False, bi_end_io := 0\<rparr>;
       let b = (case find_sect bio (tp_bio_sects p) of None \<Rightarrow> b
                | Some (sect, sz) \<Rightarrow> b\<lparr>bi_sector := sect - sd_sect_off dev, bi_size := sz, bi_idx := 0\<rparr>);
       let h = h\<lparr>bios := (bios h)(bio := b\<lparr>bi_private := sd_minor dev\<rparr>)\<rparr>;
       let dev = dev\<lparr>sd_cow_bios := sd_cow_bios dev @ [bio], sd_received_cnt := sd_received_cnt dev + 1\<rparr>;
       tp_put tp dev h
     }
   }"

subsection \<open>Tracing for a snapshot\<close>

text \<open>
  The loop that makes clones until the range is covered. It ends when every clone takes at least
  one page; a clone of no pages would be made again and again, so the loop is a partial function.
  The result is the code, the clone an error left behind, the device and the memory.
\<close>

partial_function (option) clone_loop ::
  "config \<Rightarrow> blk \<Rightarrow> addr \<Rightarrow> addr \<Rightarrow> nat \<Rightarrow> nat \<Rightarrow> snap_device \<Rightarrow> bheap \<Rightarrow>
     (int \<times> addr option \<times> snap_device \<times> bheap) option" where
  "clone_loop C B tp bio start_sect npages dev h = do {
     (ret, new_bio, bytes, h) \<leftarrow> bio_make_read_clone B tp bio start_sect npages h;
     case new_bio of
       None \<Rightarrow> Some (ret, None, dev, h)
     | Some nb \<Rightarrow> do {
         (ret, h) \<leftarrow> tp_add B tp nb h;
         if ret \<noteq> 0 then Some (ret, Some nb, dev, h)
         else do {
           let dev = dev\<lparr>sd_submitted_cnt := sd_submitted_cnt dev + 1\<rparr>;
           let (dev, h) = (if USE_HOOK_TRACER C then (dev\<lparr>sd_read_bios := sd_read_bios dev @ [nb]\<rparr>, h)
                           else (dev, submit_real nb h));
           if bytes div PAGE_SIZE < npages
           then clone_loop C B tp bio (start_sect + bytes div SECTOR_SIZE) (npages - bytes div PAGE_SIZE) dev h
           else Some (0, None, dev, h)
         }
       }
   }"

definition snap_trace_error ::
  "config \<Rightarrow> int \<Rightarrow> addr option \<Rightarrow> addr option \<Rightarrow> snap_device \<Rightarrow> bheap \<Rightarrow> (int \<times> snap_device \<times> bheap) option" where
  "snap_trace_error C ret new_bio tp dev h = do {
     let dev = tracer_set_fail_state ret dev;
     (dev, h) \<leftarrow> (case (new_bio, tp) of
        (Some nb, Some tp) \<Rightarrow> tp_put tp dev (bio_free_clone nb h)
      | _ \<Rightarrow> Some (dev, h));
     case tp of
       Some tp \<Rightarrow> do { (dev, h) \<leftarrow> tp_put tp dev h; Some (if USE_HOOK_TRACER C then 1 else 0, dev, h) }
     | None \<Rightarrow> Some (0, dev, h)
   }"

definition snap_trace_bio ::
  "config \<Rightarrow> blk \<Rightarrow> addr \<Rightarrow> snap_device \<Rightarrow> bheap \<Rightarrow> (int \<times> snap_device \<times> bheap) option" where
  "snap_trace_bio C B bio dev h =
     (let b = bios h bio; off = sd_sect_off dev in
      if \<not> bio_needs_cow B b (sd_cow_inode dev) \<or> tracer_read_fail_state dev \<noteq> 0 then
        (if USE_HOOK_TRACER C then Some (0, dev, h) else Some (0, dev, submit_real bio h))
      else do {
        let start_sect = ROUND_DOWN (bi_sector b - off) SECTORS_PER_BLOCK + off;
        let end_sect = ROUND_UP (bi_sector b + bi_size b div SECTOR_SIZE - off) SECTORS_PER_BLOCK + off;
        let npages = (end_sect - start_sect) div SECTORS_PER_PAGE;
        let (ret, tp, h) = tp_alloc B bio h;
        case tp of
          None \<Rightarrow>
            let dev = tracer_set_fail_state ret dev in
            if USE_HOOK_TRACER C \<or> USE_BDOPS_SUBMIT_BIO C then snap_trace_error C ret None None dev h
            else Some (0, dev, submit_real bio h)
        | Some tp \<Rightarrow> do {
            (ret, new_bio, dev, h) \<leftarrow> clone_loop C B tp bio start_sect npages dev h;
            if ret \<noteq> 0 then snap_trace_error C ret new_bio (Some tp) dev h
            else do {
              (dev, h) \<leftarrow> tp_put tp dev h;
              Some (if USE_HOOK_TRACER C then 1 else 0, dev, h)
            }
          }
      })"

subsection \<open>Tracing for an incremental\<close>

definition inc_make_sset :: "blk \<Rightarrow> nat \<Rightarrow> nat \<Rightarrow> snap_device \<Rightarrow> bheap \<Rightarrow> int \<times> snap_device \<times> bheap" where
  "inc_make_sset B sect len dev h =
     (if \<not> b_alloc B (bclock h) then (- ENOMEM, dev, btick h)
      else (0, dev\<lparr>sd_pending_ssets := sd_pending_ssets dev @ [\<lparr>ss_sect = sect - sd_sect_off dev, ss_len = len\<rparr>]\<rparr>,
            btick h))"

text \<open>
  The loop over the segments: a run of segments that are not pages of the COW file is open from
  \<open>start_sect\<close> on while \<open>is_initialized\<close>; a page of the COW file closes it.
\<close>

fun inc_segments ::
  "blk \<Rightarrow> bio_vec list \<Rightarrow> bool \<Rightarrow> nat \<Rightarrow> nat \<Rightarrow> snap_device \<Rightarrow> bheap \<Rightarrow> int \<times> snap_device \<times> bheap" where
  "inc_segments B [] is_initialized start_sect end_sect dev h =
     (if is_initialized \<and> end_sect - start_sect > 0 then inc_make_sset B start_sect (end_sect - start_sect) dev h
      else (0, dev, h))"
| "inc_segments B (v # vs) is_initialized start_sect end_sect dev h =
     (if page_get_inode B (Some (bv_page v)) \<noteq> sd_cow_inode dev then
        inc_segments B vs True (if is_initialized then start_sect else end_sect) (end_sect + bv_len v div SECTOR_SIZE) dev h
      else
        let (ret, dev, h) = (if is_initialized \<and> end_sect - start_sect > 0
                             then inc_make_sset B start_sect (end_sect - start_sect) dev h else (0, dev, h))
        in if ret \<noteq> 0 then (ret, dev, h)
           else inc_segments B vs False start_sect (end_sect + bv_len v div SECTOR_SIZE) dev h)"

definition inc_trace_bio :: "config \<Rightarrow> blk \<Rightarrow> addr \<Rightarrow> snap_device \<Rightarrow> bheap \<Rightarrow> int \<times> snap_device \<times> bheap" where
  "inc_trace_bio C B bio dev h =
     (let b = bios h bio;
          (ret, dev, h) =
            (if bi_op b = REQ_OP_WRITE_ZEROES then inc_make_sset B (bi_sector b) (bi_size b div SECTOR_SIZE) dev h
             else inc_segments B (bio_segments b) False 0 (bi_sector b) dev h);
          dev = (if ret \<noteq> 0 then tracer_set_fail_state ret dev else dev)
      in (0, dev, if USE_HOOK_TRACER C then h else submit_real bio h))"

subsection \<open>Entry points\<close>

text \<open>
  The hook: the devices in the order of their minors; the first device that claims the bio traces
  it. A passthrough bio loses its flag at each device it belongs to and is not traced there. One
  device is looked at per step; the list is the part of the device array the loop walks.
\<close>

fun moocbt_trace_bio ::
  "config \<Rightarrow> blk \<Rightarrow> addr \<Rightarrow> snap_device option list \<Rightarrow> bheap \<Rightarrow> (int \<times> snap_device option list \<times> bheap) option" where
  "moocbt_trace_bio C B bio [] h = Some (0, [], h)"
| "moocbt_trace_bio C B bio (d # ds) h =
     (let skip = (\<lambda>h. do { (ret, ds, h) \<leftarrow> moocbt_trace_bio C B bio ds h; Some (ret, d # ds, h) }) in
      case d of None \<Rightarrow> skip h
      | Some dev \<Rightarrow>
          if \<not> tracer_is_bio_for_dev B d (bios h bio) then skip h
          else if bi_passthrough (bios h bio) then
            skip (h\<lparr>bios := (bios h)(bio := (bios h bio)\<lparr>bi_passthrough := False\<rparr>)\<rparr>)
          else if tracer_should_trace_bio d (bios h bio) then
            (if test_bit SNAPSHOT (sd_state dev) then do {
               (ret, dev, h) \<leftarrow> snap_trace_bio C B bio dev h; Some (ret, Some dev # ds, h)
             } else let (ret, dev, h) = inc_trace_bio C B bio dev h in Some (ret, Some dev # ds, h))
          else skip h)"

text \<open>The entry point of the snapshot disk: reads only, refused when failed or not active.\<close>

definition snap_mrf :: "addr \<Rightarrow> snap_device \<Rightarrow> bheap \<Rightarrow> snap_device \<times> bheap" where
  "snap_mrf bio dev h =
     (if bio_data_dir (bios h bio) then (dev, moocbt_bio_endio bio (- EOPNOTSUPP) h)
      else if tracer_read_fail_state dev \<noteq> 0 then (dev, moocbt_bio_endio bio (- EIO) h)
      else if \<not> test_bit ACTIVE (sd_state dev) then (dev, moocbt_bio_endio bio (- EBUSY) h)
      else (dev\<lparr>sd_cow_bios := sd_cow_bios dev @ [bio]\<rparr>, h))"

text \<open>Opening and closing the snapshot disk.\<close>

definition tracer_add_ref :: "int \<Rightarrow> snap_device option \<Rightarrow> int \<times> snap_device option" where
  "tracer_add_ref ref_cnt d = (case d of None \<Rightarrow> (- EFAULT, None) | Some dev \<Rightarrow> (0, Some (dev\<lparr>sd_refs := sd_refs dev + ref_cnt\<rparr>)))"

subsection \<open>Thread bodies\<close>

text \<open>
  One turn of a thread loop, after its wait. \<open>is_failed\<close> is the local of the thread; the manager is
  \<open>None\<close> when the device has none. The first turn that sees the failure state releases the manager.
\<close>

definition thread_fail_check ::
  "kernel \<Rightarrow> bool \<Rightarrow> snap_device \<Rightarrow> world \<Rightarrow> cow_manager option \<Rightarrow> bool \<times> world \<times> cow_manager option" where
  "thread_fail_check K is_failed dev w cow =
     (if \<not> is_failed \<and> tracer_read_fail_state dev \<noteq> 0 then
        (case cow of None \<Rightarrow> (True, w, None)
         | Some cm \<Rightarrow> let (w, cm) = cow_free_members K w cm in (True, w, Some cm))
      else (is_failed, w, cow))"

definition inc_sset_thread ::
  "kernel \<Rightarrow> bool \<Rightarrow> snap_device \<Rightarrow> world \<Rightarrow> cow_manager option \<Rightarrow>
     (bool \<times> snap_device \<times> world \<times> cow_manager option) option" where
  "inc_sset_thread K is_failed dev w cow =
     (let (is_failed, w, cow) = thread_fail_check K is_failed dev w cow in
      case sd_pending_ssets dev of
        [] \<Rightarrow> Some (is_failed, dev, w, cow)
      | sset # rest \<Rightarrow>
          let dev = dev\<lparr>sd_pending_ssets := rest\<rparr> in
          if is_failed then Some (is_failed, dev, w, cow)
          else do {
            cm \<leftarrow> cow;
            (ret, w, cm) \<leftarrow> inc_handle_sset K sset w cm;
            let dev = (if ret \<noteq> 0 then tracer_set_fail_state ret dev else dev);
            Some (is_failed, dev, w, Some cm)
          })"

definition snap_cow_thread ::
  "kernel \<Rightarrow> submit \<Rightarrow> buf \<Rightarrow> bool \<Rightarrow> snap_device \<Rightarrow> bheap \<Rightarrow> world \<Rightarrow> cow_manager option \<Rightarrow>
     (bool \<times> snap_device \<times> bheap \<times> world \<times> cow_manager option) option" where
  "snap_cow_thread K submit D is_failed dev h w cow =
     (let (is_failed, w, cow) = thread_fail_check K is_failed dev w cow in
      if sd_cow_bios dev = [] then Some (is_failed, dev, h, w, cow)
      else
        let (bio, rest) = delay_dequeue (bios h) (sd_cow_bios dev);
            dev = dev\<lparr>sd_cow_bios := rest\<rparr>
        in if \<not> bio_data_dir (bios h bio) then
             (if is_failed then Some (is_failed, dev, moocbt_bio_endio bio (- EIO) h, w, cow)
              else do {
                cm \<leftarrow> cow;
                base \<leftarrow> sd_base_dev dev;
                (ret, b, P, w, cm) \<leftarrow> snap_handle_read_bio K submit base D (bios h bio) (pages_of h) w cm;
                let h = h\<lparr>bios := (bios h)(bio := b), pages_of := P\<rparr>;
                let dev = (if ret \<noteq> 0 then tracer_set_fail_state ret dev else dev);
                Some (is_failed, dev, moocbt_bio_endio bio (if ret \<noteq> 0 then - EIO else 0) h, w, Some cm)
              })
           else if is_failed then Some (is_failed, dev, bio_free_clone bio h, w, cow)
           else do {
             cm \<leftarrow> cow;
             (ret, w, cm) \<leftarrow> snap_handle_write_bio K (bios h bio) (pages_of h) w cm;
             let dev = (if ret \<noteq> 0 then tracer_set_fail_state ret dev else dev);
             Some (is_failed, dev, bio_free_clone bio h, w, Some cm)
           })"

text \<open>The condition of the COW thread's loop: it runs on while clones are out, unless it failed.\<close>

definition snap_cow_thread_runs :: "bool \<Rightarrow> bool \<Rightarrow> snap_device \<Rightarrow> bool" where
  "snap_cow_thread_runs should_stop is_failed dev \<longleftrightarrow>
     \<not> should_stop \<or> sd_cow_bios dev \<noteq> [] \<or> (sd_submitted_cnt dev \<noteq> sd_received_cnt dev \<and> \<not> is_failed)"

definition snap_mrf_thread :: "snap_device \<Rightarrow> bheap \<Rightarrow> snap_device \<times> bheap" where
  "snap_mrf_thread dev h =
     (case sd_orig_bios dev of [] \<Rightarrow> (dev, h)
      | bio # rest \<Rightarrow>
          (dev\<lparr>sd_orig_bios := rest\<rparr>,
           submit_real bio (h\<lparr>bios := (bios h)(bio := (bios h bio)\<lparr>bi_passthrough := True\<rparr>)\<rparr>)))"

definition snap_read_thread :: "snap_device \<Rightarrow> bheap \<Rightarrow> snap_device \<times> bheap" where
  "snap_read_thread dev h =
     (case sd_read_bios dev of [] \<Rightarrow> (dev, h)
      | bio # rest \<Rightarrow> (dev\<lparr>sd_read_bios := rest\<rparr>, submit_real bio h))"

text \<open>Several turns of the COW thread, of an incremental and of a snapshot.\<close>

fun inc_run ::
  "kernel \<Rightarrow> nat \<Rightarrow> bool \<times> snap_device \<times> world \<times> cow_manager option \<Rightarrow>
     (bool \<times> snap_device \<times> world \<times> cow_manager option) option" where
  "inc_run K 0 st = Some st"
| "inc_run K (Suc n) (is_failed, dev, w, cow) = inc_sset_thread K is_failed dev w cow \<bind> inc_run K n"

fun cow_run ::
  "kernel \<Rightarrow> submit \<Rightarrow> buf \<Rightarrow> nat \<Rightarrow> bool \<times> snap_device \<times> bheap \<times> world \<times> cow_manager option \<Rightarrow>
     (bool \<times> snap_device \<times> bheap \<times> world \<times> cow_manager option) option" where
  "cow_run K submit D 0 st = Some st"
| "cow_run K submit D (Suc n) (is_failed, dev, h, w, cow) =
     snap_cow_thread K submit D is_failed dev h w cow \<bind> cow_run K submit D n"

end
