(* ===== verification/Tracing_Lemmas.thy ===== *)
theory Tracing_Lemmas
  imports Tracing
begin

text \<open>
  What the tracers do with a write: the read clones of a snapshot cover the blocks it touches, the
  tracer always returns, and the deferred write is held until the clones are done.
\<close>

subsection \<open>Clones\<close>

text \<open>The pages of a clone: whole pages, all new and all different.\<close>

definition new_pages :: "nat \<Rightarrow> nat \<Rightarrow> bio_vec list \<Rightarrow> bool" where
  "new_pages lo hi vs \<longleftrightarrow> distinct (map bv_page vs) \<and>
     (\<forall>v \<in> set vs. bv_offset v = 0 \<and> bv_len v = PAGE_SIZE \<and> lo \<le> bv_page v \<and> bv_page v < hi)"

lemma new_pages_append:
  "new_pages lo mid us \<Longrightarrow> new_pages mid hi vs \<Longrightarrow> lo \<le> mid \<Longrightarrow> mid \<le> hi \<Longrightarrow> new_pages lo hi (us @ vs)"
  by (fastforce simp: new_pages_def)

lemma clone_pages_ok:
  "clone_pages B n i vs h = (ok, vs', h') \<Longrightarrow>
   \<exists>us f k. vs' = vs @ us \<and> new_pages (fresh h) f us \<and> length us \<le> n \<and> fresh h \<le> f \<and>
     h' = h\<lparr>fresh := f, bclock := k\<rparr> \<and> (ok \<longrightarrow> n \<noteq> 0 \<longrightarrow> (\<forall>t. b_add_page B t i) \<longrightarrow> us \<noteq> [])"
proof (induction n arbitrary: i vs h)
  case 0
  then show ?case by (intro exI[of _ "[]"] exI[of _ "fresh h"] exI[of _ "bclock h"]) (auto simp: new_pages_def)
next
  case (Suc n)
  let ?h = "btick ((btick h)\<lparr>fresh := Suc (fresh h)\<rparr>)"
  let ?v = "\<lparr>bv_page = fresh h, bv_offset = 0, bv_len = 4096\<rparr>"
  consider (noalloc) "\<not> b_alloc B (bclock h)" | (full) "b_alloc B (bclock h)" "\<not> b_add_page B (Suc (bclock h)) i"
    | (more) "b_alloc B (bclock h)" "b_add_page B (Suc (bclock h)) i" by blast
  then show ?case
  proof cases
    case noalloc
    then show ?thesis using Suc.prems
      by (intro exI[of _ "[]"] exI[of _ "fresh h"] exI[of _ "Suc (bclock h)"]) (auto simp: new_pages_def btick_def)
  next
    case full
    then show ?thesis using Suc.prems
      by (intro exI[of _ "[]"] exI[of _ "Suc (fresh h)"] exI[of _ "Suc (Suc (bclock h))"])
        (auto simp: new_pages_def btick_def Let_def)
  next
    case more
    then have "clone_pages B n (Suc i) (vs @ [?v]) ?h = (ok, vs', h')"
      using Suc.prems by (simp add: Let_def btick_def)
    from Suc.IH[OF this] obtain us f k where us: "vs' = (vs @ [?v]) @ us" "new_pages (Suc (fresh h)) f us"
      "length us \<le> n" "Suc (fresh h) \<le> f" "h' = ?h\<lparr>fresh := f, bclock := k\<rparr>" by (auto simp: btick_def)
    have "new_pages (fresh h) (Suc (fresh h)) [?v]" by (simp add: new_pages_def)
    from new_pages_append[OF this us(2) _ us(4)] have "new_pages (fresh h) f (?v # us)" by simp
    then show ?thesis using us by (intro exI[of _ "?v # us"] exI[of _ f] exI[of _ k]) (auto simp: btick_def)
  qed
qed

definition clone_bio :: "addr \<Rightarrow> nat \<Rightarrow> nat \<Rightarrow> bio_vec list \<Rightarrow> bio" where
  "clone_bio tp dv sect vs = \<lparr>bi_sector = sect, bi_size = vec_bytes vs, bi_idx = 0, bi_io_vec = vs, bi_bdev = dv,
     bi_op = REQ_OP_READ, bi_passthrough = False, bi_private = tp, bi_end_io = 1\<rparr>"

lemma bio_make_read_clone_ok:
  assumes "bio_make_read_clone B tp bio sect n h = Some (ret, nb, bytes, h')"
  obtains (err) "nb = None" "ret \<noteq> 0" "tps h' = tps h"
  | (ok) vs p f k where "nb = Some (fresh h)" "ret = 0" "bytes = vec_bytes vs"
    "new_pages (Suc (fresh h)) f vs" "length vs \<le> n" "Suc (fresh h) \<le> f" "tps h tp = Some p"
    "h' = h\<lparr>bios := (bios h)(fresh h := clone_bio tp (bi_bdev (bios h bio)) sect vs),
        tps := (tps h)(tp \<mapsto> p\<lparr>tp_refs := tp_refs p + 1\<rparr>), fresh := f, bclock := k\<rparr>"
    "0 < bio_max_vecs B \<longrightarrow> 0 < n \<longrightarrow> (\<forall>t. b_add_page B t 0) \<longrightarrow> vs \<noteq> []"
proof (cases "b_alloc B (bclock h)")
  case False
  then show thesis using assms by (intro err) (auto simp: bio_make_read_clone_def btick_def)
next
  case True
  let ?m = "if n > bio_max_vecs B then bio_max_vecs B else n"
  let ?h1 = "(btick h)\<lparr>fresh := Suc (fresh h)\<rparr>"
  obtain ok vs h2 where cp: "clone_pages B ?m 0 [] ?h1 = (ok, vs, h2)" by (metis prod_cases3)
  from clone_pages_ok[OF cp] obtain us f k where u: "vs = [] @ us" "new_pages (fresh ?h1) f us" "length us \<le> ?m"
    "fresh ?h1 \<le> f" "h2 = ?h1\<lparr>fresh := f, bclock := k\<rparr>" "ok \<longrightarrow> ?m \<noteq> 0 \<longrightarrow> (\<forall>t. b_add_page B t 0) \<longrightarrow> us \<noteq> []"
    by blast
  have us: "new_pages (Suc (fresh h)) f vs" "length vs \<le> ?m" "Suc (fresh h) \<le> f"
    "h2 = ?h1\<lparr>fresh := f, bclock := k\<rparr>" "ok \<longrightarrow> ?m \<noteq> 0 \<longrightarrow> (\<forall>t. b_add_page B t 0) \<longrightarrow> vs \<noteq> []"
    using u by simp_all
  show thesis
  proof (cases ok)
    case False
    then show thesis using assms True cp us(4)
      by (intro err) (auto simp: bio_make_read_clone_def btick_def bio_free_clone_def Let_def)
  next
    case k: True
    then obtain p where p: "tps h tp = Some p"
      using assms True cp us(4) by (auto simp: bio_make_read_clone_def tp_get_def Let_def btick_def split: bind_splits)
    show thesis using assms True cp us(4) k p
      by (intro ok[of vs f p k]) (use us in \<open>auto simp: bio_make_read_clone_def tp_get_def Let_def btick_def clone_bio_def
        split: if_splits\<close>)
  qed
qed


text \<open>
  Clones in a row: each starts where the one before ended, and together they hold \<open>n\<close> pages from
  sector \<open>s\<close> on.
\<close>

fun chain :: "(addr \<Rightarrow> bio) \<Rightarrow> addr list \<Rightarrow> nat \<Rightarrow> nat \<Rightarrow> bool" where
  "chain bs [] s n \<longleftrightarrow> n = 0"
| "chain bs (c # cs) s n \<longleftrightarrow> bi_sector (bs c) = s \<and> length (bi_io_vec (bs c)) \<le> n \<and>
     chain bs cs (s + SECTORS_PER_PAGE * length (bi_io_vec (bs c))) (n - length (bi_io_vec (bs c)))"

definition clone_pages_of :: "(addr \<Rightarrow> bio) \<Rightarrow> addr list \<Rightarrow> page_id list" where
  "clone_pages_of bs cs = concat (map (\<lambda>c. map bv_page (bi_io_vec (bs c))) cs)"

lemma clone_pages_of_simps [simp]:
  "clone_pages_of bs [] = []"
  "clone_pages_of bs (c # cs) = map bv_page (bi_io_vec (bs c)) @ clone_pages_of bs cs"
  by (simp_all add: clone_pages_of_def)

definition cloned ::
  "config \<Rightarrow> addr \<Rightarrow> nat \<Rightarrow> nat \<Rightarrow> addr list \<Rightarrow> snap_device \<Rightarrow> bheap \<Rightarrow> snap_device \<Rightarrow> bheap \<Rightarrow> bool" where
  "cloned C tp s n cs dev h dev' h' \<longleftrightarrow>
     dev' = dev\<lparr>sd_submitted_cnt := sd_submitted_cnt dev + of_nat (length cs),
                sd_read_bios := sd_read_bios dev @ (if USE_HOOK_TRACER C then cs else [])\<rparr> \<and>
     submitted h' = submitted h @ (if USE_HOOK_TRACER C then [] else cs) \<and>
     pages_of h' = pages_of h \<and> ended h' = ended h \<and>
     (\<forall>a < fresh h. bios h' a = bios h a) \<and> fresh h \<le> fresh h' \<and>
     (\<exists>p. tps h tp = Some p \<and> tps h' = (tps h)(tp \<mapsto> p\<lparr>tp_refs := tp_refs p + int (length cs),
        tp_bio_sects := tp_bio_sects p @ map (\<lambda>c. (c, bi_sector (bios h' c), bi_size (bios h' c))) cs\<rparr>)) \<and>
     distinct cs \<and> (\<forall>c \<in> set cs. fresh h \<le> c \<and> c < fresh h') \<and>
     (\<forall>c \<in> set cs. \<exists>dv sc vs. bios h' c = clone_bio tp dv sc vs \<and> new_pages (fresh h) (fresh h') vs) \<and>
     distinct (clone_pages_of (bios h') cs) \<and> chain (bios h') cs s n"

lemma new_pages_mono: "new_pages lo hi vs \<Longrightarrow> lo' \<le> lo \<Longrightarrow> hi \<le> hi' \<Longrightarrow> new_pages lo' hi' vs"
  by (force simp: new_pages_def)

lemma new_pages_bytes: "new_pages lo hi vs \<Longrightarrow> vec_bytes vs = length vs * PAGE_SIZE"
  by (induction vs) (auto simp: new_pages_def vec_bytes_def)

lemma clone_bio_simps [simp]:
  "bi_sector (clone_bio tp dv sc vs) = sc" "bi_size (clone_bio tp dv sc vs) = vec_bytes vs"
  "bi_io_vec (clone_bio tp dv sc vs) = vs" "bi_private (clone_bio tp dv sc vs) = tp"
  "bi_op (clone_bio tp dv sc vs) = REQ_OP_READ" "bi_idx (clone_bio tp dv sc vs) = 0"
  by (simp_all add: clone_bio_def)

text \<open>One turn of the loop up to the test: the clone made, recorded and handed on.\<close>

definition one_clone ::
  "config \<Rightarrow> addr \<Rightarrow> nat \<Rightarrow> bio_vec list \<Rightarrow> snap_device \<Rightarrow> bheap \<Rightarrow> snap_device \<Rightarrow> bheap \<Rightarrow> bool" where
  "one_clone C tp s vs dev h dev1 h1 \<longleftrightarrow>
     dev1 = dev\<lparr>sd_submitted_cnt := sd_submitted_cnt dev + 1,
        sd_read_bios := sd_read_bios dev @ (if USE_HOOK_TRACER C then [fresh h] else [])\<rparr> \<and>
     submitted h1 = submitted h @ (if USE_HOOK_TRACER C then [] else [fresh h]) \<and>
     pages_of h1 = pages_of h \<and> ended h1 = ended h \<and> new_pages (Suc (fresh h)) (fresh h1) vs \<and> Suc (fresh h) \<le> fresh h1 \<and>
     (\<exists>dv p. bios h1 = (bios h)(fresh h := clone_bio tp dv s vs) \<and> tps h tp = Some p \<and>
        tps h1 = (tps h)(tp \<mapsto> p\<lparr>tp_refs := tp_refs p + 1, tp_bio_sects := tp_bio_sects p @ [(fresh h, s, vec_bytes vs)]\<rparr>))"

lemma one_clone_cloned:
  assumes o: "one_clone C tp s vs dev h dev1 h1" and le: "length vs \<le> n"
    and c: "cloned C tp (s + 8 * length vs) (n - length vs) cs dev1 h1 dev' h'"
  shows "cloned C tp s n (fresh h # cs) dev h dev' h'"
proof -
  from o obtain dv p where b: "bios h1 = (bios h)(fresh h := clone_bio tp dv s vs)" and p: "tps h tp = Some p"
    and t: "tps h1 = (tps h)(tp \<mapsto> p\<lparr>tp_refs := tp_refs p + 1, tp_bio_sects := tp_bio_sects p @ [(fresh h, s, vec_bytes vs)]\<rparr>)"
    unfolding one_clone_def by blast
  have np: "new_pages (Suc (fresh h)) (fresh h1) vs" "Suc (fresh h) \<le> fresh h1" using o by (simp_all add: one_clone_def)
  have keep: "\<forall>a < fresh h1. bios h' a = bios h1 a" and f: "fresh h1 \<le> fresh h'"
    and cl: "\<forall>c \<in> set cs. \<exists>dv sc vs. bios h' c = clone_bio tp dv sc vs \<and> new_pages (fresh h1) (fresh h') vs"
    and dc: "distinct cs" "\<forall>c \<in> set cs. fresh h1 \<le> c \<and> c < fresh h'" using c by (simp_all add: cloned_def)
  have nb: "bios h' (fresh h) = clone_bio tp dv s vs" using keep np(2) b by simp
  have pg: "pg \<in> set (clone_pages_of (bios h') cs) \<Longrightarrow> fresh h1 \<le> pg" for pg
    using cl by (fastforce simp: clone_pages_of_def new_pages_def)
  have "set (map bv_page vs) \<inter> set (clone_pages_of (bios h') cs) = {}"
    using np(1) pg by (force simp: new_pages_def)
  then have "distinct (clone_pages_of (bios h') (fresh h # cs))"
    using c np(1) nb by (simp add: cloned_def new_pages_def)
  moreover have "\<forall>a < fresh h. bios h' a = bios h a" using keep b np(2) by auto
  moreover have "\<forall>c \<in> set (fresh h # cs). \<exists>dv sc vs. bios h' c = clone_bio tp dv sc vs \<and> new_pages (fresh h) (fresh h') vs"
    using nb cl np f new_pages_mono[of _ _ _ "fresh h" "fresh h'"] by auto
      (metis Suc_leD le_SucI le_refl new_pages_mono)+
  moreover have "tps h' = (tps h)(tp \<mapsto> p\<lparr>tp_refs := tp_refs p + int (length (fresh h # cs)),
        tp_bio_sects := tp_bio_sects p @ map (\<lambda>c. (c, bi_sector (bios h' c), bi_size (bios h' c))) (fresh h # cs)\<rparr>)"
    using c t nb by (auto simp: cloned_def fun_eq_iff)
  moreover have "chain (bios h') (fresh h # cs) s n" using c nb le by (simp add: cloned_def)
  moreover have "fresh h \<notin> set cs" using dc(2) np(2) by auto
  ultimately show ?thesis using o c p dc np(2) f by (auto simp: cloned_def one_clone_def)
qed


lemma cloned_Nil: "tps h tp = Some p \<Longrightarrow> cloned C tp s 0 [] dev h dev h"
  by (auto simp: cloned_def)

lemma tp_add_ok:
  assumes "tp_add B tp nb h = Some (ret, h')"
  obtains (err) "ret \<noteq> 0" "tps h' = tps h"
  | (ok) p k where "ret = 0" "tps h tp = Some p"
    "h' = h\<lparr>tps := (tps h)(tp \<mapsto> p\<lparr>tp_bio_sects := tp_bio_sects p @ [(nb, bi_sector (bios h nb), bi_size (bios h nb))]\<rparr>),
       bclock := k\<rparr>"
proof (cases "b_alloc B (bclock h)")
  case False
  then show thesis using assms by (intro err) (auto simp: tp_add_def btick_def)
next
  case True
  then obtain p where p: "tps h tp = Some p" using assms by (auto simp: tp_add_def split: bind_splits)
  show thesis using assms True p by (intro ok[of p "Suc (bclock h)"]) (auto simp: tp_add_def btick_def)
qed

lemma clone_step:
  assumes mk: "bio_make_read_clone B tp bio s n h = Some (ret, Some nb, bytes, h1)" and ad: "tp_add B tp nb h1 = Some (0, h2)"
  obtains vs where "bytes = length vs * PAGE_SIZE" "length vs \<le> n" "nb = fresh h"
    "one_clone C tp s vs dev h
       (if USE_HOOK_TRACER C then dev\<lparr>sd_submitted_cnt := sd_submitted_cnt dev + 1, sd_read_bios := sd_read_bios dev @ [nb]\<rparr>
        else dev\<lparr>sd_submitted_cnt := sd_submitted_cnt dev + 1\<rparr>)
       (if USE_HOOK_TRACER C then h2 else submit_real nb h2)"
    "0 < bio_max_vecs B \<longrightarrow> 0 < n \<longrightarrow> (\<forall>t. b_add_page B t 0) \<longrightarrow> vs \<noteq> []"
  using mk
proof (cases rule: bio_make_read_clone_ok)
  case (ok vs p f k)
  from ad show thesis
  proof (cases rule: tp_add_ok)
    case ad: (ok q k')
    show thesis
    proof (rule that[of vs])
      show "bytes = length vs * PAGE_SIZE" "length vs \<le> n" "nb = fresh h"
        using ok new_pages_bytes by auto
      show "0 < bio_max_vecs B \<longrightarrow> 0 < n \<longrightarrow> (\<forall>t. b_add_page B t 0) \<longrightarrow> vs \<noteq> []" by (rule ok(9))
      show "one_clone C tp s vs dev h
       (if USE_HOOK_TRACER C then dev\<lparr>sd_submitted_cnt := sd_submitted_cnt dev + 1, sd_read_bios := sd_read_bios dev @ [nb]\<rparr>
        else dev\<lparr>sd_submitted_cnt := sd_submitted_cnt dev + 1\<rparr>)
       (if USE_HOOK_TRACER C then h2 else submit_real nb h2)"
        using ok ad unfolding one_clone_def submit_real_def by (cases "USE_HOOK_TRACER C") auto
    qed
  qed simp
qed simp

lemma clone_loop_cloned:
  assumes "clone_loop C B tp bio s n dev h = Some (0, nb, dev', h')"
  shows "\<exists>cs. cloned C tp s n cs dev h dev' h'"
proof -
  have "fst y = 0 \<longrightarrow> (\<exists>cs. cloned C tp s n cs dev h (fst (snd (snd y))) (snd (snd (snd y))))"
    if "clone_loop C B tp bio s n dev h = Some y" for y
  proof (rule clone_loop.raw_induct[where P = "\<lambda>C B tp bio s n dev h y. fst y = 0 \<longrightarrow>
      (\<exists>cs. cloned C tp s n cs dev h (fst (snd (snd y))) (snd (snd (snd y))))", OF _ that], goal_cases)
    case (1 rec C B tp bio s n dev h y)
    show ?case
    proof (intro impI)
      assume y0: "fst y = 0"
      from 1(2) obtain ret nb bytes h1 where mk: "bio_make_read_clone B tp bio s n h = Some (ret, nb, bytes, h1)"
        by (auto split: bind_splits)
      show "\<exists>cs. cloned C tp s n cs dev h (fst (snd (snd y))) (snd (snd (snd y)))"
      proof (cases nb)
        case None
        with mk y0 1(2) show ?thesis by (cases rule: bio_make_read_clone_ok[OF mk]) auto
      next
        case (Some b)
        with 1(2) mk y0 obtain h2 where ad: "tp_add B tp b h1 = Some (0, h2)"
          by (auto split: bind_splits if_splits)
        let ?dev = "if USE_HOOK_TRACER C then dev\<lparr>sd_submitted_cnt := sd_submitted_cnt dev + 1, sd_read_bios := sd_read_bios dev @ [b]\<rparr>
          else dev\<lparr>sd_submitted_cnt := sd_submitted_cnt dev + 1\<rparr>"
        let ?h = "if USE_HOOK_TRACER C then h2 else submit_real b h2"
        obtain vs where vs: "bytes = length vs * 4096" "length vs \<le> n" "b = fresh h" "one_clone C tp s vs dev h ?dev ?h"
          using clone_step[OF mk[unfolded Some] ad, of C dev] by blast
        have y: "(if length vs < n then rec C B tp bio (s + 8 * length vs) (n - length vs) ?dev ?h
            else Some (0, None, ?dev, ?h)) = Some y"
          using 1(2) mk Some ad vs(1) by (auto simp: Let_def split: if_splits)
        show ?thesis
        proof (cases "length vs < n")
          case True
          with y have "rec C B tp bio (s + 8 * length vs) (n - length vs) ?dev ?h = Some y" by simp
          from 1(1)[OF this] y0 obtain cs where
            "cloned C tp (s + 8 * length vs) (n - length vs) cs ?dev ?h (fst (snd (snd y))) (snd (snd (snd y)))" by blast
          from one_clone_cloned[OF vs(4,2) this] show ?thesis by blast
        next
          case False
          then have z: "n - length vs = 0" and e: "y = (0, None, ?dev, ?h)" using y by simp_all
          obtain p where "tps ?h tp = Some p" using vs(4) unfolding one_clone_def by (metis fun_upd_same)
          from cloned_Nil[OF this] have "cloned C tp (s + 8 * length vs) (n - length vs) [] ?dev ?h ?dev ?h" unfolding z .
          from one_clone_cloned[OF vs(4,2) this] show ?thesis unfolding e by (metis fst_conv snd_conv)
        qed
      qed
    qed
  qed
  from this[OF assms] show ?thesis by simp
qed


subsection \<open>The tracer returns and accounts for the bio\<close>

text \<open>What the block layer documents: an empty bio takes at least one page.\<close>

definition blk_progress :: "blk \<Rightarrow> bool" where
  "blk_progress B \<longleftrightarrow> 0 < bio_max_vecs B \<and> (\<forall>t. b_add_page B t 0)"

lemma make_clone_total:
  assumes "tps h tp = Some p"
  shows "\<exists>r. bio_make_read_clone B tp bio s n h = Some r"
proof (cases "b_alloc B (bclock h)")
  case True
  let ?m = "if n > bio_max_vecs B then bio_max_vecs B else n"
  obtain ok vs h2 where cp: "clone_pages B ?m 0 [] ((btick h)\<lparr>fresh := Suc (fresh h)\<rparr>) = (ok, vs, h2)" by (metis prod_cases3)
  from clone_pages_ok[OF cp] have "tps h2 = tps h" by (auto simp: btick_def)
  then show ?thesis using True cp assms by (simp add: bio_make_read_clone_def tp_get_def Let_def)
qed (simp add: bio_make_read_clone_def)

text \<open>The loop returns, the parameters are live, and a clone left behind has a reference of its own.\<close>

definition clone_post ::
  "addr \<Rightarrow> addr \<Rightarrow> (int \<times> addr option \<times> snap_device \<times> bheap) option \<Rightarrow> bool" where
  "clone_post tp bio r \<longleftrightarrow> (\<exists>ret nb dev' h' p'. r = Some (ret, nb, dev', h') \<and> tps h' tp = Some p' \<and>
     (if nb = None then 1 else 2) \<le> tp_refs p' \<and> tp_orig_bio p' = bio)"

lemma clone_loop_total:
  assumes B: "blk_progress B"
  shows "tps h tp = Some p \<Longrightarrow> 1 \<le> tp_refs p \<Longrightarrow> clone_post tp (tp_orig_bio p) (clone_loop C B tp bio s n dev h)"
proof (induction n arbitrary: s dev h p rule: less_induct)
  case (less n)
  obtain ret nb bytes h1 where mk: "bio_make_read_clone B tp bio s n h = Some (ret, nb, bytes, h1)"
    using make_clone_total[OF less.prems(1)] by (metis prod_cases4)
  show ?case
  proof (cases nb)
    case None
    with mk have "tps h1 = tps h" by (cases rule: bio_make_read_clone_ok[OF mk]) auto
    then show ?thesis using None mk less.prems by (subst clone_loop.simps) (auto simp: clone_post_def)
  next
    case (Some b)
    obtain p1 where p1: "tps h1 tp = Some p1" "tp_refs p1 = tp_refs p + 1" "tp_orig_bio p1 = tp_orig_bio p"
      using Some less.prems by (cases rule: bio_make_read_clone_ok[OF mk]) auto
    obtain r2 h2 where ad: "tp_add B tp b h1 = Some (r2, h2)"
      using p1 by (cases "b_alloc B (bclock h1)") (auto simp: tp_add_def Let_def)
    show ?thesis
    proof (cases "r2 = 0")
      case False
      then have "tps h2 = tps h1" by (cases rule: tp_add_ok[OF ad]) auto
      then show ?thesis using Some mk ad False p1 less.prems by (subst clone_loop.simps) (auto simp: clone_post_def)
    next
      case True
      let ?dev = "if USE_HOOK_TRACER C then dev\<lparr>sd_submitted_cnt := sd_submitted_cnt dev + 1, sd_read_bios := sd_read_bios dev @ [b]\<rparr>
          else dev\<lparr>sd_submitted_cnt := sd_submitted_cnt dev + 1\<rparr>"
      let ?h = "if USE_HOOK_TRACER C then h2 else submit_real b h2"
      obtain vs where vs: "bytes = length vs * 4096" "length vs \<le> n" "one_clone C tp s vs dev h ?dev ?h"
        "0 < bio_max_vecs B \<longrightarrow> 0 < n \<longrightarrow> (\<forall>t. b_add_page B t 0) \<longrightarrow> vs \<noteq> []"
        by (rule clone_step[OF mk[unfolded Some] ad[unfolded True], of C dev])
      obtain p0 where p0: "tps h tp = Some p0" "tps ?h = (tps h)(tp \<mapsto> p0\<lparr>tp_refs := tp_refs p0 + 1,
          tp_bio_sects := tp_bio_sects p0 @ [(fresh h, s, vec_bytes vs)]\<rparr>)"
        using vs(3) unfolding one_clone_def by blast
      then obtain q where q: "tps ?h tp = Some q" "tp_refs q = tp_refs p + 1" "tp_orig_bio q = tp_orig_bio p"
        using less.prems(1) by simp
      have eq: "clone_loop C B tp bio s n dev h = (if length vs < n
          then clone_loop C B tp bio (s + 8 * length vs) (n - length vs) ?dev ?h else Some (0, None, ?dev, ?h))"
        using mk Some ad True vs(1) by (subst clone_loop.simps) (auto simp: Let_def)
      show ?thesis
      proof (cases "length vs < n")
        case lt: True
        then have "n - length vs < n" using vs(4) B by (auto simp: blk_progress_def)
        from less.IH[OF this q(1), of "s + 8 * length vs" ?dev] less.prems(2) q lt show ?thesis unfolding eq by simp
      next
        case False
        then show ?thesis unfolding eq using q less.prems by (auto simp: clone_post_def)
      qed
    qed
  qed
qed

text \<open>Where a deferred bio is: queued for resubmission, or held by live tracing parameters.\<close>

definition deferred :: "addr \<Rightarrow> snap_device \<Rightarrow> bheap \<Rightarrow> bool" where
  "deferred bio dev h \<longleftrightarrow> bio \<in> set (sd_orig_bios dev) \<or> (\<exists>tp p. tps h tp = Some p \<and> tp_orig_bio p = bio)"

lemma tp_put_deferred:
  assumes "tps h tp = Some p" "tp_orig_bio p = bio"
  shows "\<exists>dev' h'. tp_put tp dev h = Some (dev', h') \<and> deferred bio dev' h' \<and>
    (tp_refs p \<noteq> 1 \<longrightarrow> tps h' tp = Some (p\<lparr>tp_refs := tp_refs p - 1\<rparr>))"
  using assms by (cases "tp_refs p = 1") (auto simp: tp_put_def deferred_def Let_def)

lemma snap_trace_error_ok:
  assumes "tps h tp = Some p" "tp_orig_bio p = bio" "(if nb = None then 1 else 2) \<le> tp_refs p"
  shows "\<exists>dev' h'. snap_trace_error C ret nb (Some tp) dev h = Some (if USE_HOOK_TRACER C then 1 else 0, dev', h') \<and>
    deferred bio dev' h'"
proof (cases nb)
  case None
  then show ?thesis using tp_put_deferred[OF assms(1,2), of "tracer_set_fail_state ret dev"]
    by (auto simp: snap_trace_error_def)
next
  case (Some b)
  have p: "tps (bio_free_clone b h) tp = Some p" using assms(1) by (simp add: bio_free_clone_def)
  obtain d1 h1 where 1: "tp_put tp (tracer_set_fail_state ret dev) (bio_free_clone b h) = Some (d1, h1)"
    "tps h1 tp = Some (p\<lparr>tp_refs := tp_refs p - 1\<rparr>)"
    using tp_put_deferred[OF p assms(2), of "tracer_set_fail_state ret dev"] assms(3) Some by auto
  then show ?thesis using tp_put_deferred[OF 1(2), of bio d1] Some assms(2) by (auto simp: snap_trace_error_def)
qed

subsection \<open>The clones cover the write\<close>

lemma chain_covers:
  "chain bs cs s n \<Longrightarrow> s \<le> x \<Longrightarrow> x < s + 8 * n \<Longrightarrow>
   \<exists>c \<in> set cs. bi_sector (bs c) \<le> x \<and> x < bi_sector (bs c) + 8 * length (bi_io_vec (bs c))"
proof (induction cs arbitrary: s n)
  case (Cons c cs)
  let ?l = "length (bi_io_vec (bs c))"
  show ?case
  proof (cases "x < s + 8 * ?l")
    case True
    then show ?thesis using Cons.prems by auto
  next
    case False
    moreover have "?l \<le> n" using Cons.prems(1) by simp
    then have "s + 8 * ?l + 8 * (n - ?l) = s + 8 * n" by (simp add: diff_mult_distrib2)
    ultimately show ?thesis using Cons.IH[of "s + 8 * ?l" "n - ?l"] Cons.prems by auto
  qed
qed simp

lemma chain_bounds:
  "chain bs cs s n \<Longrightarrow> c \<in> set cs \<Longrightarrow>
   s \<le> bi_sector (bs c) \<and> bi_sector (bs c) + 8 * length (bi_io_vec (bs c)) \<le> s + 8 * n \<and> 8 dvd (bi_sector (bs c) - s)"
proof (induction cs arbitrary: s n)
  case (Cons a cs)
  let ?l = "length (bi_io_vec (bs a))"
  show ?case
  proof (cases "c = a")
    case True
    then show ?thesis using Cons.prems(1) by auto
  next
    case False
    then have ih: "s + 8 * ?l \<le> bi_sector (bs c)"
      "bi_sector (bs c) + 8 * length (bi_io_vec (bs c)) \<le> s + 8 * ?l + 8 * (n - ?l)" "8 dvd (bi_sector (bs c) - (s + 8 * ?l))"
      using Cons.IH[of "s + 8 * ?l" "n - ?l"] Cons.prems by auto
    have "bi_sector (bs c) - s = (bi_sector (bs c) - (s + 8 * ?l)) + 8 * ?l" using ih(1) by simp
    then have "8 dvd (bi_sector (bs c) - s)" using ih(3) by simp
    then show ?thesis using ih Cons.prems(1) by auto
  qed
qed simp

text \<open>The rounding: the range of whole blocks around the sectors of the bio.\<close>

lemma round_range:
  fixes a b :: nat
  assumes "a \<le> b"
  shows "ROUND_DOWN a 8 \<le> a" "b \<le> ROUND_UP b 8" "8 dvd ROUND_DOWN a 8"
    "ROUND_DOWN a 8 + 8 * ((ROUND_UP b 8 - ROUND_DOWN a 8) div 8) = ROUND_UP b 8"
    "ROUND_UP b 8 = 8 * NUM_SEGMENTS b 3"
proof -
  show 1: "ROUND_DOWN a 8 \<le> a" "8 dvd ROUND_DOWN a 8" by (simp_all add: ROUND_DOWN_def)
  show 2: "b \<le> ROUND_UP b 8" unfolding ROUND_UP_def by (rule div_mult_round_up) simp
  have "8 dvd ROUND_UP b 8" by (simp add: ROUND_UP_def)
  then have "8 dvd (ROUND_UP b 8 - ROUND_DOWN a 8)" using 1(2) by simp
  then show "ROUND_DOWN a 8 + 8 * ((ROUND_UP b 8 - ROUND_DOWN a 8) div 8) = ROUND_UP b 8"
    using 1(1) 2 assms by simp
  show "ROUND_UP b 8 = 8 * NUM_SEGMENTS b 3" by (simp add: ROUND_UP_def NUM_SEGMENTS_3)
qed

definition trace_start :: "nat \<Rightarrow> bio \<Rightarrow> nat" where
  "trace_start off b = ROUND_DOWN (bi_sector b - off) SECTORS_PER_BLOCK + off"

definition trace_pages :: "nat \<Rightarrow> bio \<Rightarrow> nat" where
  "trace_pages off b =
     (ROUND_UP (bi_sector b + bi_size b div SECTOR_SIZE - off) SECTORS_PER_BLOCK + off - trace_start off b) div SECTORS_PER_PAGE"

lemma trace_range:
  assumes "off \<le> bi_sector b"
  shows "trace_start off b \<le> bi_sector b" "off \<le> trace_start off b" "8 dvd (trace_start off b - off)"
    "bi_sector b + bi_size b div 512 \<le> trace_start off b + 8 * trace_pages off b"
    "trace_start off b + 8 * trace_pages off b = off + 8 * NUM_SEGMENTS (bi_sector b + bi_size b div 512 - off) 3"
proof -
  let ?a = "bi_sector b - off" and ?e = "bi_sector b + bi_size b div 512 - off"
  have le: "?a \<le> ?e" by simp
  note r = round_range[OF le]
  have p: "trace_pages off b = (ROUND_UP ?e 8 - ROUND_DOWN ?a 8) div 8" by (simp add: trace_pages_def trace_start_def)
  show "trace_start off b \<le> bi_sector b" "off \<le> trace_start off b" "8 dvd (trace_start off b - off)"
    using r(1,3) assms by (simp_all add: trace_start_def)
  show e: "trace_start off b + 8 * trace_pages off b = off + 8 * NUM_SEGMENTS ?e 3"
    using r(4,5) p by (simp add: trace_start_def)
  show "bi_sector b + bi_size b div 512 \<le> trace_start off b + 8 * trace_pages off b"
  proof -
    have "?e \<le> 8 * NUM_SEGMENTS ?e 3" using r(2,5) by simp
    then show ?thesis unfolding e using assms by linarith
  qed
qed

text \<open>A successful trace: the parameters allocated, the clones made, the tracer's reference dropped.\<close>

lemma snap_trace_bio_cloned:
  assumes "snap_trace_bio C B bio dev h = Some (ret, dev', h')" "bio_needs_cow B (bios h bio) (sd_cow_inode dev)"
    and "sd_fail_code dev = 0" "sd_fail_code dev' = 0"
  obtains cs d1 h0 h1 k where
    "h0 = h\<lparr>fresh := Suc (fresh h), bclock := k,
        tps := (tps h)(fresh h \<mapsto> \<lparr>tp_orig_bio = bio, tp_refs = 1, tp_bio_sects = []\<rparr>)\<rparr>"
    "cloned C (fresh h) (trace_start (sd_sect_off dev) (bios h bio)) (trace_pages (sd_sect_off dev) (bios h bio)) cs dev h0 d1 h1"
    "tp_put (fresh h) d1 h1 = Some (dev', h')"
proof -
  have err: False if "snap_trace_error C r nb tp d h2 = Some (ret, dev', h')" "r \<noteq> 0" for r nb tp d h2
    using that assms(4)
    by (auto simp: snap_trace_error_def tp_put_def tracer_set_fail_state_def Let_def
        split: bind_splits option.splits if_splits)
  have al: "b_alloc B (bclock h)"
  proof (rule ccontr)
    assume "\<not> b_alloc B (bclock h)"
    then show False using assms
      by (auto simp: snap_trace_bio_def tp_alloc_def tracer_read_fail_state_def snap_trace_error_def
          tracer_set_fail_state_def Let_def split: if_splits)
  qed
  let ?h0 = "h\<lparr>fresh := Suc (fresh h), bclock := Suc (bclock h),
        tps := (tps h)(fresh h \<mapsto> \<lparr>tp_orig_bio = bio, tp_refs = 1, tp_bio_sects = []\<rparr>)\<rparr>"
  have ta: "tp_alloc B bio h = (0, Some (fresh h), ?h0)" using al by (cases h) (simp add: tp_alloc_def btick_def Let_def)
  obtain r nb d1 h1 where cl: "clone_loop C B (fresh h) bio (trace_start (sd_sect_off dev) (bios h bio))
      (trace_pages (sd_sect_off dev) (bios h bio)) dev ?h0 = Some (r, nb, d1, h1)"
    and r: "(if r \<noteq> 0 then snap_trace_error C r nb (Some (fresh h)) d1 h1
        else tp_put (fresh h) d1 h1 \<bind> (\<lambda>(dev, h). Some (if USE_HOOK_TRACER C then 1 else 0, dev, h))) = Some (ret, dev', h')"
    using assms(1-3) ta
    by (auto simp: snap_trace_bio_def tracer_read_fail_state_def trace_start_def trace_pages_def Let_def split: bind_splits)
  have r0: "r = 0" using r err by (auto split: if_splits)
  then have "tp_put (fresh h) d1 h1 = Some (dev', h')" using r by (auto split: bind_splits)
  moreover obtain cs where "cloned C (fresh h) (trace_start (sd_sect_off dev) (bios h bio))
      (trace_pages (sd_sect_off dev) (bios h bio)) cs dev ?h0 d1 h1"
    using clone_loop_cloned[OF cl[unfolded r0]] by blast
  ultimately show thesis using that[OF refl] by blast
qed

lemma snap_trace_bio_ret:
  assumes "snap_trace_bio C B bio dev h = Some (ret, dev', h')" "bio_needs_cow B (bios h bio) (sd_cow_inode dev)"
    and "sd_fail_code dev = 0" "sd_fail_code dev' = 0"
  shows "ret = (if USE_HOOK_TRACER C then 1 else 0)"
proof -
  have err: "snap_trace_error C r nb tp d h2 = Some (ret, dev', h') \<Longrightarrow> r = 0" for r nb tp d h2
    using assms(4) by (auto simp: snap_trace_error_def tp_put_def tracer_set_fail_state_def Let_def split: bind_splits option.splits if_splits)
  show ?thesis using assms
    by (auto simp: snap_trace_bio_def tracer_read_fail_state_def tp_alloc_def tracer_set_fail_state_def Let_def dest: err split: bind_splits if_splits)
qed

text \<open>A captured write of at least one sector: its clones, where they lie and what they cover, and the parameters that hold it.\<close>

lemma snap_trace_bio_clones:
  assumes tr: "snap_trace_bio C B bio dev h = Some (ret, dev', h')" "bio_needs_cow B (bios h bio) (sd_cow_inode dev)"
      "sd_fail_code dev = 0" "sd_fail_code dev' = 0"
    and rng: "sd_sect_off dev \<le> bi_sector (bios h bio)" "512 \<le> bi_size (bios h bio)"
  obtains cs h0 h1 p k where "cs \<noteq> []"
    "h0 = h\<lparr>fresh := Suc (fresh h), bclock := k, tps := (tps h)(fresh h \<mapsto> \<lparr>tp_orig_bio = bio, tp_refs = 1, tp_bio_sects = []\<rparr>)\<rparr>"
    "cloned C (fresh h) (trace_start (sd_sect_off dev) (bios h bio)) (trace_pages (sd_sect_off dev) (bios h bio)) cs dev h0 dev' h1"
    "p = \<lparr>tp_orig_bio = bio, tp_refs = int (length cs), tp_bio_sects = map (\<lambda>c. (c, bi_sector (bios h1 c), bi_size (bios h1 c))) cs\<rparr>"
    "h' = h1\<lparr>tps := (tps h)(fresh h \<mapsto> p)\<rparr>"
    "\<forall>c \<in> set cs. bi_op (bios h1 c) = REQ_OP_READ \<and> bi_size (bios h1 c) = length (bi_io_vec (bios h1 c)) * 4096 \<and>
       sd_sect_off dev \<le> bi_sector (bios h1 c) \<and> 8 dvd (bi_sector (bios h1 c) - sd_sect_off dev) \<and>
       bi_sector (bios h1 c) + 8 * length (bi_io_vec (bios h1 c)) \<le>
         sd_sect_off dev + 8 * NUM_SEGMENTS (bi_sector (bios h bio) + bi_size (bios h bio) div 512 - sd_sect_off dev) 3"
    "\<forall>s. bi_sector (bios h bio) \<le> s \<and> s < bi_sector (bios h bio) + bi_size (bios h bio) div 512 \<longrightarrow>
       (\<exists>c \<in> set cs. bi_sector (bios h1 c) \<le> s \<and> s < bi_sector (bios h1 c) + 8 * length (bi_io_vec (bios h1 c)))"
proof -
  let ?b = "bios h bio" and ?off = "sd_sect_off dev"
  obtain cs d1 h0 h1 k where h0: "h0 = h\<lparr>fresh := Suc (fresh h), bclock := k,
        tps := (tps h)(fresh h \<mapsto> \<lparr>tp_orig_bio = bio, tp_refs = 1, tp_bio_sects = []\<rparr>)\<rparr>"
    and cl: "cloned C (fresh h) (trace_start ?off ?b) (trace_pages ?off ?b) cs dev h0 d1 h1"
    and put: "tp_put (fresh h) d1 h1 = Some (dev', h')"
    by (rule snap_trace_bio_cloned[OF tr])
  have ch: "chain (bios h1) cs (trace_start ?off ?b) (trace_pages ?off ?b)" using cl by (simp add: cloned_def)
  note r = trace_range[OF rng(1)]
  have "1 \<le> bi_size ?b div 512" using rng(2) by (simp add: div_greater_zero_iff Suc_le_eq)
  then have "trace_pages ?off ?b \<noteq> 0" using r(1,4) by (cases "trace_pages ?off ?b = 0") auto
  then have ne: "cs \<noteq> []" using ch by (cases cs) auto
  let ?p = "\<lparr>tp_orig_bio = bio, tp_refs = int (length cs), tp_bio_sects = map (\<lambda>c. (c, bi_sector (bios h1 c), bi_size (bios h1 c))) cs\<rparr>"
  have t1: "tps h1 = (tps h)(fresh h \<mapsto> ?p\<lparr>tp_refs := 1 + int (length cs)\<rparr>)" using cl h0 by (auto simp: cloned_def)
  have e: "dev' = d1" "h' = h1\<lparr>tps := (tps h)(fresh h \<mapsto> ?p)\<rparr>" using put t1 ne by (auto simp: tp_put_def Let_def)
  have sz: "bi_op (bios h1 c) = REQ_OP_READ \<and> bi_size (bios h1 c) = length (bi_io_vec (bios h1 c)) * 4096" if "c \<in> set cs" for c
    using cl that new_pages_bytes by (fastforce simp: cloned_def)
  have al: "?off \<le> bi_sector (bios h1 c) \<and> 8 dvd (bi_sector (bios h1 c) - ?off)" if "c \<in> set cs" for c
  proof -
    note b = chain_bounds[OF ch that]
    have "bi_sector (bios h1 c) - ?off = (bi_sector (bios h1 c) - trace_start ?off ?b) + (trace_start ?off ?b - ?off)"
      using b r(2) by linarith
    then show ?thesis using b r(2,3) by (metis dvd_add le_trans)
  qed
  show thesis
    by (rule that[OF ne h0 cl[folded e(1)] refl e(2)])
      (use sz al chain_bounds[OF ch] r(5) chain_covers[OF ch] r(1,4) in \<open>auto intro: order_trans order_less_le_trans\<close>)
qed

subsection \<open>Samples\<close>

text \<open>A kernel that grants every request, an active snapshot of a small device, one page to be written at block 3.\<close>

definition sample_config :: config where
  "sample_config = \<lparr>USE_HOOK_TRACER = False, USE_BDOPS_SUBMIT_BIO = True\<rparr>"

definition sample_blk :: blk where
  "sample_blk = \<lparr>b_alloc = (\<lambda>_. True), b_add_page = (\<lambda>_ _. True), bio_max_vecs = 256, bdev_queue = (\<lambda>d. d),
     compound_head = (\<lambda>pg. pg), page_anon = (\<lambda>_. False), page_mapping = (\<lambda>_. Some (True, 7))\<rparr>"

definition sample_dev :: snap_device where
  "sample_dev = \<lparr>sd_minor = 0, sd_state = 3, sd_falloc_size = 0, sd_cache_size = 0, sd_refs = 0, sd_fail_code = 0,
     sd_active = 1, sd_sect_off = 0, sd_size = 32768, sd_queue = True, sd_gd = True, sd_base_dev = Some 0,
     sd_bdev_path = None, sd_cow = None, sd_cow_path = None, sd_cow_inode = Some 1, sd_orig_request_fn = None,
     sd_cow_thread = None, sd_cow_bios = [], sd_mrf_thread = True, sd_orig_bios = [], sd_read_thread = True,
     sd_read_bios = [], sd_pending_ssets = [], sd_bioset = True, sd_submitted_cnt = 0, sd_received_cnt = 0,
     bd_ops = None, sd_tracing_ops = None\<rparr>"

definition sample_bheap :: bheap where
  "sample_bheap = \<lparr>bios = (\<lambda>_. page_bio REQ_OP_WRITE 3 0), pages_of = (\<lambda>_ _. 0), tps = (\<lambda>_. None), fresh = 1,
     bclock = 0, submitted = [], ended = [], freed = []\<rparr>"

lemma sample_simps [simp]:
  "\<not> USE_HOOK_TRACER sample_config" "USE_BDOPS_SUBMIT_BIO sample_config"
  "b_alloc sample_blk t" "b_add_page sample_blk t i" "bio_max_vecs sample_blk = 256"
  by (simp_all add: sample_config_def sample_blk_def)

lemma sample_needs_cow: "bio_needs_cow sample_blk (bios sample_bheap 0) (sd_cow_inode sample_dev)"
  by (simp add: bio_needs_cow_def sample_blk_def sample_dev_def sample_bheap_def page_bio_def bio_segments_def page_get_inode_def)

subsection \<open>Properties\<close>



text \<open>
  C16: the clones cover the write and come before it. When \<^verbatim>\<open>snap_trace_bio\<close> captures a write of at
  least one sector without failing the device, it has made read clones of whole blocks; every sector of the write lies in
  one of them, and none reaches outside the blocks of the write. The clones, and not the write, were
  handed on; the write is held by tracing parameters with one reference for each clone.
\<close>

theorem snap_trace_bio_covers:
  assumes "snap_trace_bio C B bio dev h = Some (ret, dev', h')" "bio_needs_cow B (bios h bio) (sd_cow_inode dev)"
    and "sd_fail_code dev = 0" "sd_fail_code dev' = 0"
    and "sd_sect_off dev \<le> bi_sector (bios h bio)" "512 \<le> bi_size (bios h bio)"
  shows "\<exists>cs p. cs \<noteq> [] \<and> distinct cs \<and> tps h' (fresh h) = Some p \<and> tp_orig_bio p = bio \<and> tp_refs p = int (length cs) \<and>
    submitted h' = submitted h @ (if USE_HOOK_TRACER C then [] else cs) \<and>
    sd_read_bios dev' = sd_read_bios dev @ (if USE_HOOK_TRACER C then cs else []) \<and> sd_orig_bios dev' = sd_orig_bios dev \<and>
    (\<forall>c \<in> set cs. bi_op (bios h' c) = REQ_OP_READ \<and> bi_size (bios h' c) mod 4096 = 0 \<and>
       8 dvd (bi_sector (bios h' c) - sd_sect_off dev) \<and> sd_sect_off dev \<le> bi_sector (bios h' c) \<and>
       bi_sector (bios h' c) + bi_size (bios h' c) div 512 \<le>
         sd_sect_off dev + 8 * NUM_SEGMENTS (bi_sector (bios h bio) + bi_size (bios h bio) div 512 - sd_sect_off dev) 3) \<and>
    (\<forall>s. bi_sector (bios h bio) \<le> s \<and> s < bi_sector (bios h bio) + bi_size (bios h bio) div 512 \<longrightarrow>
       (\<exists>c \<in> set cs. bi_sector (bios h' c) \<le> s \<and> s < bi_sector (bios h' c) + bi_size (bios h' c) div 512))"
proof -
  obtain cs h0 h1 p k where c: "cs \<noteq> []"
    "h0 = h\<lparr>fresh := Suc (fresh h), bclock := k, tps := (tps h)(fresh h \<mapsto> \<lparr>tp_orig_bio = bio, tp_refs = 1, tp_bio_sects = []\<rparr>)\<rparr>"
    "cloned C (fresh h) (trace_start (sd_sect_off dev) (bios h bio)) (trace_pages (sd_sect_off dev) (bios h bio)) cs dev h0 dev' h1"
    "p = \<lparr>tp_orig_bio = bio, tp_refs = int (length cs), tp_bio_sects = map (\<lambda>c. (c, bi_sector (bios h1 c), bi_size (bios h1 c))) cs\<rparr>"
    "h' = h1\<lparr>tps := (tps h)(fresh h \<mapsto> p)\<rparr>"
    "\<forall>c \<in> set cs. bi_op (bios h1 c) = REQ_OP_READ \<and> bi_size (bios h1 c) = length (bi_io_vec (bios h1 c)) * 4096 \<and>
       sd_sect_off dev \<le> bi_sector (bios h1 c) \<and> 8 dvd (bi_sector (bios h1 c) - sd_sect_off dev) \<and>
       bi_sector (bios h1 c) + 8 * length (bi_io_vec (bios h1 c)) \<le>
         sd_sect_off dev + 8 * NUM_SEGMENTS (bi_sector (bios h bio) + bi_size (bios h bio) div 512 - sd_sect_off dev) 3"
    "\<forall>s. bi_sector (bios h bio) \<le> s \<and> s < bi_sector (bios h bio) + bi_size (bios h bio) div 512 \<longrightarrow>
       (\<exists>c \<in> set cs. bi_sector (bios h1 c) \<le> s \<and> s < bi_sector (bios h1 c) + 8 * length (bi_io_vec (bios h1 c)))"
    by (rule snap_trace_bio_clones[OF assms])
  then show ?thesis by (intro exI[of _ cs] exI[of _ p]) (auto simp: cloned_def)
qed

theorem snap_trace_bio_covers_witness:
  "\<exists>ret dev' h' cs p. snap_trace_bio sample_config sample_blk 0 sample_dev sample_bheap = Some (ret, dev', h') \<and>
    cs \<noteq> [] \<and> tps h' 1 = Some p \<and> tp_orig_bio p = 0 \<and> submitted h' = cs"
proof -
  let ?h = "sample_bheap\<lparr>fresh := 2, bclock := 1, tps := [1 \<mapsto> \<lparr>tp_orig_bio = 0, tp_refs = 1, tp_bio_sects = []\<rparr>]\<rparr>"
  obtain dev1 h1 p where cl: "clone_loop sample_config sample_blk 1 0 24 1 sample_dev ?h = Some (0, None, dev1, h1)"
    and 1: "tps h1 1 = Some p" "tp_refs p = 2" "sd_fail_code dev1 = 0"
    by (subst (asm) clone_loop.simps)
      (simp add: bio_make_read_clone_def tp_get_def tp_add_def btick_def submit_real_def vec_bytes_def
        sample_dev_def sample_bheap_def page_bio_def)
  have "tp_alloc sample_blk 0 sample_bheap = (0, Some 1, ?h)"
    by (simp add: tp_alloc_def btick_def sample_bheap_def)
  then obtain dev' h' where t: "snap_trace_bio sample_config sample_blk 0 sample_dev sample_bheap = Some (0, dev', h')"
    and f: "sd_fail_code dev' = 0"
    using sample_needs_cow cl 1
    by (simp add: snap_trace_bio_def tracer_read_fail_state_def tp_put_def ROUND_DOWN_def ROUND_UP_def
        sample_dev_def sample_bheap_def page_bio_def)
  show ?thesis
    using snap_trace_bio_covers[OF t sample_needs_cow _ f] t
    by (fastforce simp: sample_dev_def sample_bheap_def page_bio_def sample_config_def)
qed



end
