(* ===== verification/Inc_Tracing.thy ===== *)
theory Inc_Tracing
  imports Tracing_Lemmas
begin

text \<open>
  Incrementals: the sector sets that the tracer of an incremental queues are exactly the sectors of the
  write that are not pages of the COW file, and the thread that takes them from the queue marks
  exactly their blocks.
\<close>

subsection \<open>Sector sets of an incremental\<close>

text \<open>The sectors of the segments that are not pages of the COW file, from sector \<open>s\<close> on.\<close>

fun foreign_sectors :: "blk \<Rightarrow> nat option \<Rightarrow> bio_vec list \<Rightarrow> nat \<Rightarrow> nat set" where
  "foreign_sectors B ino [] s = {}"
| "foreign_sectors B ino (v # vs) s =
     (if page_get_inode B (Some (bv_page v)) \<noteq> ino then {s..<s + bv_len v div SECTOR_SIZE} else {}) \<union>
     foreign_sectors B ino vs (s + bv_len v div SECTOR_SIZE)"

definition sset_sectors :: "nat \<Rightarrow> sector_set list \<Rightarrow> nat set" where
  "sset_sectors off sss = (\<Union>ss \<in> set sss. {off + ss_sect ss..<off + ss_sect ss + ss_len ss})"

lemma sset_sectors_simps [simp]:
  "sset_sectors off [] = {}"
  "sset_sectors off (xs @ ys) = sset_sectors off xs \<union> sset_sectors off ys"
  "sset_sectors off [ss] = {off + ss_sect ss..<off + ss_sect ss + ss_len ss}"
  by (auto simp: sset_sectors_def)

definition added_ssets :: "snap_device \<Rightarrow> snap_device \<Rightarrow> nat set \<Rightarrow> bool" where
  "added_ssets dev dev' S \<longleftrightarrow> (\<exists>new. dev' = dev\<lparr>sd_pending_ssets := sd_pending_ssets dev @ new\<rparr> \<and>
     (\<forall>ss \<in> set new. 0 < ss_len ss) \<and> sset_sectors (sd_sect_off dev) new = S)"

lemma added_ssets_trans:
  "added_ssets dev dev1 S \<Longrightarrow> added_ssets dev1 dev2 T \<Longrightarrow> added_ssets dev dev2 (S \<union> T)"
  unfolding added_ssets_def by (elim exE conjE, rename_tac xs ys, rule_tac x = "xs @ ys" in exI) auto

lemma added_ssets_refl: "added_ssets dev dev {}"
  unfolding added_ssets_def by (rule exI[of _ "[]"]) simp

lemma inc_make_sset_ok:
  assumes "inc_make_sset B s len dev h = (0, dev', h')" "sd_sect_off dev \<le> s" "0 < len"
  shows "added_ssets dev dev' {s..<s + len}"
  using assms unfolding added_ssets_def inc_make_sset_def
  by (intro exI[of _ "[\<lparr>ss_sect = s - sd_sect_off dev, ss_len = len\<rparr>]"]) (auto split: if_splits)

lemma inc_close_run:
  assumes "(if ini \<and> e - st > 0 then inc_make_sset B st (e - st) dev h else (0, dev, h)) = (0, dev', h')"
    and "ini \<longrightarrow> st \<le> e \<and> sd_sect_off dev \<le> st"
  shows "added_ssets dev dev' (if ini then {st..<e} else {})"
  using assms inc_make_sset_ok[of B st "e - st" dev h dev' h'] added_ssets_refl[of dev]
  by (auto split: if_splits)

lemma added_ssets_fields: "added_ssets dev dev' S \<Longrightarrow> sd_sect_off dev' = sd_sect_off dev \<and> sd_cow_inode dev' = sd_cow_inode dev"
  by (auto simp: added_ssets_def)

lemma inc_segments_ok:
  "inc_segments B vs ini st e dev h = (0, dev', h') \<Longrightarrow> sd_sect_off dev \<le> e \<Longrightarrow> ini \<longrightarrow> st \<le> e \<and> sd_sect_off dev \<le> st \<Longrightarrow>
   added_ssets dev dev' ((if ini then {st..<e} else {}) \<union> foreign_sectors B (sd_cow_inode dev) vs e)"
proof (induction vs arbitrary: ini st e dev h)
  case Nil
  then show ?case using inc_close_run[of ini e st B dev h dev' h'] by simp
next
  case (Cons v vs)
  let ?e = "e + bv_len v div 512"
  show ?case
  proof (cases "page_get_inode B (Some (bv_page v)) \<noteq> sd_cow_inode dev")
    case True
    let ?st = "if ini then st else e"
    have "inc_segments B vs True ?st ?e dev h = (0, dev', h')" using Cons.prems(1) True by simp
    from Cons.IH[OF this] Cons.prems(2,3)
    have "added_ssets dev dev' ({?st..<?e} \<union> foreign_sectors B (sd_cow_inode dev) vs ?e)" by auto
    moreover have "{?st..<?e} = (if ini then {st..<e} else {}) \<union> {e..<?e}" using Cons.prems(3) by auto
    ultimately show ?thesis using True by (simp add: Un_assoc)
  next
    case False
    obtain r d1 h1 where r: "(if ini \<and> e - st > 0 then inc_make_sset B st (e - st) dev h else (0, dev, h)) = (r, d1, h1)"
      by (metis prod_cases3)
    with Cons.prems(1) False have r0: "r = 0" and rest: "inc_segments B vs False st ?e d1 h1 = (0, dev', h')"
      by (auto split: if_splits)
    have a: "added_ssets dev d1 (if ini then {st..<e} else {})"
      by (rule inc_close_run[OF r[unfolded r0]]) (use Cons.prems(3) in simp)
    note fl = added_ssets_fields[OF a]
    have "added_ssets d1 dev' (foreign_sectors B (sd_cow_inode dev) vs ?e)"
      using Cons.IH[OF rest] Cons.prems(2) fl by simp
    from added_ssets_trans[OF a this] show ?thesis using False by simp
  qed
qed


definition bio_foreign :: "blk \<Rightarrow> nat option \<Rightarrow> bio \<Rightarrow> nat set" where
  "bio_foreign B ino b =
     (if bi_op b = REQ_OP_WRITE_ZEROES then {bi_sector b..<bi_sector b + bi_size b div SECTOR_SIZE}
      else foreign_sectors B ino (bio_segments b) (bi_sector b))"

definition sset_blocks :: "sector_set list \<Rightarrow> nat set" where
  "sset_blocks sss = (\<Union>ss \<in> set sss. SECTOR_TO_BLOCK ` {ss_sect ss..<ss_sect ss + ss_len ss})"

text \<open>Once the thread has seen a failure it only empties the queue.\<close>

lemma inc_run_failed:
  "length (sd_pending_ssets dev) = n \<Longrightarrow>
   inc_run K n (True, dev, w, cow) = Some (True, dev\<lparr>sd_pending_ssets := []\<rparr>, w, cow)"
proof (induction n arbitrary: dev)
  case (Suc n)
  then obtain ss rest where "sd_pending_ssets dev = ss # rest" by (cases "sd_pending_ssets dev") auto
  then show ?case using Suc by (simp add: inc_sset_thread_def thread_fail_check_def)
qed simp

text \<open>A failure noticed at the next turn.\<close>

lemma inc_run_fails:
  assumes "sd_fail_code dev \<noteq> 0" "length (sd_pending_ssets dev) = n"
  shows "\<exists>f w' cow'. inc_run K n (False, dev, w, Some cm) = Some (f, dev\<lparr>sd_pending_ssets := []\<rparr>, w', cow')"
proof (cases n)
  case 0
  then show ?thesis using assms by auto
next
  case (Suc m)
  then obtain ss rest where p: "sd_pending_ssets dev = ss # rest" using assms by (cases "sd_pending_ssets dev") auto
  obtain w1 cm1 where f: "cow_free_members K w cm = (w1, cm1)" by fastforce
  have "inc_sset_thread K False dev w (Some cm) = Some (True, dev\<lparr>sd_pending_ssets := rest\<rparr>, w1, Some cm1)"
    using assms p f by (simp add: inc_sset_thread_def thread_fail_check_def tracer_read_fail_state_def)
  then show ?thesis using Suc p assms inc_run_failed[of "dev\<lparr>sd_pending_ssets := rest\<rparr>" m K w1 "Some cm1"] by auto
qed

text \<open>One turn of the thread.\<close>

lemma inc_turn:
  assumes "kernel_ok K" "cow_wf cm" "sd_fail_code dev = 0" "sd_pending_ssets dev = ss # rest"
    and "0 < ss_len ss" "NUM_SEGMENTS (ss_sect ss + ss_len ss) 3 \<le> capacity cm"
  obtains ret w1 cm1 where "inc_sset_thread K False dev w (Some cm) = Some (False,
      if ret \<noteq> 0 then tracer_set_fail_state ret (dev\<lparr>sd_pending_ssets := rest\<rparr>) else dev\<lparr>sd_pending_ssets := rest\<rparr>, w1, Some cm1)"
    "capacity cm1 = capacity cm" "ret = 0 \<Longrightarrow> cow_wf cm1 \<and> same_file w cm w1 cm1 \<and>
       (\<forall>b. cow_map w1 cm1 b = (if b \<in> sset_blocks [ss] then 1 else cow_map w cm b))"
proof -
  obtain ret w1 cm1 where h: "inc_handle_sset K ss w cm = Some (ret, w1, cm1)" "capacity cm1 = capacity cm"
    "ret = 0 \<longrightarrow> cow_wf cm1 \<and> same_file w cm w1 cm1 \<and> (\<forall>b. cow_map w1 cm1 b =
       (if \<exists>s. ss_sect ss \<le> s \<and> s < ss_sect ss + ss_len ss \<and> SECTOR_TO_BLOCK s = b then 1 else cow_map w cm b))"
    using inc_handle_sset_ok[OF assms(1,2,6,5), of w] by blast
  have e: "(\<exists>s. ss_sect ss \<le> s \<and> s < ss_sect ss + ss_len ss \<and> SECTOR_TO_BLOCK s = b) \<longleftrightarrow> b \<in> sset_blocks [ss]" for b
    by (auto simp: sset_blocks_def)
  show thesis
    by (rule that[of ret w1 cm1]) (use h assms(3,4) in \<open>auto simp: e inc_sset_thread_def thread_fail_check_def tracer_read_fail_state_def\<close>)
qed

lemma inc_run_ok:
  assumes K: "kernel_ok K"
  shows "cow_wf cm \<Longrightarrow> sd_fail_code dev = 0 \<Longrightarrow> length (sd_pending_ssets dev) = n \<Longrightarrow>
    \<forall>ss \<in> set (sd_pending_ssets dev). 0 < ss_len ss \<and> NUM_SEGMENTS (ss_sect ss + ss_len ss) 3 \<le> capacity cm \<Longrightarrow>
    \<exists>f dev' w' cow'. inc_run K n (False, dev, w, Some cm) = Some (f, dev', w', cow') \<and> sd_pending_ssets dev' = [] \<and>
      (sd_fail_code dev' = 0 \<longrightarrow> (\<exists>cm'. cow' = Some cm' \<and> cow_wf cm' \<and>
        (\<forall>b. cow_map w' cm' b = (if b \<in> sset_blocks (sd_pending_ssets dev) then 1 else cow_map w cm b))))"
proof (induction n arbitrary: dev w cm)
  case 0
  then show ?case by (auto simp: sset_blocks_def)
next
  case (Suc n)
  then obtain ss rest where p: "sd_pending_ssets dev = ss # rest" by (cases "sd_pending_ssets dev") auto
  let ?d = "dev\<lparr>sd_pending_ssets := rest\<rparr>"
  obtain ret w1 cm1 where t: "inc_sset_thread K False dev w (Some cm) = Some (False, if ret \<noteq> 0 then tracer_set_fail_state ret ?d else ?d, w1, Some cm1)"
    and cap: "capacity cm1 = capacity cm" and ok: "ret = 0 \<Longrightarrow> cow_wf cm1 \<and> same_file w cm w1 cm1 \<and>
       (\<forall>b. cow_map w1 cm1 b = (if b \<in> sset_blocks [ss] then 1 else cow_map w cm b))"
    by (rule inc_turn[OF K Suc.prems(1,2) p, where w = w]) (use Suc.prems(4) p in auto)
  show ?case
  proof (cases "ret = 0")
    case True
    obtain f dev' w' cow' where r: "inc_run K n (False, ?d, w1, Some cm1) = Some (f, dev', w', cow')"
      "sd_pending_ssets dev' = []" "sd_fail_code dev' = 0 \<longrightarrow> (\<exists>cm'. cow' = Some cm' \<and> cow_wf cm' \<and>
        (\<forall>b. cow_map w' cm' b = (if b \<in> sset_blocks rest then 1 else cow_map w1 cm1 b)))"
      using Suc.IH[of cm1 ?d w1] Suc.prems p ok cap True by auto
    have e: "(if b \<in> sset_blocks rest then 1 else cow_map w1 cm1 b) = (if b \<in> sset_blocks (ss # rest) then 1 else cow_map w cm b)" for b
      using ok True by (auto simp: sset_blocks_def)
    show ?thesis using t True r p unfolding e by auto
  next
    case False
    let ?e = "tracer_set_fail_state ret ?d"
    have "sd_fail_code ?e \<noteq> 0" "length (sd_pending_ssets ?e) = n"
      using False Suc.prems p by (simp_all add: tracer_set_fail_state_def)
    from inc_run_fails[OF this, of K w1 cm1] obtain f w' cow' where
      "inc_run K n (False, ?e, w1, Some cm1) = Some (f, ?e\<lparr>sd_pending_ssets := []\<rparr>, w', cow')" by blast
    then show ?thesis using t False \<open>sd_fail_code ?e \<noteq> 0\<close> by simp
  qed
qed

lemma inc_trace_bio_ssets:
  assumes "inc_trace_bio C B bio dev h = (r, dev', h')" "sd_sect_off dev \<le> bi_sector (bios h bio)"
    "sd_fail_code dev = 0" "sd_fail_code dev' = 0" "512 \<le> bi_size (bios h bio)"
  shows "added_ssets dev dev' (bio_foreign B (sd_cow_inode dev) (bios h bio))"
proof -
  let ?b = "bios h bio"
  let ?t = "if bi_op ?b = REQ_OP_WRITE_ZEROES then inc_make_sset B (bi_sector ?b) (bi_size ?b div 512) dev h
    else inc_segments B (bio_segments ?b) False 0 (bi_sector ?b) dev h"
  obtain ret d1 h1 where t: "?t = (ret, d1, h1)" by (metis prod_cases3)
  have d: "dev' = (if ret \<noteq> 0 then tracer_set_fail_state ret d1 else d1)"
    using assms(1) t by (auto simp: inc_trace_bio_def Let_def)
  have r0: "ret = 0"
    using d assms(4) by (auto simp: tracer_set_fail_state_def split: if_splits)
  show ?thesis
  proof (cases "bi_op ?b = REQ_OP_WRITE_ZEROES")
    case True
    then show ?thesis using t d r0 assms(2,5) inc_make_sset_ok[of B "bi_sector ?b" "bi_size ?b div 512" dev h d1 h1]
      by (simp add: bio_foreign_def div_greater_zero_iff)
  next
    case False
    then show ?thesis using t d r0 assms(2) inc_segments_ok[of B "bio_segments ?b" False 0 "bi_sector ?b" dev h d1 h1]
      by (simp add: bio_foreign_def)
  qed
qed

subsection \<open>Properties\<close>

lemma sset_blocks_shift:
  assumes "added_ssets dev dev' S" "sd_pending_ssets dev = []"
  shows "sset_blocks (sd_pending_ssets dev') = (\<lambda>s. SECTOR_TO_BLOCK (s - sd_sect_off dev)) ` S"
proof -
  from assms obtain new where n: "sd_pending_ssets dev' = new" "sset_sectors (sd_sect_off dev) new = S"
    by (auto simp: added_ssets_def)
  have "(\<lambda>s. SECTOR_TO_BLOCK (s - sd_sect_off dev)) ` {sd_sect_off dev + a..<sd_sect_off dev + a + l} =
      SECTOR_TO_BLOCK ` {a..<a + l}" for a l
  proof -
    have e: "{sd_sect_off dev + a..<sd_sect_off dev + a + l} = (+) (sd_sect_off dev) ` {a..<a + l}"
      by (simp add: ac_simps image_add_atLeastLessThan)
    show ?thesis unfolding e image_image by simp
  qed
  then show ?thesis unfolding n(1) n(2)[symmetric] sset_blocks_def sset_sectors_def by (simp add: image_UN)
qed

lemma added_ssets_inside:
  assumes "added_ssets dev dev' S" "sd_pending_ssets dev = []" "S \<subseteq> {..<sd_sect_off dev + n}"
  shows "\<forall>ss \<in> set (sd_pending_ssets dev'). 0 < ss_len ss \<and> ss_sect ss + ss_len ss \<le> n"
proof -
  from assms obtain new where n: "sd_pending_ssets dev' = new" "sset_sectors (sd_sect_off dev) new = S"
    "\<forall>ss \<in> set new. 0 < ss_len ss" by (auto simp: added_ssets_def)
  have "ss_sect ss + ss_len ss \<le> n" if "ss \<in> set new" for ss
  proof -
    have "sd_sect_off dev + ss_sect ss + (ss_len ss - 1) \<in> S"
      unfolding n(2)[symmetric] sset_sectors_def using that n(3) by force
    then have "sd_sect_off dev + ss_sect ss + (ss_len ss - 1) < sd_sect_off dev + n" using assms(3) by auto
    then show ?thesis using n(3) that by auto
  qed
  then show ?thesis using n by simp
qed

text \<open>
  C18: an incremental marks exactly the blocks a write touches. For a write inside the device, with
  an empty queue, \<^verbatim>\<open>inc_trace_bio\<close> never holds the write back; if it does not fail the device, the
  turns of the thread for the sets it queued return, and if they do not fail the device either, a
  block is marked afterwards if it was, or if it holds a sector of the write that is not a page of the
  COW file; every other mapping is what it was.
\<close>

theorem inc_write_marks_exactly:
  assumes "kernel_ok K" "cow_wf cm" "NUM_SEGMENTS (sd_size dev) 3 \<le> capacity cm"
    and "sd_fail_code dev = 0" "sd_pending_ssets dev = []"
    and "sd_sect_off dev \<le> bi_sector (bios h bio)" "512 \<le> bi_size (bios h bio)"
    and "bio_foreign B (sd_cow_inode dev) (bios h bio) \<subseteq> {..<sd_sect_off dev + sd_size dev}"
  shows "\<exists>dev' h'. inc_trace_bio C B bio dev h = (0, dev', h') \<and>
    (USE_HOOK_TRACER C \<or> bio \<in> set (submitted h')) \<and>
    (sd_fail_code dev' = 0 \<longrightarrow> (\<exists>f dev'' w' cow'.
      inc_run K (length (sd_pending_ssets dev')) (False, dev', w, Some cm) = Some (f, dev'', w', cow') \<and>
      sd_pending_ssets dev'' = [] \<and>
      (sd_fail_code dev'' = 0 \<longrightarrow> (\<exists>cm'. cow' = Some cm' \<and> cow_wf cm' \<and> (\<forall>b. cow_map w' cm' b =
        (if b \<in> (\<lambda>s. SECTOR_TO_BLOCK (s - sd_sect_off dev)) ` bio_foreign B (sd_cow_inode dev) (bios h bio)
         then 1 else cow_map w cm b))))))"
proof -
  obtain r dev' h' where t: "inc_trace_bio C B bio dev h = (r, dev', h')" by (metis prod_cases3)
  then have r: "r = 0" "USE_HOOK_TRACER C \<or> bio \<in> set (submitted h')"
    by (auto simp: inc_trace_bio_def submit_real_def Let_def split: prod.splits if_splits)
  have ok: "\<exists>f dev'' w' cow'. inc_run K (length (sd_pending_ssets dev')) (False, dev', w, Some cm) = Some (f, dev'', w', cow') \<and>
      sd_pending_ssets dev'' = [] \<and> (sd_fail_code dev'' = 0 \<longrightarrow> (\<exists>cm'. cow' = Some cm' \<and> cow_wf cm' \<and> (\<forall>b. cow_map w' cm' b =
        (if b \<in> sset_blocks (sd_pending_ssets dev') then 1 else cow_map w cm b))))" if f: "sd_fail_code dev' = 0"
  proof -
    have a: "added_ssets dev dev' (bio_foreign B (sd_cow_inode dev) (bios h bio))"
      by (rule inc_trace_bio_ssets[OF t assms(6,4) f assms(7)])
    have "NUM_SEGMENTS (ss_sect ss + ss_len ss) 3 \<le> capacity cm" if "ss_sect ss + ss_len ss \<le> sd_size dev" for ss
      using NUM_SEGMENTS_mono[OF that] assms(3) by (rule order_trans)
    then show ?thesis using added_ssets_inside[OF a assms(5,8)] by (intro inc_run_ok[OF assms(1,2) f refl]) auto
  qed
  have "sset_blocks (sd_pending_ssets dev') =
      (\<lambda>s. SECTOR_TO_BLOCK (s - sd_sect_off dev)) ` bio_foreign B (sd_cow_inode dev) (bios h bio)" if f: "sd_fail_code dev' = 0"
    by (rule sset_blocks_shift[OF inc_trace_bio_ssets[OF t assms(6,4) f assms(7)] assms(5)])
  then show ?thesis using t r ok by (intro exI[of _ dev'] exI[of _ h']) auto
qed

theorem inc_write_marks_exactly_witness:
  "\<exists>dev' h'. inc_trace_bio sample_config sample_blk 0 sample_dev sample_bheap = (0, dev', h') \<and>
    (sd_fail_code dev' = 0 \<longrightarrow> (\<exists>f dev'' w' cow'.
      inc_run ram_kernel (length (sd_pending_ssets dev')) (False, dev', ram_world, Some sample_cow) = Some (f, dev'', w', cow') \<and>
      (sd_fail_code dev'' = 0 \<longrightarrow> (\<exists>cm'. cow' = Some cm' \<and> cow_map w' cm' 3 = 1))))"
proof -
  have fs: "bio_foreign sample_blk (sd_cow_inode sample_dev) (bios sample_bheap 0) = {24..<32}"
    by (simp add: bio_foreign_def sample_blk_def sample_dev_def sample_bheap_def page_bio_def bio_segments_def page_get_inode_def)
  have m: "(3::nat) \<in> (\<lambda>s. SECTOR_TO_BLOCK (s - sd_sect_off sample_dev)) ` {24..<32}"
    by (rule image_eqI[of _ _ 24]) (simp_all add: SECTOR_TO_BLOCK_def sample_dev_def)
  have d: "NUM_SEGMENTS (sd_size sample_dev) 3 \<le> capacity sample_cow" "sd_fail_code sample_dev = 0" "sd_pending_ssets sample_dev = []"
    "sd_sect_off sample_dev \<le> bi_sector (bios sample_bheap 0)" "512 \<le> bi_size (bios sample_bheap 0)"
    "bio_foreign sample_blk (sd_cow_inode sample_dev) (bios sample_bheap 0) \<subseteq> {..<sd_sect_off sample_dev + sd_size sample_dev}"
    unfolding fs by (auto simp: sample_cow_inv(3) NUM_SEGMENTS_div sample_dev_def sample_bheap_def page_bio_def)
  show ?thesis
    using inc_write_marks_exactly[OF ram_kernel_ok sample_cow_inv(1) d, of sample_config ram_world] m unfolding fs by fastforce
qed

end
