(* ===== verification/Tracing_Fn.thy ===== *)
theory Tracing_Fn
  imports Tracing_Lemmas
begin

text \<open>
  The function the driver puts in place of the one a disk had (\<^verbatim>\<open>tracing_fn\<close> of \<^verbatim>\<open>src/src/tracer.c\<close>): it traces a bio
  for the device that claims it and forwards every other one to the function the disk had before.
\<close>

text \<open>What becomes of a bio: traced, with the code of the tracer; handed to a function, or to the kernel; or dropped.\<close>

datatype bio_route = Claimed int | To_Fn mrf_fn | To_Kernel | Dropped

text \<open>The first loop: the last device the bio belongs to decides on the function, unless a device traces the bio.\<close>

fun tracing_walk ::
  "config \<Rightarrow> blk \<Rightarrow> addr \<Rightarrow> mrf_fn option \<Rightarrow> snap_device option list \<Rightarrow> bheap \<Rightarrow>
     (int option \<times> mrf_fn option \<times> snap_device option list \<times> bheap) option" where
  "tracing_walk C B bio orig_fn [] h = Some (None, orig_fn, [], h)"
| "tracing_walk C B bio orig_fn (d # ds) h =
     (case d of None \<Rightarrow> do { (r, f, ds, h) \<leftarrow> tracing_walk C B bio orig_fn ds h; Some (r, f, d # ds, h) }
      | Some dev \<Rightarrow>
          if \<not> tracer_is_bio_for_dev B d (bios h bio) then do { (r, f, ds, h) \<leftarrow> tracing_walk C B bio orig_fn ds h; Some (r, f, d # ds, h) }
          else if bi_passthrough (bios h bio) then do {
            (r, f, ds, h) \<leftarrow> tracing_walk C B bio (sd_orig_request_fn dev) ds
               (h\<lparr>bios := (bios h)(bio := (bios h bio)\<lparr>bi_passthrough := False\<rparr>)\<rparr>);
            Some (r, f, d # ds, h)
          } else if tracer_should_trace_bio d (bios h bio) then
            (if test_bit SNAPSHOT (sd_state dev) then do {
               (ret, dev, h) \<leftarrow> snap_trace_bio C B bio dev h; Some (Some ret, None, Some dev # ds, h)
             } else let (ret, dev, h) = inc_trace_bio C B bio dev h in Some (Some ret, None, Some dev # ds, h))
          else do { (r, f, ds, h) \<leftarrow> tracing_walk C B bio (sd_orig_request_fn dev) ds h; Some (r, f, d # ds, h) })"

text \<open>The devices of the queue of a bio, in order of their minors.\<close>

definition queue_devs :: "blk \<Rightarrow> bio \<Rightarrow> snap_device option list \<Rightarrow> snap_device list" where
  "queue_devs B b ds = map the (filter (\<lambda>d. tracer_is_bio_for_dev_only_queue B d b) ds)"

text \<open>The function of the first device of the queue that has one.\<close>

definition first_orig_fn :: "snap_device list \<Rightarrow> mrf_fn option" where
  "first_orig_fn devs = (case find (\<lambda>dev. sd_orig_request_fn dev \<noteq> None) devs of None \<Rightarrow> None | Some dev \<Rightarrow> sd_orig_request_fn dev)"

text \<open>
  \<open>disk_fn\<close> is the function in the operation table of the disk, NULL for \<open>None\<close>. Calling a NULL function is \<open>None\<close>.
\<close>

definition forward_bio :: "config \<Rightarrow> blk \<Rightarrow> mrf_fn option \<Rightarrow> mrf_fn option \<Rightarrow> bio \<Rightarrow> snap_device option list \<Rightarrow> bio_route option" where
  "forward_bio C B disk_fn orig_fn b ds =
     (if USE_BDOPS_SUBMIT_BIO C then
        Some (case (if orig_fn = None then first_orig_fn (queue_devs B b ds) else orig_fn) of
           Some f \<Rightarrow> To_Fn f
         | None \<Rightarrow> (case disk_fn of None \<Rightarrow> To_Kernel
             | Some f \<Rightarrow> if f = Tracing_Fn then To_Fn Snap_Null_Mrf else To_Fn f))
      else case queue_devs B b ds of [] \<Rightarrow> Some Dropped | dev # _ \<Rightarrow> map_option To_Fn (sd_orig_request_fn dev))"

definition tracing_fn ::
  "config \<Rightarrow> blk \<Rightarrow> mrf_fn option \<Rightarrow> addr \<Rightarrow> snap_device option list \<Rightarrow> bheap \<Rightarrow> (bio_route \<times> snap_device option list \<times> bheap) option" where
  "tracing_fn C B disk_fn bio ds h = do {
     (claimed, orig_fn, ds, h) \<leftarrow> tracing_walk C B bio None ds h;
     case claimed of
       Some ret \<Rightarrow> Some (Claimed ret, ds, h)
     | None \<Rightarrow> do { r \<leftarrow> forward_bio C B disk_fn orig_fn (bios h bio) ds; Some (r, ds, h) }
   }"

subsection \<open>A bio nobody claims\<close>

definition unflagged :: "addr \<Rightarrow> bheap \<Rightarrow> bheap" where
  "unflagged bio h = h\<lparr>bios := (bios h)(bio := (bios h bio)\<lparr>bi_passthrough := False\<rparr>)\<rparr>"

lemma for_dev_unflagged [simp]: "tracer_is_bio_for_dev B d (b\<lparr>bi_passthrough := x\<rparr>) = tracer_is_bio_for_dev B d b"
  by (simp add: tracer_is_bio_for_dev_def tracer_queue_matches_bio_def split: option.split)

lemma queue_unflagged [simp]: "tracer_is_bio_for_dev_only_queue B d (b\<lparr>bi_passthrough := x\<rparr>) = tracer_is_bio_for_dev_only_queue B d b"
  by (simp add: tracer_is_bio_for_dev_only_queue_def tracer_queue_matches_bio_def split: option.split)

lemma queue_devs_unflagged [simp]: "queue_devs B (b\<lparr>bi_passthrough := x\<rparr>) ds = queue_devs B b ds"
  by (simp add: queue_devs_def)

lemma for_dev_queue: "tracer_is_bio_for_dev B d b \<Longrightarrow> tracer_is_bio_for_dev_only_queue B d b"
  by (auto simp: tracer_is_bio_for_dev_def tracer_is_bio_for_dev_only_queue_def split: option.splits if_splits)

lemma tracing_walk_unclaimed:
  assumes "tracing_walk C B bio fn ds h = Some (None, f, ds', h')"
  shows "ds' = ds \<and> (h' = h \<or> h' = unflagged bio h) \<and>
    (f = fn \<or> (\<exists>dev. Some dev \<in> set ds \<and> tracer_is_bio_for_dev B (Some dev) (bios h bio) \<and> f = sd_orig_request_fn dev))"
  using assms
proof (induction ds arbitrary: fn h ds')
  case Nil
  then show ?case by simp
next
  case (Cons d ds)
  show ?case
  proof (cases d)
    case None
    then show ?thesis using Cons.prems Cons.IH[of fn h] by (fastforce split: bind_splits)
  next
    case (Some dev)
    let ?h = "unflagged bio h"
    consider (skip) "\<not> tracer_is_bio_for_dev B d (bios h bio)" | (flag) "tracer_is_bio_for_dev B d (bios h bio)" "bi_passthrough (bios h bio)"
      | (keep) "tracer_is_bio_for_dev B d (bios h bio)" "\<not> bi_passthrough (bios h bio)" "\<not> tracer_should_trace_bio d (bios h bio)"
      using Cons.prems Some by (auto simp: Let_def split: if_splits bind_splits prod.splits)
    then show ?thesis
    proof cases
      case skip
      then show ?thesis using Cons.prems Cons.IH[of fn h] Some by (fastforce split: bind_splits)
    next
      case flag
      with Cons.prems Some obtain ds1 where w: "tracing_walk C B bio (sd_orig_request_fn dev) ds ?h = Some (None, f, ds1, h')" "ds' = d # ds1"
        by (auto simp: unflagged_def split: bind_splits)
      have "unflagged bio ?h = ?h" by (simp add: unflagged_def)
      moreover have "tracer_is_bio_for_dev B x (bios ?h bio) = tracer_is_bio_for_dev B x (bios h bio)" for x by (simp add: unflagged_def)
      ultimately show ?thesis using Cons.IH[OF w(1)] w(2) Some flag(1) by auto
    next
      case keep
      then show ?thesis using Cons.prems Cons.IH[of "sd_orig_request_fn dev" h] Some by (fastforce split: bind_splits)
    qed
  qed
qed

lemma tracing_walk_passthrough:
  assumes "length (filter (\<lambda>d. tracer_is_bio_for_dev B d (bios h bio)) ds) \<le> 1" "bi_passthrough (bios h bio)"
  shows "\<exists>f h'. tracing_walk C B bio fn ds h = Some (None, f, ds, h')"
  using assms
proof (induction ds arbitrary: fn)
  case (Cons d ds)
  show ?case
  proof (cases "tracer_is_bio_for_dev B d (bios h bio)")
    case True
    then obtain dev where d: "d = Some dev" by (cases d) (auto simp: tracer_is_bio_for_dev_def)
    have none: "filter (\<lambda>d. tracer_is_bio_for_dev B d (bios h bio)) ds = []" using True Cons.prems(1) by simp
    have "tracing_walk C B bio f xs (unflagged bio h) = Some (None, f, xs, unflagged bio h)"
      if "filter (\<lambda>d. tracer_is_bio_for_dev B d (bios h bio)) xs = []" for f xs
      using that by (induction xs) (auto simp: unflagged_def split: if_splits option.splits)
    from this[OF none] show ?thesis using True d Cons.prems(2) by (simp add: unflagged_def)
  next
    case False
    then have "length (filter (\<lambda>d. tracer_is_bio_for_dev B d (bios h bio)) ds) \<le> 1" using Cons.prems(1) by simp
    from Cons.IH[OF this Cons.prems(2), of fn] obtain f h' where "tracing_walk C B bio fn ds h = Some (None, f, ds, h')" by blast
    then show ?thesis using False by (cases d) auto
  qed
qed simp

lemma forward_route:
  assumes "forward_bio C B disk_fn fn b ds = Some r" "\<forall>dev. Some dev \<in> set ds \<longrightarrow> sd_orig_request_fn dev \<noteq> Some Tracing_Fn"
    and fn: "fn = None \<or> (\<exists>dev. Some dev \<in> set ds \<and> tracer_is_bio_for_dev B (Some dev) b \<and> fn = sd_orig_request_fn dev)"
  shows "r \<noteq> To_Fn Tracing_Fn \<and> (\<forall>ret. r \<noteq> Claimed ret) \<and>
    ((\<exists>dev \<in> set (queue_devs B b ds). sd_orig_request_fn dev \<noteq> None) \<longrightarrow> (\<forall>dev \<in> set (queue_devs B b ds). sd_orig_request_fn dev \<noteq> None) \<longrightarrow>
     (\<exists>dev \<in> set (queue_devs B b ds). map_option To_Fn (sd_orig_request_fn dev) = Some r))"
proof -
  let ?q = "queue_devs B b ds"
  have sub: "Some dev \<in> set ds" if "dev \<in> set ?q" for dev
    using that by (auto simp: queue_devs_def tracer_is_bio_for_dev_only_queue_def split: option.splits)
  have first: "\<exists>dev \<in> set ?q. sd_orig_request_fn dev = Some f" if "first_orig_fn ?q = Some f" for f
    using that by (auto simp: first_orig_fn_def find_Some_iff split: option.splits)
  have own: "\<exists>dev \<in> set ?q. sd_orig_request_fn dev = Some f" if "fn = Some f" for f
  proof -
    from fn that obtain dev where "Some dev \<in> set ds" "tracer_is_bio_for_dev B (Some dev) b" "sd_orig_request_fn dev = Some f" by auto
    then show ?thesis using for_dev_queue by (force simp: queue_devs_def image_iff)
  qed
  have none: "\<forall>dev \<in> set ?q. sd_orig_request_fn dev = None" if "first_orig_fn ?q = None"
    using that by (auto simp: first_orig_fn_def find_None_iff find_Some_iff split: option.splits)
  show ?thesis
  proof (cases "USE_BDOPS_SUBMIT_BIO C")
    case True
    define g where "g = (if fn = None then first_orig_fn ?q else fn)"
    show ?thesis
    proof (cases g)
      case None
      then have "\<forall>dev \<in> set ?q. sd_orig_request_fn dev = None" using none by (auto simp: g_def split: if_splits)
      then show ?thesis using assms(1) True None by (auto simp: forward_bio_def g_def split: option.splits if_splits)
    next
      case (Some f)
      then obtain dev where "dev \<in> set ?q" "sd_orig_request_fn dev = Some f" using first own by (auto simp: g_def split: if_splits)
      then show ?thesis using assms(1,2) sub True Some by (force simp: forward_bio_def g_def split: option.splits if_splits)
    qed
  next
    case False
    show ?thesis
    proof (cases ?q)
      case Nil
      then show ?thesis using assms(1) False by (auto simp: forward_bio_def)
    next
      case (Cons dev q)
      then have "Some dev \<in> set ds" using sub by simp
      with Cons show ?thesis using assms(1,2) False by (auto simp: forward_bio_def)
    qed
  qed
qed

text \<open>
  C22. What the tracing function does not trace it forwards, to the function the disk had. With original functions that are not
  the tracing function itself: a write the driver has marked as its own is not traced again when it belongs to one device;
  and a bio that is not traced leaves every device as it was and loses at most its mark, is never handed back to the tracing
  function, and, when the devices of its queue all know the original function, goes to the original function of one of them.
\<close>

theorem tracing_fn_forwards:
  assumes "tracing_fn C B disk_fn bio ds h = Some (r, ds', h')" "\<forall>dev. Some dev \<in> set ds \<longrightarrow> sd_orig_request_fn dev \<noteq> Some Tracing_Fn"
  shows "(bi_passthrough (bios h bio) \<and> length (filter (\<lambda>d. tracer_is_bio_for_dev B d (bios h bio)) ds) \<le> 1 \<longrightarrow> (\<forall>ret. r \<noteq> Claimed ret)) \<and>
    ((\<forall>ret. r \<noteq> Claimed ret) \<longrightarrow> ds' = ds \<and> (h' = h \<or> h' = unflagged bio h) \<and> r \<noteq> To_Fn Tracing_Fn \<and>
      (queue_devs B (bios h bio) ds \<noteq> [] \<longrightarrow> (\<forall>dev \<in> set (queue_devs B (bios h bio) ds). sd_orig_request_fn dev \<noteq> None) \<longrightarrow>
       (\<exists>dev \<in> set (queue_devs B (bios h bio) ds). map_option To_Fn (sd_orig_request_fn dev) = Some r)))"
proof -
  from assms(1) obtain cl fn ds1 h1 where w: "tracing_walk C B bio None ds h = Some (cl, fn, ds1, h1)"
    by (auto simp: tracing_fn_def split: bind_splits)
  have "cl = None" if "bi_passthrough (bios h bio)" "length (filter (\<lambda>d. tracer_is_bio_for_dev B d (bios h bio)) ds) \<le> 1"
    using tracing_walk_passthrough[OF that(2,1), of C None] w by auto
  moreover have ?thesis if "cl = Some ret" for ret using assms(1) w that calculation by (auto simp: tracing_fn_def)
  moreover have ?thesis if cl: "cl = None"
  proof -
    note u = tracing_walk_unclaimed[OF w[unfolded cl]]
    from assms(1) w cl have f: "forward_bio C B disk_fn fn (bios h1 bio) ds1 = Some r" "ds' = ds1" "h' = h1"
      by (auto simp: tracing_fn_def split: bind_splits)
    have b: "forward_bio C B disk_fn fn (bios h1 bio) ds = forward_bio C B disk_fn fn (bios h bio) ds"
      using u by (auto simp: forward_bio_def unflagged_def)
    have "fn = None \<or> (\<exists>dev. Some dev \<in> set ds \<and> tracer_is_bio_for_dev B (Some dev) (bios h bio) \<and> fn = sd_orig_request_fn dev)" using u by auto
    from forward_route[OF _ assms(2) this, of C disk_fn r] f b u show ?thesis by (cases "queue_devs B (bios h bio) ds") auto
  qed
  ultimately show ?thesis by (cases cl) auto
qed

theorem tracing_fn_forwards_witness:
  "let dev = sample_dev\<lparr>sd_orig_request_fn := Some (Driver_Fn 4)\<rparr>; h = sample_bheap\<lparr>bios := (\<lambda>_. (page_bio REQ_OP_WRITE 3 0)\<lparr>bi_passthrough := True\<rparr>)\<rparr> in
   \<exists>h'. tracing_fn sample_config sample_blk (Some Tracing_Fn) 0 [None, Some dev] h = Some (To_Fn (Driver_Fn 4), [None, Some dev], h')"
proof -
  let ?dev = "sample_dev\<lparr>sd_orig_request_fn := Some (Driver_Fn 4)\<rparr>"
  let ?h = "sample_bheap\<lparr>bios := (\<lambda>_. (page_bio REQ_OP_WRITE 3 0)\<lparr>bi_passthrough := True\<rparr>)\<rparr>"
  have q: "queue_devs sample_blk (bios ?h 0) [None, Some ?dev] = [?dev]" "tracer_is_bio_for_dev sample_blk (Some ?dev) (bios ?h 0)"
    "\<not> tracer_is_bio_for_dev sample_blk None (bios ?h 0)"
    by (simp_all add: queue_devs_def tracer_is_bio_for_dev_only_queue_def tracer_is_bio_for_dev_def tracer_queue_matches_bio_def sample_dev_def
      sample_blk_def sample_bheap_def page_bio_def test_bit_def bit_numeral_rec)
  obtain r ds' h' where e: "tracing_fn sample_config sample_blk (Some Tracing_Fn) 0 [None, Some ?dev] ?h = Some (r, ds', h')"
  proof -
    have "length (filter (\<lambda>d. tracer_is_bio_for_dev sample_blk d (bios ?h 0)) [None, Some ?dev]) \<le> 1" "bi_passthrough (bios ?h 0)" using q(3) by simp_all
    from tracing_walk_passthrough[OF this, of sample_config None] obtain f h' where
      "tracing_walk sample_config sample_blk 0 None [None, Some ?dev] ?h = Some (None, f, [None, Some ?dev], h')" by blast
    then show ?thesis using that by (auto simp: tracing_fn_def forward_bio_def)
  qed
  from tracing_fn_forwards[OF e] q e show ?thesis by (auto simp: Let_def)
qed

end
