(* ===== verification/Tracer.thy ===== *)
theory Tracer
  imports Tracing
begin

text \<open>
  The life of a tracer (\<^verbatim>\<open>src/src/tracer.c\<close>, \<^verbatim>\<open>src/src/blkdev.c\<close>, \<^verbatim>\<open>src/src/callback_refs.c\<close>): the array of
  devices and its minor range, the setup and destroy functions of every part of a device, and the
  transitions between snapshot, incremental, dormant and unverified.

  Devices, managers and operation tables live in stores indexed by their address, since a transition
  shares them between the old device and the new one and frees them at different times. A result is
  \<open>None\<close> where the code would use memory it has given back, or would wait for clones that are still out.
\<close>

subsection \<open>The kernel services and the state of the driver\<close>

text \<open>
  What the kernel answers, as a function of the time of the call: whether an allocation succeeds,
  the block device behind a path, its disk, whole device, start, size and the capacity of a disk, path lookups,
  the super block mounted on a device, whether it is read-only, the super block of a mount, the results of freezing and thawing,
  of setting up the bio set, adding the disk and creating a thread, and whether a woken thread got to
  run before it was stopped.
\<close>

record sysenv =
  e_alloc :: "nat \<Rightarrow> bool"
  e_blkdev :: "nat \<Rightarrow> string \<Rightarrow> int + nat"
  e_disk :: "nat \<Rightarrow> nat option"
  e_whole :: "nat \<Rightarrow> nat"
  e_start :: "nat \<Rightarrow> nat"
  e_size :: "nat \<Rightarrow> nat"
  e_capacity :: "nat \<Rightarrow> nat"
  e_kern_path :: "nat \<Rightarrow> string \<Rightarrow> int"
  e_d_path :: "nat \<Rightarrow> string \<Rightarrow> int + string"
  e_dentry_path :: "nat \<Rightarrow> nat \<Rightarrow> int + string"
  e_super :: "nat \<Rightarrow> nat \<Rightarrow> nat option"
  e_rdonly :: "nat \<Rightarrow> nat \<Rightarrow> bool"
  e_mnt_sb :: "nat \<Rightarrow> nat"
  e_freeze :: "nat \<Rightarrow> nat \<Rightarrow> int"
  e_thaw :: "nat \<Rightarrow> nat \<Rightarrow> int"
  e_bioset :: "nat \<Rightarrow> int"
  e_add_disk :: "nat \<Rightarrow> int"
  e_kthread :: "nat \<Rightarrow> int"
  e_ran :: "nat \<Rightarrow> bool"
  e_submit :: submit
  max_snap_devices :: nat
  cow_max_memory_default :: u64
  cow_fallocate_percentage_default :: u64

text \<open>Operation tables that are shared between tracers: the table and the reference count.\<close>

record tracing_ops =
  to_bd_ops :: nat
  to_refs :: int

text \<open>
  The state: the stores, the array, the minor range, the files, the open references to block devices,
  the operation tables with their \<^verbatim>\<open>submit_bio\<close>, what each disk uses, the map of \<^verbatim>\<open>callback_refs.c\<close>, the
  memory of the block layer and the content of the block devices.
\<close>

record drv =
  d_devs :: "addr \<Rightarrow> snap_device option"
  d_cows :: "addr \<Rightarrow> cow_manager option"
  d_trops :: "addr \<Rightarrow> tracing_ops option"
  snap_devices :: "addr option list"
  lowest_minor :: nat
  highest_minor :: nat
  d_next :: addr
  d_world :: world
  bdev_refs :: "nat \<Rightarrow> int"
  ops_fn :: "nat \<Rightarrow> mrf_fn option"
  disk_mrf :: "nat \<Rightarrow> mrf_fn option"
  disk_fops :: "nat \<Rightarrow> nat"
  mrf_tracking_map :: "nat \<Rightarrow> (mrf_fn option \<times> int) option"
  d_bheap :: bheap
  d_content :: "nat \<Rightarrow> buf"

abbreviation now :: "drv \<Rightarrow> nat" where "now s \<equiv> clock (d_world s)"

definition etick :: "drv \<Rightarrow> drv" where
  "etick s = s\<lparr>d_world := ktick (d_world s)\<rparr>"

definition upd_dev :: "addr \<Rightarrow> (snap_device \<Rightarrow> snap_device) \<Rightarrow> drv \<Rightarrow> drv option" where
  "upd_dev a f s = (case d_devs s a of None \<Rightarrow> None | Some dev \<Rightarrow> Some (s\<lparr>d_devs := (d_devs s)(a \<mapsto> f dev)\<rparr>))"

definition kfree_dev :: "addr \<Rightarrow> drv \<Rightarrow> drv option" where
  "kfree_dev a s = (case d_devs s a of None \<Rightarrow> None | Some _ \<Rightarrow> Some (s\<lparr>d_devs := (d_devs s)(a := None)\<rparr>))"

subsection \<open>Block devices\<close>

definition moocbt_blkdev_by_path :: "sysenv \<Rightarrow> string \<Rightarrow> drv \<Rightarrow> (int + nat) \<times> drv" where
  "moocbt_blkdev_by_path E path s =
     (if \<not> e_alloc E (now s) then (Inl (- ENOMEM), etick s)
      else let s = etick s in
        case e_blkdev E (now s) path of
          Inl err \<Rightarrow> (Inl err, etick s)
        | Inr bdev \<Rightarrow> (Inr bdev, (etick s)\<lparr>bdev_refs := (bdev_refs s)(bdev := bdev_refs s bdev + 1)\<rparr>))"

definition moocbt_blkdev_put :: "nat \<Rightarrow> drv \<Rightarrow> drv" where
  "moocbt_blkdev_put bdev s = s\<lparr>bdev_refs := (bdev_refs s)(bdev := bdev_refs s bdev - 1)\<rparr>"

definition moocbt_get_super :: "sysenv \<Rightarrow> nat \<Rightarrow> drv \<Rightarrow> nat option" where
  "moocbt_get_super E bdev s = e_super E (now s) bdev"

text \<open>\<^verbatim>\<open>bdev_get_queue\<close>: every disk has one queue, which stands for both.\<close>

definition bdev_get_queue :: "sysenv \<Rightarrow> nat \<Rightarrow> nat" where
  "bdev_get_queue E bdev = (case e_disk E bdev of None \<Rightarrow> 0 | Some d \<Rightarrow> d)"

definition moocbt_get_bd_mrf :: "sysenv \<Rightarrow> config \<Rightarrow> nat \<Rightarrow> drv \<Rightarrow> mrf_fn option" where
  "moocbt_get_bd_mrf E C bdev s =
     (if USE_BDOPS_SUBMIT_BIO C then ops_fn s (disk_fops s (bdev_get_queue E bdev)) else disk_mrf s (bdev_get_queue E bdev))"

definition moocbt_get_bd_ops :: "sysenv \<Rightarrow> nat \<Rightarrow> drv \<Rightarrow> nat" where
  "moocbt_get_bd_ops E bdev s = disk_fops s (bdev_get_queue E bdev)"

subsection \<open>The array and its minor range\<close>

text \<open>The indices \<^verbatim>\<open>tracer_for_each\<close> and \<^verbatim>\<open>tracer_for_each_full\<close> visit, and the devices found there.\<close>

definition tracer_for_each :: "drv \<Rightarrow> nat list" where
  "tracer_for_each s = [lowest_minor s..<Suc (highest_minor s)]"

definition tracer_for_each_full :: "sysenv \<Rightarrow> nat list" where
  "tracer_for_each_full E = [0..<max_snap_devices E]"

definition slot :: "drv \<Rightarrow> nat \<Rightarrow> addr option" where
  "slot s i = (if i < length (snap_devices s) then snap_devices s ! i else None)"

text \<open>The search for the first device with a property; reading a device that was freed is \<open>None\<close>.\<close>

fun find_idx :: "(addr \<Rightarrow> snap_device \<Rightarrow> bool) \<Rightarrow> drv \<Rightarrow> nat list \<Rightarrow> (nat \<times> addr) option option" where
  "find_idx p s [] = Some None"
| "find_idx p s (i # is) =
     (case slot s i of None \<Rightarrow> find_idx p s is
      | Some a \<Rightarrow> (case d_devs s a of None \<Rightarrow> None
          | Some dev \<Rightarrow> if p a dev then Some (Some (i, a)) else find_idx p s is))"

definition find_dev :: "(addr \<Rightarrow> snap_device \<Rightarrow> bool) \<Rightarrow> drv \<Rightarrow> nat list \<Rightarrow> addr option option" where
  "find_dev p s is = map_option (map_option snd) (find_idx p s is)"

definition bdev_is_already_traced :: "nat \<Rightarrow> drv \<Rightarrow> bool option" where
  "bdev_is_already_traced bdev s =
     map_option (\<lambda>r. r \<noteq> None) (find_dev (\<lambda>_ dev. \<not> test_bit UNVERIFIED (sd_state dev) \<and> sd_base_dev dev = Some bdev)
       s (tracer_for_each s))"

definition file_is_on_bdev :: "sysenv \<Rightarrow> moocbt_cow_file \<Rightarrow> nat \<Rightarrow> drv \<Rightarrow> bool" where
  "file_is_on_bdev E dfile bdev s =
     (case moocbt_get_super E bdev s of None \<Rightarrow> False | Some sb \<Rightarrow> e_mnt_sb E (df_mnt dfile) = sb)"

fun recalculate :: "(nat \<Rightarrow> addr option) \<Rightarrow> nat list \<Rightarrow> nat \<times> nat \<Rightarrow> nat \<times> nat" where
  "recalculate f [] (lowest, highest) = (lowest, highest)"
| "recalculate f (i # is) (lowest, highest) =
     (if f i = None then recalculate f is (lowest, highest)
      else recalculate f is (if i < lowest then i else lowest, if i > highest then i else highest))"

definition minor_range_recalculate :: "sysenv \<Rightarrow> drv \<Rightarrow> drv" where
  "minor_range_recalculate E s =
     (let (lowest, highest) = recalculate (slot s) (tracer_for_each_full E) (max_snap_devices E - 1, 0)
      in s\<lparr>lowest_minor := lowest, highest_minor := highest\<rparr>)"

definition minor_range_include :: "nat \<Rightarrow> drv \<Rightarrow> drv" where
  "minor_range_include minor s =
     s\<lparr>lowest_minor := (if minor < lowest_minor s then minor else lowest_minor s),
       highest_minor := (if minor > highest_minor s then minor else highest_minor s)\<rparr>"

subsection \<open>Allocation\<close>

text \<open>The fields of a new device: \<^verbatim>\<open>kzalloc\<close>, then \<^verbatim>\<open>__tracer_init\<close>.\<close>

definition tracer_init :: snap_device where
  "tracer_init = \<lparr>sd_minor = 0, sd_state = 0, sd_falloc_size = 0, sd_cache_size = 0, sd_refs = 0, sd_fail_code = 0,
     sd_active = 0, sd_sect_off = 0, sd_size = 0, sd_queue = False, sd_gd = False, sd_base_dev = None,
     sd_bdev_path = None, sd_cow = None, sd_cow_path = None, sd_cow_inode = None, sd_orig_request_fn = None,
     sd_cow_thread = None, sd_cow_bios = [], sd_mrf_thread = False, sd_orig_bios = [], sd_read_thread = False,
     sd_read_bios = [], sd_pending_ssets = [], sd_bioset = False, sd_submitted_cnt = 0, sd_received_cnt = 0,
     bd_ops = None, sd_tracing_ops = None\<rparr>"

definition tracer_alloc :: "sysenv \<Rightarrow> drv \<Rightarrow> int \<times> addr option \<times> drv" where
  "tracer_alloc E s =
     (if \<not> e_alloc E (now s) then (- ENOMEM, None, etick s)
      else (0, Some (d_next s), (etick s)\<lparr>d_next := Suc (d_next s), d_devs := (d_devs s)(d_next s \<mapsto> tracer_init)\<rparr>))"

subsection \<open>Path names\<close>

definition path_get_absolute_pathname :: "sysenv \<Rightarrow> string \<Rightarrow> drv \<Rightarrow> (int + string) \<times> drv" where
  "path_get_absolute_pathname E path s =
     (if \<not> e_alloc E (now s) then (Inl (- ENOMEM), etick s)
      else let s = etick s in
        case e_d_path E (now s) path of
          Inl err \<Rightarrow> (Inl err, etick s)
        | Inr p \<Rightarrow> let s = etick s in
            if \<not> e_alloc E (now s) then (Inl (- ENOMEM), etick s) else (Inr p, etick s))"

definition pathname_to_absolute :: "sysenv \<Rightarrow> string \<Rightarrow> drv \<Rightarrow> (int + string) \<times> drv" where
  "pathname_to_absolute E pathname s =
     (let ret = e_kern_path E (now s) pathname; s = etick s in
      if ret \<noteq> 0 then (Inl ret, s) else path_get_absolute_pathname E pathname s)"

definition dentry_get_relative_pathname :: "sysenv \<Rightarrow> nat \<Rightarrow> drv \<Rightarrow> (int + string) \<times> drv" where
  "dentry_get_relative_pathname E ino s =
     (if \<not> e_alloc E (now s) then (Inl (- ENOMEM), etick s)
      else let s = etick s in
        case e_dentry_path E (now s) ino of
          Inl err \<Rightarrow> (Inl err, etick s)
        | Inr p \<Rightarrow> let s = etick s in
            if \<not> e_alloc E (now s) then (Inl (- ENOMEM), etick s) else (Inr p, etick s))"

subsection \<open>The COW manager of a device\<close>

text \<open>\<open>close_method\<close> 0 frees the manager and unlinks the file, 1 flushes and frees, 2 flushes and closes the file.\<close>

definition tracer_destroy_cow :: "kernel \<Rightarrow> addr \<Rightarrow> nat \<Rightarrow> drv \<Rightarrow> (int \<times> drv) option" where
  "tracer_destroy_cow K a close_method s = do {
     s \<leftarrow> upd_dev a (\<lambda>dev. dev\<lparr>sd_cow_inode := None, sd_falloc_size := 0, sd_cache_size := 0\<rparr>) s;
     dev \<leftarrow> d_devs s a;
     case sd_cow dev of
       None \<Rightarrow> Some (0, s)
     | Some c \<Rightarrow> do {
         cm \<leftarrow> d_cows s c;
         if close_method = 0 then do {
           let s = s\<lparr>d_world := cow_free K (d_world s) cm, d_cows := (d_cows s)(c := None)\<rparr>;
           s \<leftarrow> upd_dev a (\<lambda>dev. dev\<lparr>sd_cow := None\<rparr>) s;
           Some (0, s)
         } else if close_method = 1 then do {
           (ret, w) \<leftarrow> cow_sync_and_free K (d_world s) cm;
           let s = s\<lparr>d_world := w, d_cows := (d_cows s)(c := None)\<rparr>;
           s \<leftarrow> upd_dev a (\<lambda>dev. dev\<lparr>sd_cow := None\<rparr>) s;
           Some (ret, s)
         } else if close_method = 2 then do {
           (ret, w, cm) \<leftarrow> cow_sync_and_close K (d_world s) cm;
           Some (ret, s\<lparr>d_world := w, d_cows := (d_cows s)(c \<mapsto> cm)\<rparr>)
         } else Some (0, s)
       }
   }"

text \<open>
  The three ways to obtain a manager: \<open>open_method\<close> 3 reopens the file of the manager the device has, 0 creates a
  new file, 1 and 2 reload an existing one, 2 with the index only.
\<close>

definition falloc_plan :: "sysenv \<Rightarrow> u64 \<Rightarrow> u64 \<Rightarrow> u64 \<times> u64" where
  "falloc_plan E sz fallocated_space =
     (if fallocated_space = 0 then
        let m = sz * of_nat SECTOR_SIZE * cow_fallocate_percentage_default E div 100 in (m, m div (1024 * 1024))
      else (fallocated_space * (1024 * 1024), fallocated_space))"

definition obtain_cow ::
  "sysenv \<Rightarrow> kernel \<Rightarrow> addr \<Rightarrow> string \<Rightarrow> u64 \<Rightarrow> u64 \<Rightarrow> u64 \<Rightarrow> byte list option \<Rightarrow> u64 \<Rightarrow> nat \<Rightarrow> drv \<Rightarrow> (int \<times> drv) option" where
  "obtain_cow E K a cow_path sz fallocated_space cache_size u sid open_method s =
     (if open_method = 3 then do {
        dev \<leftarrow> d_devs s a;
        c \<leftarrow> sd_cow dev;
        cm \<leftarrow> d_cows s c;
        (ret, w, cm) \<leftarrow> cow_reopen K cow_path (d_world s) cm;
        Some (ret, s\<lparr>d_world := w, d_cows := (d_cows s)(c \<mapsto> cm)\<rparr>)
      } else do {
        let cache = (if cache_size = 0 then cow_max_memory_default E else cache_size);
        s \<leftarrow> upd_dev a (\<lambda>dev. dev\<lparr>sd_cache_size := cache\<rparr>) s;
        let blocks = SECTOR_TO_BLOCK (unat sz);
        let c = d_next s;
        if open_method = 0 then do {
          let (max_file_size, falloc) = falloc_plan E sz fallocated_space;
          s \<leftarrow> upd_dev a (\<lambda>dev. dev\<lparr>sd_falloc_size := falloc\<rparr>) s;
          (ret, w, new) \<leftarrow> cow_init K a cow_path blocks COW_SECTION_SIZE (unat cache) max_file_size u sid (d_world s);
          s \<leftarrow> upd_dev a (\<lambda>dev. dev\<lparr>sd_cow := map_option (\<lambda>_. c) new\<rparr>) s;
          Some (ret, s\<lparr>d_world := w, d_cows := (d_cows s)(c := new), d_next := Suc c\<rparr>)
        } else do {
          (ret, w, new) \<leftarrow> cow_reload K cow_path blocks COW_SECTION_SIZE (unat cache) (open_method = 2) (d_world s);
          s \<leftarrow> upd_dev a (\<lambda>dev. dev\<lparr>sd_cow := map_option (\<lambda>_. c) new\<rparr>) s;
          let s = s\<lparr>d_world := w, d_cows := (d_cows s)(c := new), d_next := Suc c\<rparr>;
          if ret \<noteq> 0 then Some (ret, s)
          else do {
            cm \<leftarrow> new;
            s \<leftarrow> upd_dev a (\<lambda>dev. dev\<lparr>sd_falloc_size := file_size cm div (1024 * 1024)\<rparr>) s;
            Some (0, s)
          }
        }
      })"

definition tracer_setup_cow ::
  "sysenv \<Rightarrow> kernel \<Rightarrow> addr \<Rightarrow> nat \<Rightarrow> string \<Rightarrow> u64 \<Rightarrow> u64 \<Rightarrow> u64 \<Rightarrow> byte list option \<Rightarrow> u64 \<Rightarrow> nat \<Rightarrow> drv \<Rightarrow> (int \<times> drv) option" where
  "tracer_setup_cow E K a bdev cow_path sz fallocated_space cache_size u sid open_method s = do {
     (ret, s) \<leftarrow> obtain_cow E K a cow_path sz fallocated_space cache_size u sid open_method s;
     (ret, s) \<leftarrow>
       (if ret \<noteq> 0 then Some (ret, s)
        else do {
          dev \<leftarrow> d_devs s a;
          c \<leftarrow> sd_cow dev;
          cm \<leftarrow> d_cows s c;
          d \<leftarrow> dfilp cm;
          if \<not> file_is_on_bdev E d bdev s then Some (- EINVAL, s)
          else do { s \<leftarrow> upd_dev a (\<lambda>dev. dev\<lparr>sd_cow_inode := Some (df_inode d)\<rparr>) s; Some (0, s) }
        });
     if ret \<noteq> 0 \<and> open_method \<noteq> 3 then do { (_, s) \<leftarrow> tracer_destroy_cow K a 0 s; Some (ret, s) }
     else Some (ret, s)
   }"

subsection \<open>The base device and the COW path\<close>

definition tracer_destroy_base_dev :: "addr \<Rightarrow> drv \<Rightarrow> drv option" where
  "tracer_destroy_base_dev a s = do {
     dev \<leftarrow> d_devs s a;
     let s = (case sd_base_dev dev of None \<Rightarrow> s | Some bdev \<Rightarrow> moocbt_blkdev_put bdev s);
     upd_dev a (\<lambda>dev. dev\<lparr>sd_size := 0, sd_sect_off := 0, sd_bdev_path := None, sd_base_dev := None\<rparr>) s
   }"

definition tracer_setup_base_dev :: "sysenv \<Rightarrow> addr \<Rightarrow> string \<Rightarrow> drv \<Rightarrow> (int \<times> drv) option" where
  "tracer_setup_base_dev E a bdev_path s = do {
     let (r, s) = moocbt_blkdev_by_path E bdev_path s;
     (ret, s) \<leftarrow>
       (case r of
          Inl err \<Rightarrow> do { s \<leftarrow> upd_dev a (\<lambda>dev. dev\<lparr>sd_base_dev := None\<rparr>) s; Some (err, s) }
        | Inr bdev \<Rightarrow> do {
            s \<leftarrow> upd_dev a (\<lambda>dev. dev\<lparr>sd_base_dev := Some bdev\<rparr>) s;
            case e_disk E bdev of
              None \<Rightarrow> Some (- EFAULT, s)
            | Some disk \<Rightarrow> do {
                traced \<leftarrow> bdev_is_already_traced bdev s;
                if traced then Some (- EINVAL, s)
                else case pathname_to_absolute E bdev_path s of
                  (Inl err, s) \<Rightarrow> Some (err, s)
                | (Inr p, s) \<Rightarrow> do {
                    s \<leftarrow> upd_dev a (\<lambda>dev. dev\<lparr>sd_bdev_path := Some p,
                      sd_sect_off := (if e_whole E bdev \<noteq> bdev then e_start E bdev else 0),
                      sd_size := (if e_whole E bdev \<noteq> bdev then e_size E bdev else e_capacity E disk)\<rparr>) s;
                    Some (0, s)
                  }
              }
          });
     if ret \<noteq> 0 then do { s \<leftarrow> tracer_destroy_base_dev a s; Some (ret, s) } else Some (0, s)
   }"

definition tracer_copy_base_dev :: "snap_device \<Rightarrow> snap_device \<Rightarrow> snap_device" where
  "tracer_copy_base_dev src dest =
     dest\<lparr>sd_size := sd_size src, sd_sect_off := sd_sect_off src, sd_base_dev := sd_base_dev src, sd_bdev_path := sd_bdev_path src\<rparr>"

definition tracer_copy_cow :: "addr \<Rightarrow> addr \<Rightarrow> drv \<Rightarrow> drv option" where
  "tracer_copy_cow src dest s = do {
     old \<leftarrow> d_devs s src;
     c \<leftarrow> sd_cow old;
     cm \<leftarrow> d_cows s c;
     upd_dev dest (\<lambda>dev. dev\<lparr>sd_cow := Some c, sd_cow_inode := sd_cow_inode old,
       sd_cache_size := sd_cache_size old, sd_falloc_size := sd_falloc_size old\<rparr>)
       (s\<lparr>d_cows := (d_cows s)(c \<mapsto> cm\<lparr>cm_dev := Some dest\<rparr>)\<rparr>)
   }"

definition tracer_destroy_cow_path :: "addr \<Rightarrow> drv \<Rightarrow> drv option" where
  "tracer_destroy_cow_path a s = upd_dev a (\<lambda>dev. dev\<lparr>sd_cow_path := None\<rparr>) s"

definition tracer_setup_cow_path :: "sysenv \<Rightarrow> addr \<Rightarrow> drv \<Rightarrow> (int \<times> drv) option" where
  "tracer_setup_cow_path E a s = do {
     dev \<leftarrow> d_devs s a;
     c \<leftarrow> sd_cow dev;
     cm \<leftarrow> d_cows s c;
     d \<leftarrow> dfilp cm;
     case dentry_get_relative_pathname E (df_inode d) s of
       (Inl err, s) \<Rightarrow> do { s \<leftarrow> tracer_destroy_cow_path a s; Some (err, s) }
     | (Inr p, s) \<Rightarrow> do { s \<leftarrow> upd_dev a (\<lambda>dev. dev\<lparr>sd_cow_path := Some p\<rparr>) s; Some (0, s) }
   }"

definition tracer_copy_cow_path :: "snap_device \<Rightarrow> snap_device \<Rightarrow> snap_device" where
  "tracer_copy_cow_path src dest = dest\<lparr>sd_cow_path := sd_cow_path src\<rparr>"

subsection \<open>Threads and the snapshot disk\<close>

text \<open>
  Stopping a thread: it takes turns until its queue is empty, at least one; a thread that never ran takes none. A
  snapshot thread also waits for the clones that are out unless the device has failed.
\<close>

definition run_cow_thread :: "sysenv \<Rightarrow> kernel \<Rightarrow> kthread \<Rightarrow> addr \<Rightarrow> drv \<Rightarrow> drv option" where
  "run_cow_thread E K t a s = do {
     dev \<leftarrow> d_devs s a;
     let cow = Option.bind (sd_cow dev) (d_cows s);
     (dev', h, w, cow') \<leftarrow>
       (case kt_fn t of
          Inc_Sset_Thread \<Rightarrow> do {
            (_, dev, w, cow) \<leftarrow> inc_run K (max 1 (length (sd_pending_ssets dev))) (kt_failed t, dev, d_world s, cow);
            Some (dev, d_bheap s, w, cow)
          }
        | Snap_Cow_Thread \<Rightarrow> do {
            let D = (case sd_base_dev dev of None \<Rightarrow> (\<lambda>_. 0) | Some b \<Rightarrow> d_content s b);
            (f, dev, h, w, cow) \<leftarrow> cow_run K (e_submit E) D (max 1 (length (sd_cow_bios dev)))
               (kt_failed t, dev, d_bheap s, d_world s, cow);
            if snap_cow_thread_runs True f dev then None else Some (dev, h, w, cow)
          });
     let cows = (case sd_cow dev of None \<Rightarrow> d_cows s | Some c \<Rightarrow> (d_cows s)(c := cow'));
     Some (s\<lparr>d_devs := (d_devs s)(a \<mapsto> dev'), d_bheap := h, d_world := w, d_cows := cows\<rparr>)
   }"

definition tracer_destroy_cow_thread :: "sysenv \<Rightarrow> kernel \<Rightarrow> addr \<Rightarrow> drv \<Rightarrow> drv option" where
  "tracer_destroy_cow_thread E K a s = do {
     dev \<leftarrow> d_devs s a;
     case sd_cow_thread dev of
       None \<Rightarrow> Some s
     | Some t \<Rightarrow> do {
         s \<leftarrow> (if kt_woken t \<and> e_ran E (now s) then run_cow_thread E K t a (etick s) else Some (etick s));
         upd_dev a (\<lambda>dev. dev\<lparr>sd_cow_thread := None\<rparr>) s
       }
   }"

definition tracer_setup_cow_thread :: "sysenv \<Rightarrow> kernel \<Rightarrow> addr \<Rightarrow> nat \<Rightarrow> bool \<Rightarrow> drv \<Rightarrow> (int \<times> drv) option" where
  "tracer_setup_cow_thread E K a minor is_snap s = do {
     let err = e_kthread E (now s);
     let s = etick s;
     if err \<noteq> 0 then do {
       s \<leftarrow> upd_dev a (\<lambda>dev. dev\<lparr>sd_cow_thread := None\<rparr>) s;
       s \<leftarrow> tracer_destroy_cow_thread E K a s;
       Some (err, s)
     } else do {
       s \<leftarrow> upd_dev a (\<lambda>dev. dev\<lparr>sd_cow_thread :=
         Some \<lparr>kt_fn = (if is_snap then Snap_Cow_Thread else Inc_Sset_Thread), kt_woken = False, kt_failed = False\<rparr>\<rparr>) s;
       Some (0, s)
     }
   }"

definition wake_up_process :: "addr \<Rightarrow> drv \<Rightarrow> drv option" where
  "wake_up_process a s = do {
     dev \<leftarrow> d_devs s a;
     t \<leftarrow> sd_cow_thread dev;
     upd_dev a (\<lambda>dev. dev\<lparr>sd_cow_thread := Some (t\<lparr>kt_woken := True\<rparr>)\<rparr>) s
   }"

definition tracer_bioset_init :: "sysenv \<Rightarrow> addr \<Rightarrow> drv \<Rightarrow> (int \<times> drv) option" where
  "tracer_bioset_init E a s = do {
     let ret = e_bioset E (now s);
     s \<leftarrow> upd_dev a (\<lambda>dev. dev\<lparr>sd_bioset := (ret = 0)\<rparr>) (etick s);
     Some (ret, s)
   }"

definition tracer_bioset_exit :: "addr \<Rightarrow> drv \<Rightarrow> drv option" where
  "tracer_bioset_exit a s = upd_dev a (\<lambda>dev. dev\<lparr>sd_bioset := False\<rparr>) s"

text \<open>A stopped thread of the snapshot disk hands on what is left in its queue.\<close>

definition drain_thread ::
  "sysenv \<Rightarrow> (snap_device \<Rightarrow> addr list) \<Rightarrow> (snap_device \<Rightarrow> bheap \<Rightarrow> snap_device \<times> bheap) \<Rightarrow> addr \<Rightarrow> drv \<Rightarrow> drv option" where
  "drain_thread E q f a s = do {
     dev \<leftarrow> d_devs s a;
     let (dev, h) = (if e_ran E (now s) then ((\<lambda>(dev, h). f dev h) ^^ length (q dev)) (dev, d_bheap s) else (dev, d_bheap s));
     Some ((etick s)\<lparr>d_devs := (d_devs s)(a \<mapsto> dev), d_bheap := h\<rparr>)
   }"

definition tracer_wait_for_read_clones :: "snap_device \<Rightarrow> bool" where
  "tracer_wait_for_read_clones dev \<longleftrightarrow> sd_submitted_cnt dev = sd_received_cnt dev"

definition tracer_destroy_snap :: "sysenv \<Rightarrow> config \<Rightarrow> addr \<Rightarrow> drv \<Rightarrow> drv option" where
  "tracer_destroy_snap E C a s = do {
     dev \<leftarrow> d_devs s a;
     if USE_HOOK_TRACER C \<and> sd_read_thread dev \<and> \<not> tracer_wait_for_read_clones dev then None
     else do {
       s \<leftarrow> (if sd_mrf_thread dev then do {
               s \<leftarrow> drain_thread E sd_orig_bios snap_mrf_thread a s;
               upd_dev a (\<lambda>dev. dev\<lparr>sd_mrf_thread := False\<rparr>) s
             } else Some s);
       s \<leftarrow> (if USE_HOOK_TRACER C \<and> sd_read_thread dev then do {
               s \<leftarrow> drain_thread E sd_read_bios snap_read_thread a s;
               upd_dev a (\<lambda>dev. dev\<lparr>sd_read_thread := False\<rparr>) s
             } else Some s);
       s \<leftarrow> upd_dev a (\<lambda>dev. dev\<lparr>sd_gd := False, sd_queue := False\<rparr>) s;
       tracer_bioset_exit a s
     }
   }"

definition setup_snap_steps :: "sysenv \<Rightarrow> config \<Rightarrow> addr \<Rightarrow> drv \<Rightarrow> (int \<times> drv) option" where
  "setup_snap_steps E C a s = do {
     (ret, s) \<leftarrow> tracer_bioset_init E a s;
     if ret \<noteq> 0 then Some (ret, s)
     else do {
       let ok = e_alloc E (now s);
       s \<leftarrow> upd_dev a (\<lambda>dev. dev\<lparr>sd_gd := ok\<rparr>) (etick s);
       if \<not> ok then Some (- ENOMEM, s)
       else do {
         let ok = e_alloc E (now s);
         s \<leftarrow> upd_dev a (\<lambda>dev. dev\<lparr>sd_queue := ok\<rparr>) (etick s);
         if \<not> ok then Some (- ENOMEM, s)
         else do {
           s \<leftarrow> upd_dev a (\<lambda>dev. dev\<lparr>sd_submitted_cnt := 0, sd_received_cnt := 0\<rparr>) s;
           let err = e_kthread E (now s);
           s \<leftarrow> upd_dev a (\<lambda>dev. dev\<lparr>sd_mrf_thread := (err = 0)\<rparr>) (etick s);
           if err \<noteq> 0 then Some (err, s)
           else do {
             (err, s) \<leftarrow>
               (if USE_HOOK_TRACER C then do {
                  let err = e_kthread E (now s);
                  s \<leftarrow> upd_dev a (\<lambda>dev. dev\<lparr>sd_read_thread := (err = 0)\<rparr>) (etick s);
                  Some (err, s)
                } else Some (0, s));
             if err \<noteq> 0 then Some (err, s) else Some (e_add_disk E (now s), etick s)
           }
         }
       }
     }
   }"

definition tracer_setup_snap :: "sysenv \<Rightarrow> config \<Rightarrow> addr \<Rightarrow> nat \<Rightarrow> drv \<Rightarrow> (int \<times> drv) option" where
  "tracer_setup_snap E C a minor s = do {
     (ret, s) \<leftarrow> setup_snap_steps E C a s;
     if ret \<noteq> 0 then do { s \<leftarrow> tracer_destroy_snap E C a s; Some (ret, s) } else Some (0, s)
   }"

end
