(* ===== verification/Transitions.thy ===== *)
theory Transitions
  imports Tracer
begin

text \<open>
  Starting and stopping the tracing of a block device (\<^verbatim>\<open>src/src/tracer.c\<close>, with the map of
  \<^verbatim>\<open>src/src/callback_refs.c\<close> that remembers the function a disk had), and the compound operations: setup, destroy, and the transitions
  between the states of a tracer.
\<close>

subsection \<open>The function a disk had\<close>

definition mrf_get :: "sysenv \<Rightarrow> nat \<Rightarrow> mrf_fn option \<Rightarrow> drv \<Rightarrow> int \<times> drv" where
  "mrf_get E disk fn s =
     (case mrf_tracking_map s disk of
        None \<Rightarrow>
          if \<not> e_alloc E (now s) then (- ENOMEM, etick s)
          else (0, (etick s)\<lparr>mrf_tracking_map := (mrf_tracking_map s)(disk \<mapsto> (fn, 1))\<rparr>)
      | Some (orig, count) \<Rightarrow> (0, s\<lparr>mrf_tracking_map := (mrf_tracking_map s)(disk \<mapsto> (orig, count + 1))\<rparr>))"

definition mrf_put :: "nat \<Rightarrow> drv \<Rightarrow> mrf_fn option \<times> drv" where
  "mrf_put disk s =
     (case mrf_tracking_map s disk of
        None \<Rightarrow> (None, s)
      | Some (orig, count) \<Rightarrow>
          if count - 1 = 0 then (orig, s\<lparr>mrf_tracking_map := (mrf_tracking_map s)(disk := None)\<rparr>)
          else (disk_mrf s disk, s\<lparr>mrf_tracking_map := (mrf_tracking_map s)(disk \<mapsto> (orig, count - 1))\<rparr>))"

subsection \<open>Operation tables\<close>

definition tracing_ops_get :: "addr option \<Rightarrow> drv \<Rightarrow> drv option" where
  "tracing_ops_get t s =
     (case t of None \<Rightarrow> Some s
      | Some t \<Rightarrow> (case d_trops s t of None \<Rightarrow> None
          | Some to \<Rightarrow> Some (s\<lparr>d_trops := (d_trops s)(t \<mapsto> to\<lparr>to_refs := to_refs to + 1\<rparr>)\<rparr>)))"

definition tracing_ops_put :: "addr \<Rightarrow> drv \<Rightarrow> drv option" where
  "tracing_ops_put t s =
     (case d_trops s t of None \<Rightarrow> None
      | Some to \<Rightarrow> Some (s\<lparr>d_trops := (d_trops s)(t := (if to_refs to - 1 = 0 then None
          else Some (to\<lparr>to_refs := to_refs to - 1\<rparr>)))\<rparr>))"

definition moocbt_free_request_tracking_ptr :: "config \<Rightarrow> addr \<Rightarrow> drv \<Rightarrow> drv option" where
  "moocbt_free_request_tracking_ptr C a s =
     (if USE_BDOPS_SUBMIT_BIO C then do {
        dev \<leftarrow> d_devs s a;
        case sd_tracing_ops dev of
          None \<Rightarrow> Some s
        | Some t \<Rightarrow> do { s \<leftarrow> tracing_ops_put t s; upd_dev a (\<lambda>dev. dev\<lparr>sd_tracing_ops := None\<rparr>) s }
      } else upd_dev a (\<lambda>dev. dev\<lparr>sd_orig_request_fn := None\<rparr>) s)"

text \<open>A new table: the table of the disk with \<^verbatim>\<open>submit_bio\<close> replaced, unless the hook traces.\<close>

definition tracer_alloc_ops :: "sysenv \<Rightarrow> config \<Rightarrow> addr \<Rightarrow> drv \<Rightarrow> (int \<times> drv) option" where
  "tracer_alloc_ops E C a s =
     (if \<not> e_alloc E (now s) then Some (- ENOMEM, etick s)
      else let s = etick s in
        if \<not> e_alloc E (now s) then Some (- ENOMEM, etick s)
        else do {
          let s = etick s;
          dev \<leftarrow> d_devs s a;
          bdev \<leftarrow> sd_base_dev dev;
          let t = d_next s;
          let ops = Suc t;
          let fn = (if USE_HOOK_TRACER C then ops_fn s (moocbt_get_bd_ops E bdev s) else Some Tracing_Fn);
          s \<leftarrow> upd_dev a (\<lambda>dev. dev\<lparr>sd_tracing_ops := Some t\<rparr>) s;
          Some (0, s\<lparr>d_next := Suc ops, ops_fn := (ops_fn s)(ops := fn),
            d_trops := (d_trops s)(t \<mapsto> \<lparr>to_bd_ops = ops, to_refs = 1\<rparr>)\<rparr>)
        })"

definition moocbt_find_orig_mrf :: "sysenv \<Rightarrow> config \<Rightarrow> nat \<Rightarrow> drv \<Rightarrow> (int \<times> mrf_fn option) option" where
  "moocbt_find_orig_mrf E C bdev s =
     (let orig_mrf = moocbt_get_bd_mrf E C bdev s in
      if orig_mrf \<noteq> Some Tracing_Fn then Some (0, if orig_mrf = None then Some Null_Mrf else orig_mrf)
      else do {
        r \<leftarrow> find_dev (\<lambda>_ dev. \<not> test_bit UNVERIFIED (sd_state dev) \<and>
               map_option (bdev_get_queue E) (sd_base_dev dev) = Some (bdev_get_queue E bdev)) s (tracer_for_each s);
        case r of None \<Rightarrow> Some (- EFAULT, None)
        | Some b \<Rightarrow> do { dev \<leftarrow> d_devs s b; Some (0, sd_orig_request_fn dev) }
      })"

text \<open>Stores the table, the function and, when another tracer shares the table, its operations into device \<open>a\<close>.\<close>

definition find_orig_bdops :: "sysenv \<Rightarrow> config \<Rightarrow> addr \<Rightarrow> nat \<Rightarrow> drv \<Rightarrow> (int \<times> drv) option" where
  "find_orig_bdops E C a bdev s =
     (let orig_ops = moocbt_get_bd_ops E bdev s; orig_mrf = ops_fn s orig_ops in
      if orig_mrf \<noteq> Some Tracing_Fn then do {
        s \<leftarrow> upd_dev a (\<lambda>dev. dev\<lparr>sd_tracing_ops := None, bd_ops := Some orig_ops,
               sd_orig_request_fn := (if orig_mrf = None then Some Snap_Null_Mrf else orig_mrf)\<rparr>) s;
        Some (0, s)
      } else do {
        r \<leftarrow> find_dev (\<lambda>_ dev. \<not> test_bit UNVERIFIED (sd_state dev) \<and>
               map_option (\<lambda>b. moocbt_get_bd_ops E b s) (sd_base_dev dev) = Some orig_ops) s (tracer_for_each s);
        case r of
          None \<Rightarrow> do {
            s \<leftarrow> upd_dev a (\<lambda>dev. dev\<lparr>sd_tracing_ops := None, bd_ops := None, sd_orig_request_fn := None\<rparr>) s;
            Some (- EFAULT, s)
          }
        | Some b \<Rightarrow> do {
            other \<leftarrow> d_devs s b;
            s \<leftarrow> tracing_ops_get (sd_tracing_ops other) s;
            s \<leftarrow> upd_dev a (\<lambda>dev. dev\<lparr>sd_tracing_ops := sd_tracing_ops other, bd_ops := bd_ops other,
                   sd_orig_request_fn := sd_orig_request_fn other\<rparr>) s;
            Some (0, s)
          }
      })"

definition tracer_should_reset_mrf :: "sysenv \<Rightarrow> config \<Rightarrow> addr \<Rightarrow> drv \<Rightarrow> bool option" where
  "tracer_should_reset_mrf E C a s = do {
     dev \<leftarrow> d_devs s a;
     bdev \<leftarrow> sd_base_dev dev;
     if \<not> USE_BDOPS_SUBMIT_BIO C \<and> moocbt_get_bd_mrf E C bdev s \<noteq> Some Tracing_Fn then Some False
     else do {
       r \<leftarrow> find_dev (\<lambda>b cur. \<not> test_bit UNVERIFIED (sd_state cur) \<and> b \<noteq> a \<and>
              (if USE_BDOPS_SUBMIT_BIO C
               then map_option (\<lambda>b. moocbt_get_bd_ops E b s) (sd_base_dev cur) = Some (moocbt_get_bd_ops E bdev s)
               else map_option (bdev_get_queue E) (sd_base_dev cur) = Some (bdev_get_queue E bdev))) s (tracer_for_each s);
       Some (r = None)
     }
   }"

subsection \<open>Starting and stopping\<close>

definition try_freeze_bdev :: "sysenv \<Rightarrow> nat \<Rightarrow> drv \<Rightarrow> int \<times> drv" where
  "try_freeze_bdev E bdev s =
     (case moocbt_get_super E bdev s of
        None \<Rightarrow> (- ENOENT, s)
      | Some _ \<Rightarrow> (e_freeze E (now s) bdev, etick s))"

definition try_thaw_bdev :: "sysenv \<Rightarrow> nat \<Rightarrow> drv \<Rightarrow> int \<times> drv" where
  "try_thaw_bdev E bdev s = (e_thaw E (now s) bdev, etick s)"

text \<open>What a disk is given: a request function, or an operation table.\<close>

datatype tracking = Tracking_Fn mrf_fn | Tracking_Ops nat

definition install_tracking :: "sysenv \<Rightarrow> nat \<Rightarrow> tracking option \<Rightarrow> drv \<Rightarrow> drv" where
  "install_tracking E bdev p s =
     (case p of None \<Rightarrow> s
      | Some (Tracking_Fn fn) \<Rightarrow> s\<lparr>disk_mrf := (disk_mrf s)(bdev_get_queue E bdev := Some fn)\<rparr>
      | Some (Tracking_Ops ops) \<Rightarrow> s\<lparr>disk_fops := (disk_fops s)(bdev_get_queue E bdev := ops)\<rparr>)"

definition set_slot :: "nat \<Rightarrow> addr option \<Rightarrow> drv \<Rightarrow> drv" where
  "set_slot i v s = s\<lparr>snap_devices := (snap_devices s)[i := v]\<rparr>"

definition start_tracing :: "sysenv \<Rightarrow> config \<Rightarrow> addr \<Rightarrow> nat \<Rightarrow> tracking option \<Rightarrow> nat \<Rightarrow> drv \<Rightarrow> drv option" where
  "start_tracing E C a bdev p minor s =
     (let s = set_slot minor (Some a) s;
          s = (if USE_HOOK_TRACER C then s else install_tracking E bdev p s)
      in upd_dev a (\<lambda>dev. dev\<lparr>sd_active := sd_active dev + 1\<rparr>) s)"

definition stop_tracing :: "sysenv \<Rightarrow> config \<Rightarrow> nat \<Rightarrow> tracking option \<Rightarrow> nat \<Rightarrow> drv \<Rightarrow> drv option" where
  "stop_tracing E C bdev p minor s = do {
     b \<leftarrow> slot s minor;
     s \<leftarrow> upd_dev b (\<lambda>dev. dev\<lparr>sd_active := sd_active dev - 1\<rparr>) s;
     let s =
       (if USE_HOOK_TRACER C then s
        else if USE_BDOPS_SUBMIT_BIO C then install_tracking E bdev p s
        else let (fn, s) = mrf_put (bdev_get_queue E bdev) s in install_tracking E bdev (map_option Tracking_Fn fn) s);
     Some (set_slot minor None s)
   }"

definition tracer_transition_tracing ::
  "sysenv \<Rightarrow> config \<Rightarrow> addr \<Rightarrow> nat \<Rightarrow> tracking option \<Rightarrow> nat \<Rightarrow> bool \<Rightarrow> drv \<Rightarrow> (int \<times> drv) option" where
  "tracer_transition_tracing E C a bdev p minor starting s = do {
     let (ret, s) = try_freeze_bdev E bdev s;
     dev \<leftarrow> d_devs s a;
     if ret \<noteq> 0 \<and> (starting \<or> ret \<noteq> - ENOENT \<and> tracer_read_fail_state dev = 0) then Some (ret, s)
     else do {
       s \<leftarrow> (if starting then start_tracing E C a bdev p minor s else stop_tracing E C bdev p minor s);
       Some (0, if ret = 0 then snd (try_thaw_bdev E bdev s) else s)
     }
   }"

text \<open>The requests still queued in a tracer that is not active are flushed by a thread started for that.\<close>

definition flush_requests :: "sysenv \<Rightarrow> kernel \<Rightarrow> addr \<Rightarrow> drv \<Rightarrow> drv option" where
  "flush_requests E K a s = do {
     dev \<leftarrow> d_devs s a;
     if test_bit ACTIVE (sd_state dev) then Some s
     else do {
       (_, s) \<leftarrow> tracer_setup_cow_thread E K a (sd_minor dev) (test_bit SNAPSHOT (sd_state dev)) s;
       s \<leftarrow> wake_up_process a s;
       tracer_destroy_cow_thread E K a s
     }
   }"

definition tracer_destroy_tracing :: "sysenv \<Rightarrow> kernel \<Rightarrow> config \<Rightarrow> addr \<Rightarrow> drv \<Rightarrow> drv option" where
  "tracer_destroy_tracing E K C a s = do {
     dev \<leftarrow> d_devs s a;
     s \<leftarrow> (case sd_orig_request_fn dev of
        Some fn \<Rightarrow> do {
          reset \<leftarrow> tracer_should_reset_mrf E C a s;
          bdev \<leftarrow> sd_base_dev dev;
          s \<leftarrow> (if reset then flush_requests E K a s else Some s);
          let p = (if \<not> reset then None
                   else if USE_BDOPS_SUBMIT_BIO C then map_option Tracking_Ops (bd_ops dev) else Some (Tracking_Fn fn));
          (_, s) \<leftarrow> tracer_transition_tracing E C a bdev p (sd_minor dev) False s;
          moocbt_free_request_tracking_ptr C a s
        }
      | None \<Rightarrow> Some (if slot s (sd_minor dev) = Some a then set_slot (sd_minor dev) None s else s));
     s \<leftarrow> upd_dev a (\<lambda>dev. dev\<lparr>sd_minor := 0\<rparr>) s;
     Some (minor_range_recalculate E s)
   }"

definition tracer_setup_tracing_unverified :: "addr \<Rightarrow> nat \<Rightarrow> drv \<Rightarrow> drv option" where
  "tracer_setup_tracing_unverified a minor s = do {
     s \<leftarrow> upd_dev a (\<lambda>dev. dev\<lparr>sd_minor := minor\<rparr>) (minor_range_include minor s);
     Some (set_slot minor (Some a) s)
   }"

definition setup_tracing_steps :: "sysenv \<Rightarrow> config \<Rightarrow> addr \<Rightarrow> nat \<Rightarrow> drv \<Rightarrow> (int \<times> drv) option" where
  "setup_tracing_steps E C a minor s = do {
     dev \<leftarrow> d_devs s a;
     bdev \<leftarrow> sd_base_dev dev;
     if \<not> USE_BDOPS_SUBMIT_BIO C then do {
       (ret, fn) \<leftarrow> moocbt_find_orig_mrf E C bdev s;
       s \<leftarrow> upd_dev a (\<lambda>dev. dev\<lparr>sd_orig_request_fn := fn\<rparr>) s;
       if ret \<noteq> 0 then Some (ret, s)
       else tracer_transition_tracing E C a bdev (if USE_HOOK_TRACER C then None else Some (Tracking_Fn Tracing_Fn)) minor True s
     } else if sd_tracing_ops dev \<noteq> None then Some (0, s)
     else do {
       (ret, s) \<leftarrow> find_orig_bdops E C a bdev s;
       if ret \<noteq> 0 then Some (ret, s)
       else do {
         dev \<leftarrow> d_devs s a;
         (ret, s) \<leftarrow> (if sd_tracing_ops dev = None then tracer_alloc_ops E C a s else Some (0, s));
         if ret \<noteq> 0 then Some (ret, s)
         else do {
           dev \<leftarrow> d_devs s a;
           t \<leftarrow> sd_tracing_ops dev;
           to \<leftarrow> d_trops s t;
           tracer_transition_tracing E C a bdev (if USE_HOOK_TRACER C then None else Some (Tracking_Ops (to_bd_ops to))) minor True s
         }
       }
     }
   }"

definition tracer_setup_tracing :: "sysenv \<Rightarrow> config \<Rightarrow> addr \<Rightarrow> nat \<Rightarrow> drv \<Rightarrow> (int \<times> drv) option" where
  "tracer_setup_tracing E C a minor s = do {
     s \<leftarrow> upd_dev a (\<lambda>dev. dev\<lparr>sd_minor := minor\<rparr>) s;
     let s = minor_range_include minor s;
     (ret, s) \<leftarrow> setup_tracing_steps E C a minor s;
     if ret \<noteq> 0 then do {
       s \<leftarrow> upd_dev a (\<lambda>dev. dev\<lparr>sd_minor := 0, sd_orig_request_fn := None\<rparr>) s;
       Some (ret, minor_range_recalculate E s)
     } else Some (0, s)
   }"

subsection \<open>Setup and destroy\<close>

definition tracer_destroy :: "sysenv \<Rightarrow> kernel \<Rightarrow> config \<Rightarrow> addr \<Rightarrow> drv \<Rightarrow> drv option" where
  "tracer_destroy E K C a s = do {
     s \<leftarrow> tracer_destroy_tracing E K C a s;
     s \<leftarrow> tracer_destroy_cow_thread E K a s;
     s \<leftarrow> tracer_destroy_snap E C a s;
     s \<leftarrow> tracer_destroy_cow_path a s;
     (_, s) \<leftarrow> tracer_destroy_cow K a 0 s;
     tracer_destroy_base_dev a s
   }"

definition state_bits :: "bool \<Rightarrow> bool \<Rightarrow> bool \<Rightarrow> u64 \<Rightarrow> u64" where
  "state_bits snap active unverified x =
     (let b = (\<lambda>n v x. if v then set_state_bit n x else clear_state_bit n x)
      in b UNVERIFIED unverified (b ACTIVE active (b SNAPSHOT snap x)))"

definition tracer_setup_unverified ::
  "sysenv \<Rightarrow> kernel \<Rightarrow> config \<Rightarrow> addr \<Rightarrow> nat \<Rightarrow> string \<Rightarrow> string \<Rightarrow> u64 \<Rightarrow> bool \<Rightarrow> drv \<Rightarrow> (int \<times> drv) option" where
  "tracer_setup_unverified E K C a minor bdev_path cow_path cache_size is_snap s = do {
     s \<leftarrow> upd_dev a (\<lambda>dev. dev\<lparr>sd_state := state_bits is_snap False True (sd_state dev), sd_cache_size := cache_size\<rparr>) s;
     let ok1 = e_alloc E (now s);
     s \<leftarrow> upd_dev a (\<lambda>dev. dev\<lparr>sd_bdev_path := (if ok1 then Some bdev_path else None)\<rparr>) (etick s);
     let ok2 = ok1 \<and> e_alloc E (now s);
     s \<leftarrow> (if ok1 then upd_dev a (\<lambda>dev. dev\<lparr>sd_cow_path := (if ok2 then Some cow_path else None)\<rparr>) (etick s) else Some s);
     if ok2 then do { s \<leftarrow> tracer_setup_tracing_unverified a minor s; Some (0, s) }
     else do { s \<leftarrow> tracer_destroy E K C a s; Some (- ENOMEM, s) }
   }"

text \<open>The steps of a setup, each run when the ones before returned zero.\<close>

definition and_then :: "(int \<times> drv) option \<Rightarrow> (drv \<Rightarrow> (int \<times> drv) option) \<Rightarrow> (int \<times> drv) option" where
  "and_then r f = do { (ret, s) \<leftarrow> r; if ret \<noteq> 0 then Some (ret, s) else f s }"

definition base_of :: "addr \<Rightarrow> drv \<Rightarrow> (nat \<times> u64) option" where
  "base_of a s = do { dev \<leftarrow> d_devs s a; bdev \<leftarrow> sd_base_dev dev; Some (bdev, of_nat (sd_size dev)) }"

definition retain_mrf :: "sysenv \<Rightarrow> config \<Rightarrow> addr \<Rightarrow> drv \<Rightarrow> (int \<times> drv) option" where
  "retain_mrf E C a s =
     (if USE_BDOPS_SUBMIT_BIO C then Some (0, s)
      else do {
        (bdev, sz) \<leftarrow> base_of a s;
        Some (mrf_get E (bdev_get_queue E bdev) (moocbt_get_bd_mrf E C bdev s) s)
      })"

definition start_cow_thread :: "sysenv \<Rightarrow> kernel \<Rightarrow> addr \<Rightarrow> nat \<Rightarrow> bool \<Rightarrow> drv \<Rightarrow> (int \<times> drv) option" where
  "start_cow_thread E K a minor is_snap s =
     and_then (tracer_setup_cow_thread E K a minor is_snap s) (\<lambda>s. do { s \<leftarrow> wake_up_process a s; Some (0, s) })"

definition tracer_setup_active_snap ::
  "sysenv \<Rightarrow> kernel \<Rightarrow> config \<Rightarrow> addr \<Rightarrow> nat \<Rightarrow> string \<Rightarrow> string \<Rightarrow> u64 \<Rightarrow> u64 \<Rightarrow> drv \<Rightarrow> (int \<times> drv) option" where
  "tracer_setup_active_snap E K C a minor bdev_path cow_path fallocated_space cache_size s = do {
     s \<leftarrow> upd_dev a (\<lambda>dev. dev\<lparr>sd_state := state_bits True True False (sd_state dev)\<rparr>) s;
     (ret, s) \<leftarrow>
       and_then (and_then (and_then (and_then (and_then (and_then
         (tracer_setup_base_dev E a bdev_path s)
         (\<lambda>s. do { (bdev, sz) \<leftarrow> base_of a s;
                   tracer_setup_cow E K a bdev cow_path sz fallocated_space cache_size None 1 0 s }))
         (tracer_setup_cow_path E a))
         (retain_mrf E C a))
         (tracer_setup_snap E C a minor))
         (start_cow_thread E K a minor True))
         (tracer_setup_tracing E C a minor);
     if ret \<noteq> 0 then do { s \<leftarrow> tracer_destroy E K C a s; Some (ret, s) } else Some (0, s)
   }"

subsection \<open>From snapshot to incremental and back\<close>

definition with_dev :: "addr \<Rightarrow> (snap_device \<Rightarrow> snap_device \<Rightarrow> snap_device) \<Rightarrow> addr \<Rightarrow> drv \<Rightarrow> drv option" where
  "with_dev src f dest s = do { old \<leftarrow> d_devs s src; upd_dev dest (f old) s }"

text \<open>
  The new device takes over base device, path and manager; from the moment its tracing is in place the
  transition is committed. The old COW thread is stopped before the new one is woken up.
\<close>

definition snap_to_inc_commit :: "sysenv \<Rightarrow> kernel \<Rightarrow> config \<Rightarrow> addr \<Rightarrow> addr \<Rightarrow> drv \<Rightarrow> (int \<times> drv) option" where
  "snap_to_inc_commit E K C old a s = do {
     s \<leftarrow> tracer_destroy_cow_thread E K old s;
     od \<leftarrow> d_devs s old;
     let ret = tracer_read_fail_state od;
     if ret \<noteq> 0 then do {
       s \<leftarrow> upd_dev a (tracer_set_fail_state ret) s;
       s \<leftarrow> wake_up_process a s;
       s \<leftarrow> tracer_destroy_snap E C old s;
       s \<leftarrow> kfree_dev old s;
       Some (ret, s)
     } else do {
       s \<leftarrow> wake_up_process a s;
       dev \<leftarrow> d_devs s a;
       c \<leftarrow> sd_cow dev;
       cm \<leftarrow> d_cows s c;
       (_, w, cm) \<leftarrow> cow_truncate_to_index K (d_world s) cm;
       let s = s\<lparr>d_world := w, d_cows := (d_cows s)(c \<mapsto> cm)\<rparr>;
       s \<leftarrow> tracer_destroy_snap E C old s;
       s \<leftarrow> kfree_dev old s;
       Some (0, s)
     }
   }"

definition tracer_active_snap_to_inc :: "sysenv \<Rightarrow> kernel \<Rightarrow> config \<Rightarrow> addr \<Rightarrow> drv \<Rightarrow> (int \<times> drv) option" where
  "tracer_active_snap_to_inc E K C old s =
     (case tracer_alloc E s of
        (ret, None, s) \<Rightarrow> Some (ret, s)
      | (_, Some a, s) \<Rightarrow> do {
          od \<leftarrow> d_devs s old;
          s \<leftarrow> upd_dev a (\<lambda>dev. dev\<lparr>sd_state := state_bits False True False (sd_state dev)\<rparr>) s;
          s \<leftarrow> with_dev old tracer_copy_base_dev a s;
          s \<leftarrow> with_dev old tracer_copy_cow_path a s;
          s \<leftarrow> tracer_copy_cow old a s;
          (ret, s) \<leftarrow>
            and_then (tracer_setup_cow_thread E K a (sd_minor od) False s)
              (\<lambda>s. do {
                 s \<leftarrow> upd_dev a (\<lambda>dev. dev\<lparr>sd_orig_request_fn := sd_orig_request_fn od\<rparr>) s;
                 tracer_setup_tracing E C a (sd_minor od) s
               });
          if ret \<noteq> 0 then do {
            s \<leftarrow> tracer_destroy_cow_thread E K a s;
            s \<leftarrow> kfree_dev a s;
            Some (ret, s)
          } else snap_to_inc_commit E K C old a s
        })"

text \<open>
  The new snapshot gets a manager of its own, with the identity of the old one and the next sequence number; the
  cache size passed on is that of the new device, which is still zero.
\<close>

definition inc_to_snap_commit :: "sysenv \<Rightarrow> kernel \<Rightarrow> addr \<Rightarrow> addr \<Rightarrow> drv \<Rightarrow> (int \<times> drv) option" where
  "inc_to_snap_commit E K old a s = do {
     s \<leftarrow> tracer_destroy_cow_thread E K old s;
     s \<leftarrow> wake_up_process a s;
     s \<leftarrow> tracer_destroy_cow_path old s;
     (_, s) \<leftarrow> tracer_destroy_cow K old 1 s;
     s \<leftarrow> kfree_dev old s;
     Some (0, s)
   }"

definition tracer_active_inc_to_snap ::
  "sysenv \<Rightarrow> kernel \<Rightarrow> config \<Rightarrow> addr \<Rightarrow> string \<Rightarrow> u64 \<Rightarrow> drv \<Rightarrow> (int \<times> drv) option" where
  "tracer_active_inc_to_snap E K C old cow_path fallocated_space s =
     (case tracer_alloc E s of
        (ret, None, s) \<Rightarrow> Some (ret, s)
      | (_, Some a, s) \<Rightarrow> do {
          od \<leftarrow> d_devs s old;
          s \<leftarrow> upd_dev a (\<lambda>dev. dev\<lparr>sd_state := state_bits True True False (sd_state dev)\<rparr>) s;
          let fallocated_space = (if fallocated_space \<noteq> 0 then fallocated_space else sd_falloc_size od);
          s \<leftarrow> with_dev old tracer_copy_base_dev a s;
          (bdev, sz) \<leftarrow> base_of a s;
          oc \<leftarrow> sd_cow od;
          ocm \<leftarrow> d_cows s oc;
          dev \<leftarrow> d_devs s a;
          (ret, s) \<leftarrow>
            and_then (and_then (and_then (and_then
              (tracer_setup_cow E K a bdev cow_path sz fallocated_space (sd_cache_size dev) (Some (uuid ocm)) (seqid ocm + 1) 0 s)
              (tracer_setup_cow_path E a))
              (tracer_setup_snap E C a (sd_minor od)))
              (tracer_setup_cow_thread E K a (sd_minor od) True))
              (\<lambda>s. do {
                 s \<leftarrow> upd_dev a (\<lambda>dev. dev\<lparr>sd_orig_request_fn := sd_orig_request_fn od\<rparr>) s;
                 tracer_setup_tracing E C a (sd_minor od) s
               });
          if ret \<noteq> 0 then do {
            s \<leftarrow> tracer_destroy_cow_thread E K a s;
            s \<leftarrow> tracer_destroy_snap E C a s;
            s \<leftarrow> tracer_destroy_cow_path a s;
            (_, s) \<leftarrow> tracer_destroy_cow K a 0 s;
            s \<leftarrow> kfree_dev a s;
            Some (ret, s)
          } else inc_to_snap_commit E K old a s
        })"

subsection \<open>Reconfiguration and information\<close>

definition tracer_reconfigure :: "sysenv \<Rightarrow> addr \<Rightarrow> u64 \<Rightarrow> drv \<Rightarrow> drv option" where
  "tracer_reconfigure E a cache_size s = do {
     s \<leftarrow> upd_dev a (\<lambda>dev. dev\<lparr>sd_cache_size := cache_size\<rparr>) s;
     dev \<leftarrow> d_devs s a;
     let cache = (if cache_size = 0 then cow_max_memory_default E else cache_size);
     if test_bit ACTIVE (sd_state dev) then do {
       c \<leftarrow> sd_cow dev;
       cm \<leftarrow> d_cows s c;
       Some (s\<lparr>d_cows := (d_cows s)(c \<mapsto> cow_modify_cache_size (unat cache) cm)\<rparr>)
     } else Some s
   }"

record moocbt_info =
  i_minor :: nat
  i_state :: u64
  i_error :: int
  i_cache_size :: u64
  i_cow :: string
  i_bdev :: string
  i_uuid :: "byte list"
  i_falloc_size :: u64
  i_seqid :: u64
  i_version :: u64
  i_nr_changed_blocks :: u64

abbreviation (input) PATH_MAX :: nat where "PATH_MAX \<equiv> 4096"

definition strscpy :: "string \<Rightarrow> string" where
  "strscpy p = take (PATH_MAX - 1) p"

definition tracer_moocbt_info :: "sysenv \<Rightarrow> snap_device \<Rightarrow> moocbt_info \<Rightarrow> drv \<Rightarrow> moocbt_info option" where
  "tracer_moocbt_info E dev info s = do {
     cow \<leftarrow> sd_cow_path dev;
     bdev \<leftarrow> sd_bdev_path dev;
     let info = info\<lparr>i_minor := sd_minor dev, i_state := sd_state dev, i_error := tracer_read_fail_state dev,
       i_cache_size := (if sd_cache_size dev \<noteq> 0 then sd_cache_size dev else cow_max_memory_default E),
       i_cow := strscpy cow, i_bdev := strscpy bdev\<rparr>;
     if \<not> test_bit UNVERIFIED (sd_state dev) then do {
       c \<leftarrow> sd_cow dev;
       cm \<leftarrow> d_cows s c;
       Some (info\<lparr>i_falloc_size := file_size cm, i_seqid := seqid cm, i_uuid := uuid cm, i_version := version cm,
         i_nr_changed_blocks := nr_changed_blocks cm\<rparr>)
     } else Some (info\<lparr>i_falloc_size := 0, i_seqid := 0, i_uuid := replicate COW_UUID_SIZE 0\<rparr>)
   }"

subsection \<open>Automatic transitions\<close>

definition tracer_active_to_dormant :: "sysenv \<Rightarrow> kernel \<Rightarrow> addr \<Rightarrow> drv \<Rightarrow> drv option" where
  "tracer_active_to_dormant E K a s = do {
     s \<leftarrow> tracer_destroy_cow_thread E K a s;
     (ret, s) \<leftarrow> tracer_destroy_cow K a 2 s;
     if ret \<noteq> 0 then upd_dev a (tracer_set_fail_state ret) s
     else upd_dev a (\<lambda>dev. dev\<lparr>sd_state := clear_state_bit ACTIVE (sd_state dev)\<rparr>) s
   }"

text \<open>The full path of the COW file; the result of the call is stored through \<^verbatim>\<open>cow_path\<close>.\<close>

definition full_cow_path :: "kernel \<Rightarrow> string \<Rightarrow> string \<Rightarrow> drv \<Rightarrow> ((int + string) \<times> drv) option" where
  "full_cow_path K mount rel s = do {
     (r, w) \<leftarrow> pathname_concat K mount rel (d_world s);
     Some (r, s\<lparr>d_world := w\<rparr>)
   }"

text \<open>
  An unverified tracer whose device appears is set up again on its own structure; on an error it becomes
  unverified again, in the failure state. When the base device cannot be set up the error path frees the
  path buffer before it was assigned: \<open>None\<close>. The snapshot and the incremental differ in the manager and in
  the snapshot disk.
\<close>

definition activate_steps ::
  "sysenv \<Rightarrow> kernel \<Rightarrow> config \<Rightarrow> bool \<Rightarrow> addr \<Rightarrow> nat \<Rightarrow> string \<Rightarrow> drv \<Rightarrow> (int \<times> drv) option" where
  "activate_steps E K C is_snap a minor cow_path s =
     and_then (and_then (and_then (and_then (and_then
       (do { (bdev, sz) \<leftarrow> base_of a s;
             dev \<leftarrow> d_devs s a;
             tracer_setup_cow E K a bdev cow_path sz 0 (sd_cache_size dev) None 0 (if is_snap then 1 else 2) s })
       (tracer_setup_cow_path E a))
       (retain_mrf E C a))
       (if is_snap then tracer_setup_snap E C a minor else (\<lambda>s. Some (0, s))))
       (start_cow_thread E K a minor is_snap))
       (tracer_setup_tracing E C a minor)"

definition tracer_unverified_to_active ::
  "sysenv \<Rightarrow> kernel \<Rightarrow> config \<Rightarrow> bool \<Rightarrow> addr \<Rightarrow> string \<Rightarrow> drv \<Rightarrow> drv option" where
  "tracer_unverified_to_active E K C is_snap a user_mount_path s = do {
     dev0 \<leftarrow> d_devs s a;
     bdev_path \<leftarrow> sd_bdev_path dev0;
     rel_path \<leftarrow> sd_cow_path dev0;
     let minor = sd_minor dev0;
     s \<leftarrow> tracer_destroy_tracing E K C a s;
     s \<leftarrow> upd_dev a (\<lambda>dev. dev\<lparr>sd_state := clear_state_bit UNVERIFIED (set_state_bit ACTIVE (sd_state dev)),
            sd_bdev_path := None, sd_cow_path := None\<rparr>) s;
     (ret, s) \<leftarrow> tracer_setup_base_dev E a bdev_path s;
     if ret \<noteq> 0 then None
     else do {
       (r, s) \<leftarrow> full_cow_path K user_mount_path rel_path s;
       (ret, s) \<leftarrow> (case r of Inl err \<Rightarrow> Some (err, s) | Inr p \<Rightarrow> activate_steps E K C is_snap a minor p s);
       if ret = 0 then Some s
       else do {
         s \<leftarrow> tracer_destroy E K C a s;
         (_, s) \<leftarrow> tracer_setup_unverified E K C a minor bdev_path rel_path (sd_cache_size dev0) is_snap s;
         upd_dev a (tracer_set_fail_state ret) s
       }
     }
   }"

definition tracer_unverified_snap_to_active :: "sysenv \<Rightarrow> kernel \<Rightarrow> config \<Rightarrow> addr \<Rightarrow> string \<Rightarrow> drv \<Rightarrow> drv option" where
  "tracer_unverified_snap_to_active E K C a mount_path s = tracer_unverified_to_active E K C True a mount_path s"

definition tracer_unverified_inc_to_active :: "sysenv \<Rightarrow> kernel \<Rightarrow> config \<Rightarrow> addr \<Rightarrow> string \<Rightarrow> drv \<Rightarrow> drv option" where
  "tracer_unverified_inc_to_active E K C a mount_path s = tracer_unverified_to_active E K C False a mount_path s"

definition tracer_dormant_to_active :: "sysenv \<Rightarrow> kernel \<Rightarrow> addr \<Rightarrow> string \<Rightarrow> drv \<Rightarrow> drv option" where
  "tracer_dormant_to_active E K a user_mount_path s = do {
     dev \<leftarrow> d_devs s a;
     rel_path \<leftarrow> sd_cow_path dev;
     (r, s) \<leftarrow> full_cow_path K user_mount_path rel_path s;
     (ret, s) \<leftarrow>
       (case r of Inl err \<Rightarrow> Some (err, s)
        | Inr p \<Rightarrow> and_then
            (do { (bdev, sz) \<leftarrow> base_of a s; tracer_setup_cow E K a bdev p 0 0 0 None 0 3 s })
            (\<lambda>s. do { dev \<leftarrow> d_devs s a; start_cow_thread E K a (sd_minor dev) (test_bit SNAPSHOT (sd_state dev)) s }));
     if ret \<noteq> 0 then upd_dev a (tracer_set_fail_state ret) s
     else upd_dev a (\<lambda>dev. dev\<lparr>sd_state := clear_state_bit UNVERIFIED (set_state_bit ACTIVE (sd_state dev))\<rparr>) s
   }"

end
