(* ===== verification/Tracer_Lemmas.thy ===== *)
theory Tracer_Lemmas
  imports Transitions
begin

text \<open>
  What the setup and destroy functions keep: a device is only changed by its own operations, the slots of the array only
  by starting and stopping its tracing, the minor range always covers the slots in use, and every
  reference to a block device is owned by the device that opened it.
\<close>

subsection \<open>The minor range\<close>

definition ranged :: "sysenv \<Rightarrow> drv \<Rightarrow> bool" where
  "ranged E s \<longleftrightarrow> length (snap_devices s) = max_snap_devices E \<and> 0 < max_snap_devices E \<and>
     lowest_minor s < max_snap_devices E \<and> highest_minor s < max_snap_devices E \<and>
     (\<forall>i. slot s i \<noteq> None \<longrightarrow> lowest_minor s \<le> i \<and> i \<le> highest_minor s)"

lemma Min_Max_insert_twice:
  fixes S :: "nat set"
  assumes "finite S"
  shows "Min (insert x (insert y S)) = Min (insert (min y x) S)" "Max (insert x (insert y S)) = Max (insert (max y x) S)"
  using assms by (cases "S = {}"; simp add: ac_simps)+

lemma recalculate_ok:
  "recalculate f is (lo, hi) = (lo', hi') \<Longrightarrow>
   lo' = Min (insert lo {i \<in> set is. f i \<noteq> None}) \<and> hi' = Max (insert hi {i \<in> set is. f i \<noteq> None})"
proof (induction "is" arbitrary: lo hi)
  case (Cons i "is")
  show ?case
  proof (cases "f i = None")
    case True
    then have "{j \<in> set (i # is). f j \<noteq> None} = {j \<in> set is. f j \<noteq> None}" by auto
    then show ?thesis using Cons True by simp
  next
    case False
    let ?S = "{j \<in> set is. f j \<noteq> None}"
    have e: "{j \<in> set (i # is). f j \<noteq> None} = insert i ?S" using False by auto
    have mm: "(if i < lo then i else lo) = min i lo" "(if hi < i then i else hi) = max i hi" by auto
    have "lo' = Min (insert (min i lo) ?S)" "hi' = Max (insert (max i hi) ?S)"
      using Cons.IH[of "min i lo" "max i hi"] Cons.prems False by (simp_all add: mm)
    moreover have "Min (insert lo (insert i ?S)) = Min (insert (min i lo) ?S)"
      "Max (insert hi (insert i ?S)) = Max (insert (max i hi) ?S)"
      by (rule Min_Max_insert_twice, simp)+
    ultimately show ?thesis using e by simp
  qed
qed simp

lemma slot_lt: "slot s i = Some a \<Longrightarrow> i < length (snap_devices s)"
  by (auto simp: slot_def split: if_splits)

lemma minor_range_recalculate_simps [simp]:
  "snap_devices (minor_range_recalculate E s) = snap_devices s" "d_devs (minor_range_recalculate E s) = d_devs s"
  "d_cows (minor_range_recalculate E s) = d_cows s" "bdev_refs (minor_range_recalculate E s) = bdev_refs s"
  "d_next (minor_range_recalculate E s) = d_next s" "slot (minor_range_recalculate E s) i = slot s i"
  "d_world (minor_range_recalculate E s) = d_world s"
  by (simp_all add: minor_range_recalculate_def slot_def split: prod.splits)

lemma recalculate_range:
  assumes "length (snap_devices s) = max_snap_devices E" "0 < max_snap_devices E"
  shows "ranged E (minor_range_recalculate E s)"
    and "lowest_minor (minor_range_recalculate E s) = Min (insert (max_snap_devices E - 1) {i. slot s i \<noteq> None})"
    and "highest_minor (minor_range_recalculate E s) = Max (insert 0 {i. slot s i \<noteq> None})"
proof -
  let ?m = "max_snap_devices E" and ?U = "{i. slot s i \<noteq> None}"
  have U: "{i \<in> set (tracer_for_each_full E). slot s i \<noteq> None} = ?U"
    using assms slot_lt by (fastforce simp: tracer_for_each_full_def)
  have sub: "?U \<subseteq> {..<?m}" using slot_lt[of s] assms(1) by auto
  then have fin: "finite ?U" "?U \<subseteq> {..<?m}" by (auto intro: finite_subset[of _ "{..<?m}"])
  obtain lo hi where r: "recalculate (slot s) (tracer_for_each_full E) (?m - 1, 0) = (lo, hi)" by fastforce
  note m = recalculate_ok[OF r, unfolded U]
  show lo: "lowest_minor (minor_range_recalculate E s) = Min (insert (?m - 1) ?U)"
    and hi: "highest_minor (minor_range_recalculate E s) = Max (insert 0 ?U)"
    using r m by (simp_all add: minor_range_recalculate_def)
  have "Max (insert 0 ?U) \<in> insert 0 ?U" by (rule Max_in) (use fin in simp_all)
  moreover have "Min (insert (?m - 1) ?U) \<le> ?m - 1" by (rule Min_le) (use fin in simp_all)
  ultimately have "Max (insert 0 ?U) < ?m" "Min (insert (?m - 1) ?U) < ?m" using fin(2) assms(2) by (auto simp del: Max_insert Min_insert)
  then show "ranged E (minor_range_recalculate E s)"
    using assms fin by (auto simp: ranged_def lo hi simp del: Max_insert Min_insert intro: Min_le Max_ge)
qed

lemma ranged_include: "ranged E s \<Longrightarrow> minor < max_snap_devices E \<Longrightarrow> ranged E (minor_range_include minor s)"
  by (auto simp: ranged_def minor_range_include_def slot_def split: if_splits)

subsection \<open>What an operation on one device keeps\<close>

definition held :: "snap_device \<Rightarrow> nat \<Rightarrow> int" where
  "held dev x = (if sd_base_dev dev = Some x then 1 else 0)"

definition core :: "snap_device \<Rightarrow> nat \<times> u64 \<times> mrf_fn option \<times> int \<times> addr option \<times> int" where
  "core dev = (sd_minor dev, sd_state dev, sd_orig_request_fn dev, sd_active dev, sd_tracing_ops dev, sd_refs dev)"

text \<open>
  What an operation on device \<open>a\<close> may change: the device, references it owns, its own manager and new managers; and
  with \<open>keeps\<close>, nothing of the fields that place the device in the array.
\<close>

definition owns :: "sysenv \<Rightarrow> addr \<Rightarrow> drv \<Rightarrow> drv \<Rightarrow> bool" where
  "owns E a s s' \<longleftrightarrow> snap_devices s' = snap_devices s \<and> (ranged E s \<longrightarrow> ranged E s') \<and>
     d_next s \<le> d_next s' \<and> (\<forall>b. b \<noteq> a \<longrightarrow> d_devs s' b = d_devs s b) \<and>
     (\<exists>dev dev'. d_devs s a = Some dev \<and> d_devs s' a = Some dev' \<and>
        (\<forall>x. bdev_refs s' x - held dev' x = bdev_refs s x - held dev x) \<and>
        (\<forall>c < d_next s. sd_cow dev \<noteq> Some c \<longrightarrow> d_cows s' c = d_cows s c) \<and>
        (sd_cow dev' = None \<or> sd_cow dev' = sd_cow dev \<or> (\<exists>c. d_next s \<le> c \<and> c < d_next s' \<and> sd_cow dev' = Some c)))"

definition keeps :: "sysenv \<Rightarrow> addr \<Rightarrow> drv \<Rightarrow> drv \<Rightarrow> bool" where
  "keeps E a s s' \<longleftrightarrow> owns E a s s' \<and> map_option core (d_devs s' a) = map_option core (d_devs s a)"

lemma keeps_refl: "d_devs s a = Some dev \<Longrightarrow> keeps E a s s"
  by (auto simp: keeps_def owns_def)

lemma owns_trans [trans]:
  assumes 1: "owns E a s s1" and 2: "owns E a s1 s2"
  shows "owns E a s s2"
proof -
  obtain dev dev1 where d: "d_devs s a = Some dev" "d_devs s1 a = Some dev1"
    "\<forall>x. bdev_refs s1 x - held dev1 x = bdev_refs s x - held dev x"
    "\<forall>c < d_next s. sd_cow dev \<noteq> Some c \<longrightarrow> d_cows s1 c = d_cows s c"
    "sd_cow dev1 = None \<or> sd_cow dev1 = sd_cow dev \<or> (\<exists>c. d_next s \<le> c \<and> c < d_next s1 \<and> sd_cow dev1 = Some c)"
    using 1 unfolding owns_def by blast
  obtain dev2 where e: "d_devs s2 a = Some dev2"
    "\<forall>x. bdev_refs s2 x - held dev2 x = bdev_refs s1 x - held dev1 x"
    "\<forall>c < d_next s1. sd_cow dev1 \<noteq> Some c \<longrightarrow> d_cows s2 c = d_cows s1 c"
    "sd_cow dev2 = None \<or> sd_cow dev2 = sd_cow dev1 \<or> (\<exists>c. d_next s1 \<le> c \<and> c < d_next s2 \<and> sd_cow dev2 = Some c)"
    using 2 d(2) unfolding owns_def by auto
  have n: "d_next s \<le> d_next s1" and n2: "d_next s1 \<le> d_next s2" using 1 2 by (simp_all add: owns_def)
  have "\<forall>c < d_next s. sd_cow dev \<noteq> Some c \<longrightarrow> d_cows s2 c = d_cows s c"
  proof (intro allI impI)
    fix c assume c: "c < d_next s" "sd_cow dev \<noteq> Some c"
    then have "sd_cow dev1 \<noteq> Some c" using d(5) by auto
    then show "d_cows s2 c = d_cows s c" using c d(4) e(3) n by auto
  qed
  moreover have "sd_cow dev2 = None \<or> sd_cow dev2 = sd_cow dev \<or> (\<exists>c. d_next s \<le> c \<and> c < d_next s2 \<and> sd_cow dev2 = Some c)"
    using d(5) e(4) n n2 by (auto intro: less_le_trans)
  ultimately show ?thesis using 1 2 d e unfolding owns_def by auto
qed

lemma keeps_trans [trans]: "keeps E a s s1 \<Longrightarrow> keeps E a s1 s2 \<Longrightarrow> keeps E a s s2"
  using owns_trans by (auto simp: keeps_def)

lemma keeps_owns: "keeps E a s s' \<Longrightarrow> owns E a s s'"
  by (simp add: keeps_def)

lemma keeps_live: "keeps E a s s' \<Longrightarrow> \<exists>dev'. d_devs s' a = Some dev'"
  by (auto simp: keeps_def owns_def)

lemma keeps_core: "keeps E a s s' \<Longrightarrow> d_devs s a = Some dev \<Longrightarrow> \<exists>dev'. d_devs s' a = Some dev' \<and> core dev' = core dev"
  by (auto simp: keeps_def owns_def)

lemma slot_cong: "snap_devices s' = snap_devices s \<Longrightarrow> slot s' i = slot s i"
  by (simp add: slot_def)

lemma ranged_cong:
  "snap_devices s' = snap_devices s \<Longrightarrow> lowest_minor s' = lowest_minor s \<Longrightarrow> highest_minor s' = highest_minor s \<Longrightarrow>
   ranged E s \<Longrightarrow> ranged E s'"
  by (simp add: ranged_def slot_def)


lemma keeps_upd:
  assumes "upd_dev a f s = Some s'"
    and "\<And>dev. d_devs s a = Some dev \<Longrightarrow>
      core (f dev) = core dev \<and> sd_base_dev (f dev) = sd_base_dev dev \<and> (sd_cow (f dev) = sd_cow dev \<or> sd_cow (f dev) = None)"
  shows "keeps E a s s'"
  using assms by (auto simp: upd_dev_def keeps_def owns_def held_def slot_def split: option.splits elim!: ranged_cong[rotated 3])

lemma keeps_env:
  assumes "d_devs s a = Some dev" "snap_devices s' = snap_devices s" "lowest_minor s' = lowest_minor s"
    "highest_minor s' = highest_minor s" "d_devs s' = d_devs s" "bdev_refs s' = bdev_refs s" "d_cows s' = d_cows s"
    "d_next s \<le> d_next s'"
  shows "keeps E a s s'"
  using assms ranged_cong[of s' s E] by (auto simp: keeps_def owns_def)

lemma etick_simps [simp]:
  "snap_devices (etick s) = snap_devices s" "lowest_minor (etick s) = lowest_minor s" "highest_minor (etick s) = highest_minor s"
  "d_devs (etick s) = d_devs s" "bdev_refs (etick s) = bdev_refs s" "d_cows (etick s) = d_cows s" "d_next (etick s) = d_next s"
  "d_trops (etick s) = d_trops s" "d_bheap (etick s) = d_bheap s" "mrf_tracking_map (etick s) = mrf_tracking_map s"
  "slot (etick s) i = slot s i"
  by (simp_all add: etick_def slot_def)

lemma keeps_tick: "d_devs s a = Some dev \<Longrightarrow> keeps E a s (etick s)"
  by (rule keeps_env) simp_all

lemma keepsI:
  assumes "d_devs s a = Some dev" "d_devs s' = (d_devs s)(a \<mapsto> dev')"
    and "snap_devices s' = snap_devices s" "lowest_minor s' = lowest_minor s" "highest_minor s' = highest_minor s" "d_next s \<le> d_next s'"
    and "core dev' = core dev" "\<And>x. bdev_refs s' x - held dev' x = bdev_refs s x - held dev x"
    and "\<And>c. c < d_next s \<Longrightarrow> sd_cow dev \<noteq> Some c \<Longrightarrow> d_cows s' c = d_cows s c"
    and "sd_cow dev' = None \<or> sd_cow dev' = sd_cow dev \<or> (\<exists>c. d_next s \<le> c \<and> c < d_next s' \<and> sd_cow dev' = Some c)"
  shows "keeps E a s s'"
  unfolding keeps_def owns_def using assms(1-6) ranged_cong[of s' s E] assms(7-10) by auto

lemma upd_dev_cases:
  assumes "upd_dev a f s = Some s'"
  obtains dev where "d_devs s a = Some dev" "s' = s\<lparr>d_devs := (d_devs s)(a \<mapsto> f dev)\<rparr>"
  using assms by (auto simp: upd_dev_def split: option.splits)

text \<open>The parts of the state that only tracing and allocation touch.\<close>

definition same_table :: "drv \<Rightarrow> drv \<Rightarrow> bool" where
  "same_table s s' \<longleftrightarrow> snap_devices s' = snap_devices s \<and> lowest_minor s' = lowest_minor s \<and> highest_minor s' = highest_minor s"

lemma keepsI2:
  assumes "d_devs s a = Some dev" "d_devs s' = (d_devs s)(a \<mapsto> dev')" "same_table s s'" "d_next s \<le> d_next s'"
    and "core dev' = core dev" "\<And>x. bdev_refs s' x - held dev' x = bdev_refs s x - held dev x"
    and "\<And>c. c < d_next s \<Longrightarrow> sd_cow dev \<noteq> Some c \<Longrightarrow> d_cows s' c = d_cows s c"
    and "sd_cow dev' = None \<or> sd_cow dev' = sd_cow dev \<or> (\<exists>c. d_next s \<le> c \<and> c < d_next s' \<and> sd_cow dev' = Some c)"
  shows "keeps E a s s'"
  using assms unfolding same_table_def by (intro keepsI[of s a dev s' dev']) auto

lemma tracer_destroy_cow_cases:
  assumes "tracer_destroy_cow K a m s = Some (r, s')"
  obtains dev dev' where "d_devs s a = Some dev" "d_devs s' = (d_devs s)(a \<mapsto> dev')" "same_table s s'"
    "bdev_refs s' = bdev_refs s" "d_next s' = d_next s" "core dev' = core dev" "sd_base_dev dev' = sd_base_dev dev"
    "sd_cow dev' = (if m < 2 then None else sd_cow dev)" "\<forall>c. sd_cow dev \<noteq> Some c \<longrightarrow> d_cows s' c = d_cows s c"
    "m < 2 \<longrightarrow> (\<forall>c. sd_cow dev = Some c \<longrightarrow> d_cows s' c = None)"
proof -
  let ?f = "\<lambda>dev. dev\<lparr>sd_cow_inode := None, sd_falloc_size := 0, sd_cache_size := 0\<rparr>"
  from assms obtain s1 where u: "upd_dev a ?f s = Some s1" by (auto simp: tracer_destroy_cow_def split: bind_splits)
  then obtain dev where d: "d_devs s a = Some dev" "s1 = s\<lparr>d_devs := (d_devs s)(a \<mapsto> ?f dev)\<rparr>" by (rule upd_dev_cases)
  show thesis
  proof (cases "sd_cow dev")
    case None
    then have "s' = s1" using assms u d by (simp add: tracer_destroy_cow_def)
    then show thesis using None d by (intro that[of dev "?f dev"]) (auto simp: same_table_def core_def)
  next
    case (Some c)
    consider "m = 0" | "m = 1" | "m = 2" | "2 < m" by linarith
    then show thesis
      by cases (use assms u d Some in \<open>auto simp: tracer_destroy_cow_def upd_dev_def same_table_def core_def
        intro!: that[OF d(1)] split: bind_splits\<close>)
  qed
qed

lemma tracer_destroy_cow_keeps:
  assumes "tracer_destroy_cow K a m s = Some (r, s')"
  shows "keeps E a s s'"
  using assms
proof (rule tracer_destroy_cow_cases)
  fix dev dev'
  assume d: "d_devs s a = Some dev" "d_devs s' = (d_devs s)(a \<mapsto> dev')" "same_table s s'"
    "bdev_refs s' = bdev_refs s" "d_next s' = d_next s" "core dev' = core dev" "sd_base_dev dev' = sd_base_dev dev"
    "sd_cow dev' = (if m < 2 then None else sd_cow dev)" "\<forall>c. sd_cow dev \<noteq> Some c \<longrightarrow> d_cows s' c = d_cows s c"
  show ?thesis by (rule keepsI2[OF d(1-3)]) (use d in \<open>auto simp: held_def\<close>)
qed

lemma tracer_destroy_base_dev_cases:
  assumes "tracer_destroy_base_dev a s = Some s'"
  obtains dev where "d_devs s a = Some dev"
    "s' = s\<lparr>d_devs := (d_devs s)(a \<mapsto> dev\<lparr>sd_size := 0, sd_sect_off := 0, sd_bdev_path := None, sd_base_dev := None\<rparr>),
       bdev_refs := (\<lambda>x. bdev_refs s x - held dev x)\<rparr>"
  using assms
  by (auto simp: tracer_destroy_base_dev_def upd_dev_def moocbt_blkdev_put_def held_def fun_eq_iff
      split: bind_splits option.splits intro!: that)

lemma tracer_destroy_base_dev_keeps:
  assumes "tracer_destroy_base_dev a s = Some s'"
  shows "keeps E a s s'"
proof -
  from assms obtain dev where d: "d_devs s a = Some dev"
    "s' = s\<lparr>d_devs := (d_devs s)(a \<mapsto> dev\<lparr>sd_size := 0, sd_sect_off := 0, sd_bdev_path := None, sd_base_dev := None\<rparr>),
       bdev_refs := (\<lambda>x. bdev_refs s x - held dev x)\<rparr>" by (rule tracer_destroy_base_dev_cases)
  show ?thesis by (rule keepsI[OF d(1), where dev' = "dev\<lparr>sd_size := 0, sd_sect_off := 0, sd_bdev_path := None, sd_base_dev := None\<rparr>"])
      (simp_all add: d(2) core_def held_def)
qed

lemma moocbt_blkdev_by_path_keep:
  "moocbt_blkdev_by_path E path s = (Inl e, s') \<Longrightarrow> \<exists>w. s' = s\<lparr>d_world := w\<rparr>"
  "moocbt_blkdev_by_path E path s = (Inr bdev, s') \<Longrightarrow>
     \<exists>w. s' = s\<lparr>d_world := w, bdev_refs := (bdev_refs s)(bdev := bdev_refs s bdev + 1)\<rparr>"
  by (auto simp: moocbt_blkdev_by_path_def etick_def Let_def split: if_splits sum.splits)

lemma path_functions_keep:
  "pathname_to_absolute E p s = (r, s') \<Longrightarrow> \<exists>w. s' = s\<lparr>d_world := w\<rparr>"
  "dentry_get_relative_pathname E ino s = (r, s') \<Longrightarrow> \<exists>w. s' = s\<lparr>d_world := w\<rparr>"
  by (auto simp: pathname_to_absolute_def path_get_absolute_pathname_def dentry_get_relative_pathname_def etick_def Let_def
      split: if_splits sum.splits)


text \<open>A chain of steps: each keeps what the lemma of the step says, and so does the chain.\<close>

lemma keeps_step:
  assumes "keeps E a s s1" "\<And>dev. d_devs s1 a = Some dev \<Longrightarrow> keeps E a s1 s2"
  shows "keeps E a s s2"
  using assms keeps_live keeps_trans by metis

lemma and_then_cases:
  assumes "and_then r f = Some (ret, s')"
  obtains (stop) "r = Some (ret, s')" "ret \<noteq> 0" | (go) s1 where "r = Some (0, s1)" "f s1 = Some (ret, s')"
  using assms by (auto simp: and_then_def split: bind_splits if_splits)

lemma and_then_keeps:
  assumes "and_then r f = Some (ret, s')"
    and "\<And>x s1. r = Some (x, s1) \<Longrightarrow> keeps E a s s1"
    and "\<And>s1 y s2 dev. d_devs s1 a = Some dev \<Longrightarrow> f s1 = Some (y, s2) \<Longrightarrow> keeps E a s1 s2"
  shows "keeps E a s s'"
  using assms(1)
proof (cases rule: and_then_cases)
  case stop
  show ?thesis by (rule assms(2)[OF stop(1)])
next
  case (go s1)
  note k = assms(2)[OF go(1)]
  show ?thesis using keeps_live[OF k] keeps_trans[OF k assms(3)[OF _ go(2)]] by blast
qed

lemma obtain_cow_keeps:
  assumes "obtain_cow E K a p sz fs cs u sid m s = Some (r, s')"
  shows "keeps E a s s'"
proof (cases "m = 3")
  case True
  with assms obtain dev c cm w cm' where d: "d_devs s a = Some dev" "sd_cow dev = Some c" 
    "s' = s\<lparr>d_world := w, d_cows := (d_cows s)(c \<mapsto> cm')\<rparr>"
    by (auto simp: obtain_cow_def split: bind_splits)
  show ?thesis by (rule keepsI[OF d(1), where dev' = dev]) (use d in auto)
next
  case False
  with assms obtain dev dev' new where d: "d_devs s a = Some dev" "d_devs s' = (d_devs s)(a \<mapsto> dev')" "same_table s s'"
    "d_cows s' = (d_cows s)(d_next s := new)" "d_next s' = Suc (d_next s)" "bdev_refs s' = bdev_refs s"
    "core dev' = core dev" "sd_base_dev dev' = sd_base_dev dev" "sd_cow dev' = map_option (\<lambda>_. d_next s) new"
    by (cases "m = 0") (auto simp: obtain_cow_def upd_dev_def Let_def core_def same_table_def split: bind_splits prod.splits if_splits option.splits)
  show ?thesis by (rule keepsI2[OF d(1-3)]) (use d in \<open>auto simp: held_def\<close>)
qed

lemma tracer_setup_cow_keeps:
  assumes "tracer_setup_cow E K a b p sz fs cs u sid m s = Some (r, s')"
  shows "keeps E a s s'"
proof -
  obtain r1 s1 r2 s2 where 1: "obtain_cow E K a p sz fs cs u sid m s = Some (r1, s1)"
    and 2: "s2 = s1 \<or> (\<exists>v. upd_dev a (\<lambda>dev. dev\<lparr>sd_cow_inode := v\<rparr>) s1 = Some s2)"
    and 3: "s' = s2 \<or> tracer_destroy_cow K a 0 s2 = Some (r2, s')"
    using assms unfolding tracer_setup_cow_def
    by (auto split: bind_splits if_splits) blast+
  note k1 = obtain_cow_keeps[OF 1]
  have k2: "keeps E a s s2"
    using 2 k1 keeps_trans[OF k1 keeps_upd[of a _ s1 s2]] by (auto simp: core_def)
  show ?thesis using 3 k2 keeps_trans[OF k2 tracer_destroy_cow_keeps[of K a 0 s2]] by auto
qed


lemma tracer_destroy_cow_path_keeps: "tracer_destroy_cow_path a s = Some s' \<Longrightarrow> keeps E a s s'"
  unfolding tracer_destroy_cow_path_def by (rule keeps_upd) (auto simp: core_def)

lemma keeps_world: "d_devs s a = Some dev \<Longrightarrow> \<exists>w. s' = s\<lparr>d_world := w\<rparr> \<Longrightarrow> keeps E a s s'"
  by (erule exE, rule keeps_env[where dev = dev]) simp_all

lemma tracer_setup_cow_path_keeps:
  assumes "tracer_setup_cow_path E a s = Some (r, s')"
  shows "keeps E a s s'"
proof -
  from assms obtain dev ino res s1 where d: "d_devs s a = Some dev" and p: "dentry_get_relative_pathname E ino s = (res, s1)"
    and u: "\<exists>v. upd_dev a (\<lambda>dev. dev\<lparr>sd_cow_path := v\<rparr>) s1 = Some s'"
    by (fastforce simp: tracer_setup_cow_path_def tracer_destroy_cow_path_def split: bind_splits sum.splits prod.splits)
  note k = keeps_world[OF d path_functions_keep(2)[OF p]]
  from u obtain v where v: "upd_dev a (\<lambda>dev. dev\<lparr>sd_cow_path := v\<rparr>) s1 = Some s'" by blast
  show ?thesis by (rule keeps_trans[OF k keeps_upd[OF v]]) (simp add: core_def)
qed

lemma tracer_setup_base_dev_keeps:
  assumes "tracer_setup_base_dev E a p s = Some (r, s')" and d: "d_devs s a = Some dev" "sd_base_dev dev = None"
  shows "keeps E a s s'"
proof -
  obtain res s1 where b: "moocbt_blkdev_by_path E p s = (res, s1)" by fastforce
  show ?thesis
  proof (cases res)
    case (Inl e)
    note k1 = keeps_world[OF d(1) moocbt_blkdev_by_path_keep(1)[OF b[unfolded Inl]]]
    obtain s2 where u: "upd_dev a (\<lambda>dev. dev\<lparr>sd_base_dev := None\<rparr>) s1 = Some s2"
      and r: "s' = s2 \<or> tracer_destroy_base_dev a s2 = Some s'"
      using assms(1) b Inl by (auto simp: tracer_setup_base_dev_def split: bind_splits if_splits)
    have d1: "d_devs s1 a = Some dev" using moocbt_blkdev_by_path_keep(1)[OF b[unfolded Inl]] d(1) by auto
    have "keeps E a s1 s2" using u d d1
      by (intro keeps_upd[OF u]) (auto simp: core_def)
    from keeps_trans[OF k1 this] r show ?thesis using keeps_trans tracer_destroy_base_dev_keeps by blast
  next
    case (Inr bdev)
    note s1 = moocbt_blkdev_by_path_keep(2)[OF b[unfolded Inr]]
    obtain s2 where u: "upd_dev a (\<lambda>dev. dev\<lparr>sd_base_dev := Some bdev\<rparr>) s1 = Some s2"
      using assms(1) b Inr by (auto simp: tracer_setup_base_dev_def split: bind_splits)
    obtain dev1 where d1: "d_devs s1 a = Some dev1" "s2 = s1\<lparr>d_devs := (d_devs s1)(a \<mapsto> dev1\<lparr>sd_base_dev := Some bdev\<rparr>)\<rparr>"
      using u by (rule upd_dev_cases)
    have f: "d_devs s1 = d_devs s" "same_table s s1" "d_next s1 = d_next s" "d_cows s1 = d_cows s"
      "bdev_refs s1 = (bdev_refs s)(bdev := bdev_refs s bdev + 1)"
      using s1 by (auto simp: same_table_def)
    have k2: "keeps E a s s2"
      by (rule keepsI2[OF d(1), where dev' = "dev\<lparr>sd_base_dev := Some bdev\<rparr>"])
        (use f d d1 in \<open>auto simp: same_table_def core_def held_def\<close>)
    have "\<exists>s3. keeps E a s2 s3 \<and> (s' = s3 \<or> tracer_destroy_base_dev a s3 = Some s')"
    proof (cases "s' = s2 \<or> tracer_destroy_base_dev a s2 = Some s'")
      case True
      then show ?thesis using keeps_live[OF k2] keeps_refl by blast
    next
      case False
      then obtain res3 s3 where p3: "pathname_to_absolute E p s2 = (res3, s3)"
        and r: "s' = s3 \<or> tracer_destroy_base_dev a s3 = Some s' \<or>
          (\<exists>x y z. upd_dev a (\<lambda>dev. dev\<lparr>sd_bdev_path := x, sd_sect_off := y, sd_size := z\<rparr>) s3 = Some s')"
        using assms(1) b Inr u by (auto simp: tracer_setup_base_dev_def split: bind_splits if_splits option.splits prod.splits sum.splits)
      obtain dev2 where d2: "d_devs s2 a = Some dev2" using keeps_live[OF k2] by blast
      note k3 = keeps_world[OF d2 path_functions_keep(1)[OF p3]]
      from r show ?thesis
      proof (elim disjE exE)
        fix x y z assume v: "upd_dev a (\<lambda>dev. dev\<lparr>sd_bdev_path := x, sd_sect_off := y, sd_size := z\<rparr>) s3 = Some s'"
        have "keeps E a s3 s'" by (rule keeps_upd[OF v]) (simp add: core_def)
        then show ?thesis using keeps_trans[OF k3] by blast
      qed (use k3 in blast)+
    qed
    then show ?thesis using keeps_trans[OF k2] keeps_trans tracer_destroy_base_dev_keeps by blast
  qed
qed

subsection \<open>Threads\<close>

lemma inc_run_frame:
  "inc_run K n (f, dev, w, cow) = Some (f', dev', w', cow') \<Longrightarrow>
   (\<exists>q e. dev' = dev\<lparr>sd_pending_ssets := q, sd_fail_code := e\<rparr>)"
proof (induction n arbitrary: f dev w cow)
  case 0
  then show ?case by (cases dev) auto
next
  case (Suc n)
  then obtain f1 dev1 w1 cow1 where 1: "inc_sset_thread K f dev w cow = Some (f1, dev1, w1, cow1)"
    and 2: "inc_run K n (f1, dev1, w1, cow1) = Some (f', dev', w', cow')" by (auto split: bind_splits)
  from 1 have "\<exists>q e. dev1 = dev\<lparr>sd_pending_ssets := q, sd_fail_code := e\<rparr>"
    by (cases dev) (auto simp: inc_sset_thread_def Let_def tracer_set_fail_state_def split: prod.splits list.splits bind_splits if_splits)
  with Suc.IH[OF 2] show ?case by (elim exE) (simp, blast)
qed

lemma cow_run_frame:
  "cow_run K submit D n (f, dev, h, w, cow) = Some (f', dev', h', w', cow') \<Longrightarrow>
   (\<exists>q e. dev' = dev\<lparr>sd_cow_bios := q, sd_fail_code := e\<rparr>)"
proof (induction n arbitrary: f dev h w cow)
  case 0
  then show ?case by (cases dev) auto
next
  case (Suc n)
  then obtain f1 dev1 h1 w1 cow1 where 1: "snap_cow_thread K submit D f dev h w cow = Some (f1, dev1, h1, w1, cow1)"
    and 2: "cow_run K submit D n (f1, dev1, h1, w1, cow1) = Some (f', dev', h', w', cow')" by (auto split: bind_splits)
  from 1 have "\<exists>q e. dev1 = dev\<lparr>sd_cow_bios := q, sd_fail_code := e\<rparr>"
    by (cases dev) (auto simp: snap_cow_thread_def Let_def tracer_set_fail_state_def split: prod.splits bind_splits if_splits)
  with Suc.IH[OF 2] show ?case by (elim exE) (simp, blast)
qed


definition like :: "snap_device \<Rightarrow> snap_device \<Rightarrow> bool" where
  "like dev dev' \<longleftrightarrow> core dev' = core dev \<and> sd_base_dev dev' = sd_base_dev dev \<and> sd_cow dev' = sd_cow dev"

text \<open>
  A step that only concerns the threads, queues and disk of device \<open>a\<close>: the array, the references and the allocation are
  untouched, the device keeps its place, base device and manager, and only that manager may change.
\<close>

definition quiet :: "addr \<Rightarrow> drv \<Rightarrow> drv \<Rightarrow> bool" where
  "quiet a s s' \<longleftrightarrow> same_table s s' \<and> d_next s' = d_next s \<and> bdev_refs s' = bdev_refs s \<and>
     (\<exists>dev dev'. d_devs s a = Some dev \<and> d_devs s' = (d_devs s)(a \<mapsto> dev') \<and> like dev dev' \<and>
        (\<forall>c. sd_cow dev \<noteq> Some c \<longrightarrow> d_cows s' c = d_cows s c))"

lemmas quiet_simps = like_def core_def

lemma quiet_keeps:
  assumes "quiet a s s'"
  shows "keeps E a s s'"
proof -
  from assms obtain dev dev' where d: "d_devs s a = Some dev" "d_devs s' = (d_devs s)(a \<mapsto> dev')" "like dev dev'"
    "\<forall>c. sd_cow dev \<noteq> Some c \<longrightarrow> d_cows s' c = d_cows s c" "same_table s s'" "d_next s' = d_next s" "bdev_refs s' = bdev_refs s"
    unfolding quiet_def by blast
  show ?thesis by (rule keepsI2[OF d(1,2,5)]) (use d in \<open>auto simp: held_def like_def\<close>)
qed

lemma quiet_refl: "d_devs s a = Some dev \<Longrightarrow> quiet a s s"
  by (auto simp: quiet_def same_table_def like_def fun_upd_idem intro!: exI[of _ dev])

lemma quiet_trans: "quiet a s s1 \<Longrightarrow> quiet a s1 s2 \<Longrightarrow> quiet a s s2"
  unfolding quiet_def like_def same_table_def by (elim conjE exE) auto

lemma quiet_live: "quiet a s s' \<Longrightarrow> \<exists>dev'. d_devs s' a = Some dev'"
  by (auto simp: quiet_def)

lemma quiet_upd: "upd_dev a g s = Some s' \<Longrightarrow> (\<And>d. like d (g d)) \<Longrightarrow> quiet a s s'"
  by (auto simp: upd_dev_def quiet_def same_table_def split: option.splits)

lemma quiet_tick: "d_devs s a = Some dev \<Longrightarrow> quiet a s (etick s)"
  by (auto simp: quiet_def same_table_def like_def fun_upd_idem intro!: exI[of _ dev])

lemma and_then_quiet:
  assumes "and_then r f = Some (ret, s')"
    and "\<And>x s1. r = Some (x, s1) \<Longrightarrow> quiet a s s1" "\<And>s1 y s2. f s1 = Some (y, s2) \<Longrightarrow> quiet a s1 s2"
  shows "quiet a s s'"
  using assms(1)
proof (cases rule: and_then_cases)
  case stop
  show ?thesis by (rule assms(2)[OF stop(1)])
next
  case (go s1)
  show ?thesis by (rule quiet_trans[OF assms(2)[OF go(1)] assms(3)[OF go(2)]])
qed

lemma run_cow_thread_quiet:
  assumes "run_cow_thread E K t a s = Some s'"
  shows "quiet a s s'"
proof -
  from assms obtain dev where d: "d_devs s a = Some dev" by (auto simp: run_cow_thread_def split: bind_splits)
  let ?cow = "Option.bind (sd_cow dev) (d_cows s)"
  have "\<exists>dev' cow'. d_devs s' = (d_devs s)(a \<mapsto> dev') \<and> same_table s s' \<and> bdev_refs s' = bdev_refs s \<and> d_next s' = d_next s \<and>
    d_cows s' = (case sd_cow dev of None \<Rightarrow> d_cows s | Some c \<Rightarrow> (d_cows s)(c := cow')) \<and>
    core dev' = core dev \<and> sd_base_dev dev' = sd_base_dev dev \<and> sd_cow dev' = sd_cow dev"
  proof (cases "kt_fn t")
    case Inc_Sset_Thread
    with assms d obtain f' dev' w cow' where
      r: "inc_run K (max 1 (length (sd_pending_ssets dev))) (kt_failed t, dev, d_world s, ?cow) = Some (f', dev', w, cow')"
      and s': "s' = s\<lparr>d_devs := (d_devs s)(a \<mapsto> dev'), d_bheap := d_bheap s, d_world := w,
         d_cows := (case sd_cow dev of None \<Rightarrow> d_cows s | Some c \<Rightarrow> (d_cows s)(c := cow'))\<rparr>"
      by (auto simp: run_cow_thread_def Let_def split: bind_splits)
    obtain q e where "dev' = dev\<lparr>sd_pending_ssets := q, sd_fail_code := e\<rparr>" using inc_run_frame[OF r] by blast
    then show ?thesis using s' by (intro exI[of _ dev'] exI[of _ cow']) (simp add: same_table_def core_def)
  next
    case Snap_Cow_Thread
    with assms d obtain f' dev' h w cow' D where
      r: "cow_run K (e_submit E) D (max 1 (length (sd_cow_bios dev))) (kt_failed t, dev, d_bheap s, d_world s, ?cow) = Some (f', dev', h, w, cow')"
      and s': "s' = s\<lparr>d_devs := (d_devs s)(a \<mapsto> dev'), d_bheap := h, d_world := w,
         d_cows := (case sd_cow dev of None \<Rightarrow> d_cows s | Some c \<Rightarrow> (d_cows s)(c := cow'))\<rparr>"
      by (auto simp: run_cow_thread_def Let_def split: bind_splits if_splits)
    obtain q e where "dev' = dev\<lparr>sd_cow_bios := q, sd_fail_code := e\<rparr>" using cow_run_frame[OF r] by blast
    then show ?thesis using s' by (intro exI[of _ dev'] exI[of _ cow']) (simp add: same_table_def core_def)
  qed
  then obtain dev' cow' where f: "d_devs s' = (d_devs s)(a \<mapsto> dev')" "same_table s s'" "bdev_refs s' = bdev_refs s"
    "d_next s' = d_next s" "d_cows s' = (case sd_cow dev of None \<Rightarrow> d_cows s | Some c \<Rightarrow> (d_cows s)(c := cow'))"
    "core dev' = core dev" "sd_base_dev dev' = sd_base_dev dev" "sd_cow dev' = sd_cow dev" by blast
  show ?thesis unfolding quiet_def using d f by (auto simp: like_def split: option.splits)
qed

lemma tracer_destroy_cow_thread_quiet:
  assumes "tracer_destroy_cow_thread E K a s = Some s'"
  shows "quiet a s s'"
proof -
  from assms obtain dev where d: "d_devs s a = Some dev" by (auto simp: tracer_destroy_cow_thread_def split: bind_splits)
  show ?thesis
  proof (cases "sd_cow_thread dev")
    case None
    then show ?thesis using assms d quiet_refl[OF d] by (simp add: tracer_destroy_cow_thread_def)
  next
    case (Some t)
    with assms d obtain s1 where 1: "(if kt_woken t \<and> e_ran E (now s) then run_cow_thread E K t a (etick s) else Some (etick s)) = Some s1"
      and u: "upd_dev a (\<lambda>dev. dev\<lparr>sd_cow_thread := None\<rparr>) s1 = Some s'"
      by (auto simp: tracer_destroy_cow_thread_def split: bind_splits)
    have k1: "quiet a s s1"
      using 1 quiet_tick[OF d] run_cow_thread_quiet quiet_trans by (metis option.inject)
    show ?thesis by (rule quiet_trans[OF k1 quiet_upd[OF u]]) (simp add: quiet_simps)
  qed
qed

lemma tracer_setup_cow_thread_quiet:
  assumes "tracer_setup_cow_thread E K a minor b s = Some (r, s')"
  shows "quiet a s s'"
proof -
  from assms obtain t s1 where u: "upd_dev a (\<lambda>dev. dev\<lparr>sd_cow_thread := t\<rparr>) (etick s) = Some s1"
    and r: "s' = s1 \<or> tracer_destroy_cow_thread E K a s1 = Some s'"
    by (auto simp: tracer_setup_cow_thread_def Let_def split: bind_splits if_splits)
  then obtain dev where d: "d_devs s a = Some dev" by (auto simp: upd_dev_def split: option.splits)
  have "quiet a s s1" by (rule quiet_trans[OF quiet_tick[OF d] quiet_upd[OF u]]) (simp add: quiet_simps)
  then show ?thesis using r tracer_destroy_cow_thread_quiet quiet_trans by blast
qed

lemma wake_up_process_quiet:
  assumes "wake_up_process a s = Some s'"
  shows "quiet a s s'"
proof -
  from assms obtain t where u: "upd_dev a (\<lambda>dev. dev\<lparr>sd_cow_thread := t\<rparr>) s = Some s'"
    by (auto simp: wake_up_process_def split: bind_splits)
  show ?thesis by (rule quiet_upd[OF u]) (simp add: quiet_simps)
qed

lemma start_cow_thread_quiet: "start_cow_thread E K a minor b s = Some (r, s') \<Longrightarrow> quiet a s s'"
  unfolding start_cow_thread_def
  by (rule and_then_quiet) (auto intro: tracer_setup_cow_thread_quiet wake_up_process_quiet split: bind_splits)

lemma funpow_frame:
  fixes f :: "snap_device \<Rightarrow> bheap \<Rightarrow> snap_device \<times> bheap"
  assumes "\<And>dev h dev' h'. f dev h = (dev', h') \<Longrightarrow> p dev dev'" "\<And>d. p d d" "\<And>d e g. p d e \<Longrightarrow> p e g \<Longrightarrow> p d g"
  shows "((\<lambda>(dev, h). f dev h) ^^ n) (dev, h) = (dev', h') \<Longrightarrow> p dev dev'"
proof (induction n arbitrary: dev' h')
  case (Suc n)
  obtain d1 h1 where 1: "((\<lambda>(dev, h). f dev h) ^^ n) (dev, h) = (d1, h1)" by fastforce
  then have "f d1 h1 = (dev', h')" using Suc.prems by simp
  then show ?case using Suc.IH[OF 1] assms(1,3) by blast
qed (use assms(2) in simp)

lemma drain_thread_quiet:
  assumes "drain_thread E q f a s = Some s'" and "\<And>dev h dev' h'. f dev h = (dev', h') \<Longrightarrow> like dev dev'"
  shows "quiet a s s'"
proof -
  from assms(1) obtain dev dev' h where d: "d_devs s a = Some dev"
    and r: "(if e_ran E (now s) then ((\<lambda>(dev, h). f dev h) ^^ length (q dev)) (dev, d_bheap s) else (dev, d_bheap s)) = (dev', h)"
    and s': "s' = (etick s)\<lparr>d_devs := (d_devs s)(a \<mapsto> dev'), d_bheap := h\<rparr>"
    by (auto simp: drain_thread_def Let_def split: bind_splits prod.splits)
  have "like dev dev'" using r funpow_frame[of f like, OF assms(2)] by (auto simp: like_def split: if_splits)
  then show ?thesis using s' d
    by (auto simp: quiet_def same_table_def)
qed

lemma snap_threads_like: "snap_mrf_thread dev h = (dev', h') \<Longrightarrow> like dev dev'" "snap_read_thread dev h = (dev', h') \<Longrightarrow> like dev dev'"
  by (auto simp: snap_mrf_thread_def snap_read_thread_def quiet_simps split: list.splits)

lemma drain_upd_quiet:
  assumes "(if b then do { s \<leftarrow> drain_thread E q f a s; upd_dev a g s } else Some s) = Some s'" "d_devs s a = Some dev"
    and "\<And>dev h dev' h'. f dev h = (dev', h') \<Longrightarrow> like dev dev'" "\<And>d. like d (g d)"
  shows "quiet a s s'"
proof (cases b)
  case True
  with assms(1) obtain s1 where 1: "drain_thread E q f a s = Some s1" and u: "upd_dev a g s1 = Some s'" by (auto split: bind_splits)
  show ?thesis by (rule quiet_trans[OF drain_thread_quiet[OF 1 assms(3)] quiet_upd[OF u]]) (use assms(4) in \<open>auto simp: like_def\<close>)
qed (use assms quiet_refl in auto)

lemma tracer_destroy_snap_quiet:
  assumes "tracer_destroy_snap E C a s = Some s'"
  shows "quiet a s s'"
proof -
  from assms obtain dev s1 s2 s3 where d: "d_devs s a = Some dev"
    and 1: "(if sd_mrf_thread dev then do { s \<leftarrow> drain_thread E sd_orig_bios snap_mrf_thread a s;
               upd_dev a (\<lambda>dev. dev\<lparr>sd_mrf_thread := False\<rparr>) s } else Some s) = Some s1"
    and 2: "(if USE_HOOK_TRACER C \<and> sd_read_thread dev then do { s \<leftarrow> drain_thread E sd_read_bios snap_read_thread a s1;
               upd_dev a (\<lambda>dev. dev\<lparr>sd_read_thread := False\<rparr>) s } else Some s1) = Some s2"
    and 3: "upd_dev a (\<lambda>dev. dev\<lparr>sd_gd := False, sd_queue := False\<rparr>) s2 = Some s3"
    and 4: "upd_dev a (\<lambda>dev. dev\<lparr>sd_bioset := False\<rparr>) s3 = Some s'"
    unfolding tracer_destroy_snap_def tracer_bioset_exit_def by (elim bind_eq_Some_conv[THEN iffD1, elim_format] exE conjE) (auto split: if_splits bind_splits)
  have k1: "quiet a s s1" by (rule drain_upd_quiet[OF 1 d snap_threads_like(1)]) (simp_all add: quiet_simps)
  then obtain dev1 where d1: "d_devs s1 a = Some dev1" using quiet_live by blast
  have k2: "quiet a s1 s2" by (rule drain_upd_quiet[OF 2 d1 snap_threads_like(2)]) (simp_all add: quiet_simps)
  have k3: "quiet a s2 s3" by (rule quiet_upd[OF 3]) (simp add: quiet_simps)
  have k4: "quiet a s3 s'" by (rule quiet_upd[OF 4]) (simp add: quiet_simps)
  show ?thesis by (rule quiet_trans[OF quiet_trans[OF k1 k2] quiet_trans[OF k3 k4]])
qed


lemma upd_tick_quiet:
  assumes "upd_dev a g (etick s) = Some s'" "\<And>d. like d (g d)"
  shows "quiet a s s'"
proof -
  obtain dev where d: "d_devs s a = Some dev" using assms(1) by (auto simp: upd_dev_def split: option.splits)
  show ?thesis by (rule quiet_trans[OF quiet_tick[OF d] quiet_upd[OF assms(1)]]) (use assms(2) in \<open>auto simp: like_def\<close>)
qed

lemma quiet_trans_tick: "quiet a s s1 \<Longrightarrow> quiet a s (etick s1)"
  using quiet_live quiet_tick quiet_trans by metis

lemma setup_snap_steps_quiet:
  assumes "setup_snap_steps E C a s = Some (r, s')"
  shows "quiet a s s'"
proof -
  have l: "like d (d\<lparr>sd_bioset := b\<rparr>)" "like d (d\<lparr>sd_gd := b\<rparr>)" "like d (d\<lparr>sd_queue := b\<rparr>)" "like d (d\<lparr>sd_mrf_thread := b\<rparr>)"
    "like d (d\<lparr>sd_read_thread := b\<rparr>)" "like d (d\<lparr>sd_submitted_cnt := 0, sd_received_cnt := 0\<rparr>)" for d b
    by (simp_all add: quiet_simps)
  obtain r1 s1 where 1: "tracer_bioset_init E a s = Some (r1, s1)" using assms by (auto simp: setup_snap_steps_def split: bind_splits)
  have k1: "quiet a s s1" using 1 by (auto simp: tracer_bioset_init_def Let_def split: bind_splits intro: upd_tick_quiet[OF _ l(1)])
  show ?thesis
  proof (cases "r1 = 0")
    case False
    then show ?thesis using assms 1 k1 by (simp add: setup_snap_steps_def)
  next
    case True
    with assms 1 obtain s2 where 2: "upd_dev a (\<lambda>dev. dev\<lparr>sd_gd := e_alloc E (now s1)\<rparr>) (etick s1) = Some s2"
      by (auto simp: setup_snap_steps_def Let_def split: bind_splits)
    note k2 = quiet_trans[OF k1 upd_tick_quiet[OF 2 l(2)]]
    show ?thesis
    proof (cases "e_alloc E (now s1)")
      case False
      then show ?thesis using assms 1 2 k2 True by (simp add: setup_snap_steps_def Let_def)
    next
      case gd: True
      with assms 1 2 True obtain s3 where 3: "upd_dev a (\<lambda>dev. dev\<lparr>sd_queue := e_alloc E (now s2)\<rparr>) (etick s2) = Some s3"
        by (auto simp: setup_snap_steps_def Let_def split: bind_splits)
      note k3 = quiet_trans[OF k2 upd_tick_quiet[OF 3 l(3)]]
      show ?thesis
      proof (cases "e_alloc E (now s2)")
        case False
        then show ?thesis using assms 1 2 3 k3 True gd by (simp add: setup_snap_steps_def Let_def)
      next
        case q: True
        with assms 1 2 3 True gd obtain s4 s5 where
          4: "upd_dev a (\<lambda>dev. dev\<lparr>sd_submitted_cnt := 0, sd_received_cnt := 0\<rparr>) s3 = Some s4" and
          5: "upd_dev a (\<lambda>dev. dev\<lparr>sd_mrf_thread := (e_kthread E (now s4) = 0)\<rparr>) (etick s4) = Some s5"
          by (auto simp: setup_snap_steps_def Let_def split: bind_splits)
        note k5 = quiet_trans[OF quiet_trans[OF k3 quiet_upd[OF 4 l(6)]] upd_tick_quiet[OF 5 l(4)]]
        from assms 1 2 3 4 5 True gd q obtain s6 where
          6: "s6 = s5 \<or> upd_dev a (\<lambda>dev. dev\<lparr>sd_read_thread := (e_kthread E (now s5) = 0)\<rparr>) (etick s5) = Some s6"
          and s': "s' = s6 \<or> s' = etick s6"
          by (auto simp: setup_snap_steps_def Let_def split: bind_splits if_splits) blast+
        have "quiet a s s6" using 6
        proof
          assume 7: "upd_dev a (\<lambda>dev. dev\<lparr>sd_read_thread := (e_kthread E (now s5) = 0)\<rparr>) (etick s5) = Some s6"
          show ?thesis by (rule quiet_trans[OF k5 upd_tick_quiet[OF 7 l(5)]])
        qed (use k5 in simp)
        then show ?thesis using s' quiet_trans_tick by blast
      qed
    qed
  qed
qed

lemma tracer_setup_snap_quiet:
  assumes "tracer_setup_snap E C a minor s = Some (r, s')"
  shows "quiet a s s'"
  using assms setup_snap_steps_quiet tracer_destroy_snap_quiet quiet_trans
  by (fastforce simp: tracer_setup_snap_def split: bind_splits if_splits)

lemma retain_mrf_keeps:
  assumes "retain_mrf E C a s = Some (r, s')" "d_devs s a = Some dev"
  shows "keeps E a s s'"
  using assms
  by (intro keeps_env[OF assms(2)]) (auto simp: retain_mrf_def mrf_get_def base_of_def split: if_splits bind_splits option.splits)

end
