(* ===== verification/Ioctl.thy ===== *)
theory Ioctl
  imports Transitions
begin

text \<open>
  The control device (\<^verbatim>\<open>src/src/ioctl_handlers.c\<close>) with the copies of its arguments from user space
  (\<^verbatim>\<open>src/src/userspace_copy_helpers.c\<close>). The handlers run one at a time, under the mutex of the driver.
\<close>

subsection \<open>Arguments from user space\<close>

text \<open>
  A string pointer is NULL, cannot be read, or points to a string; a structure that cannot be copied is \<open>None\<close>.
\<close>

datatype ustring = U_Null | U_Fault int | U_Str string

definition copy_string_from_user :: "ustring \<Rightarrow> int + string option" where
  "copy_string_from_user data =
     (case data of U_Null \<Rightarrow> Inr None | U_Fault err \<Rightarrow> Inl err
      | U_Str str \<Rightarrow> if length str + 1 > PAGE_SIZE then Inl (- EINVAL) else Inr (Some str))"

record setup_params =
  p_bdev :: ustring
  p_cow :: ustring
  p_fallocated_space :: u64
  p_cache_size :: u64
  p_minor :: nat

record reload_params =
  r_bdev :: ustring
  r_cow :: ustring
  r_cache_size :: u64
  r_minor :: nat

record transition_snap_params =
  t_cow :: ustring
  t_fallocated_space :: u64
  t_minor :: nat

record reconfigure_params =
  c_cache_size :: u64
  c_minor :: nat

text \<open>A string that must be given.\<close>

definition need_string :: "ustring \<Rightarrow> int + string" where
  "need_string data = (case copy_string_from_user data of Inl err \<Rightarrow> Inl err | Inr None \<Rightarrow> Inl (- EINVAL) | Inr (Some str) \<Rightarrow> Inr str)"

definition get_setup_params :: "setup_params option \<Rightarrow> int + nat \<times> string \<times> string \<times> u64 \<times> u64" where
  "get_setup_params arg =
     (case arg of None \<Rightarrow> Inl (- EFAULT)
      | Some p \<Rightarrow> (case need_string (p_bdev p) of Inl err \<Rightarrow> Inl err
          | Inr bdev \<Rightarrow> (case need_string (p_cow p) of Inl err \<Rightarrow> Inl err
              | Inr cow \<Rightarrow> Inr (p_minor p, bdev, cow, p_fallocated_space p, p_cache_size p))))"

definition get_reload_params :: "reload_params option \<Rightarrow> int + nat \<times> string \<times> string \<times> u64" where
  "get_reload_params arg =
     (case arg of None \<Rightarrow> Inl (- EFAULT)
      | Some p \<Rightarrow> (case need_string (r_bdev p) of Inl err \<Rightarrow> Inl err
          | Inr bdev \<Rightarrow> (case need_string (r_cow p) of Inl err \<Rightarrow> Inl err
              | Inr cow \<Rightarrow> Inr (r_minor p, bdev, cow, r_cache_size p))))"

definition get_transition_snap_params :: "transition_snap_params option \<Rightarrow> int + nat \<times> string \<times> u64" where
  "get_transition_snap_params arg =
     (case arg of None \<Rightarrow> Inl (- EFAULT)
      | Some p \<Rightarrow> (case need_string (t_cow p) of Inl err \<Rightarrow> Inl err
          | Inr cow \<Rightarrow> Inr (t_minor p, cow, t_fallocated_space p)))"

definition get_reconfigure_params :: "reconfigure_params option \<Rightarrow> int + nat \<times> u64" where
  "get_reconfigure_params arg =
     (case arg of None \<Rightarrow> Inl (- EFAULT) | Some p \<Rightarrow> Inr (c_minor p, c_cache_size p))"

subsection \<open>Handlers\<close>

text \<open>Mode 0 asks for a free minor, 1 for one in use and not busy, 2 for one in use.\<close>

definition verify_minor :: "sysenv \<Rightarrow> nat \<Rightarrow> nat \<Rightarrow> drv \<Rightarrow> int option" where
  "verify_minor E minor mode s =
     (if minor \<ge> max_snap_devices E then Some (- EINVAL)
      else if mode = 0 then Some (if slot s minor \<noteq> None then - EBUSY else 0)
      else case slot s minor of None \<Rightarrow> Some (- ENOENT)
        | Some a \<Rightarrow> if mode = 1 then (case d_devs s a of None \<Rightarrow> None
            | Some dev \<Rightarrow> Some (if sd_refs dev \<noteq> 0 then - EBUSY else 0)) else Some 0)"

definition verify_bdev_writable :: "sysenv \<Rightarrow> string \<Rightarrow> drv \<Rightarrow> (int + bool) \<times> drv" where
  "verify_bdev_writable E bdev_path s =
     (case moocbt_blkdev_by_path E bdev_path s of
        (Inl err, s) \<Rightarrow> (Inl err, s)
      | (Inr bdev, s) \<Rightarrow>
          let writable = (case moocbt_get_super E bdev s of None \<Rightarrow> False | Some sb \<Rightarrow> \<not> e_rdonly E (now s) sb)
          in (Inr writable, moocbt_blkdev_put bdev s))"

definition route_setup ::
  "sysenv \<Rightarrow> kernel \<Rightarrow> config \<Rightarrow> addr \<Rightarrow> nat \<Rightarrow> string \<Rightarrow> string \<Rightarrow> u64 \<Rightarrow> u64 \<Rightarrow> bool \<Rightarrow> bool \<Rightarrow> drv \<Rightarrow> (int \<times> drv) option" where
  "route_setup E K C a minor bdev_path cow_path fallocated_space cache_size is_snap is_mounted s =
     (if is_snap then
        (if is_mounted then tracer_setup_active_snap E K C a minor bdev_path cow_path fallocated_space cache_size s
         else tracer_setup_unverified E K C a minor bdev_path cow_path cache_size True s)
      else if \<not> is_mounted then tracer_setup_unverified E K C a minor bdev_path cow_path cache_size False s
      else Some (- EINVAL, s))"

definition ioctl_setup ::
  "sysenv \<Rightarrow> kernel \<Rightarrow> config \<Rightarrow> nat \<Rightarrow> string \<Rightarrow> string \<Rightarrow> u64 \<Rightarrow> u64 \<Rightarrow> bool \<Rightarrow> bool \<Rightarrow> drv \<Rightarrow> (int \<times> drv) option" where
  "ioctl_setup E K C minor bdev_path cow_path fallocated_space cache_size is_snap is_reload s = do {
     ret \<leftarrow> verify_minor E minor 0 s;
     if ret \<noteq> 0 then Some (ret, s)
     else case verify_bdev_writable E bdev_path s of
       (Inl err, s) \<Rightarrow> Some (err, s)
     | (Inr is_mounted, s) \<Rightarrow>
         if is_mounted = is_reload then Some (- EINVAL, s)
         else case tracer_alloc E s of
           (ret, None, s) \<Rightarrow> Some (ret, s)
         | (_, Some a, s) \<Rightarrow> do {
             (ret, s) \<leftarrow> route_setup E K C a minor bdev_path cow_path fallocated_space cache_size is_snap is_mounted s;
             if ret \<noteq> 0 then do { s \<leftarrow> kfree_dev a s; Some (ret, s) } else Some (0, s)
           }
   }"

definition ioctl_destroy :: "sysenv \<Rightarrow> kernel \<Rightarrow> config \<Rightarrow> nat \<Rightarrow> drv \<Rightarrow> (int \<times> drv) option" where
  "ioctl_destroy E K C minor s = do {
     ret \<leftarrow> verify_minor E minor 1 s;
     if ret \<noteq> 0 then Some (ret, s)
     else do {
       a \<leftarrow> slot s minor;
       s \<leftarrow> tracer_destroy E K C a s;
       s \<leftarrow> kfree_dev a s;
       Some (0, s)
     }
   }"

definition ioctl_transition_inc :: "sysenv \<Rightarrow> kernel \<Rightarrow> config \<Rightarrow> nat \<Rightarrow> drv \<Rightarrow> (int \<times> drv) option" where
  "ioctl_transition_inc E K C minor s = do {
     ret \<leftarrow> verify_minor E minor 1 s;
     if ret \<noteq> 0 then Some (ret, s)
     else do {
       a \<leftarrow> slot s minor;
       dev \<leftarrow> d_devs s a;
       if tracer_read_fail_state dev \<noteq> 0 then Some (- EINVAL, s)
       else if \<not> test_bit SNAPSHOT (sd_state dev) \<or> \<not> test_bit ACTIVE (sd_state dev) then Some (- EINVAL, s)
       else tracer_active_snap_to_inc E K C a s
     }
   }"

definition ioctl_transition_snap :: "sysenv \<Rightarrow> kernel \<Rightarrow> config \<Rightarrow> nat \<Rightarrow> string \<Rightarrow> u64 \<Rightarrow> drv \<Rightarrow> (int \<times> drv) option" where
  "ioctl_transition_snap E K C minor cow_path fallocated_space s = do {
     ret \<leftarrow> verify_minor E minor 1 s;
     if ret \<noteq> 0 then Some (ret, s)
     else do {
       a \<leftarrow> slot s minor;
       dev \<leftarrow> d_devs s a;
       if tracer_read_fail_state dev \<noteq> 0 then Some (- EINVAL, s)
       else if test_bit SNAPSHOT (sd_state dev) \<or> \<not> test_bit ACTIVE (sd_state dev) then Some (- EINVAL, s)
       else tracer_active_inc_to_snap E K C a cow_path fallocated_space s
     }
   }"

definition ioctl_reconfigure :: "sysenv \<Rightarrow> nat \<Rightarrow> u64 \<Rightarrow> drv \<Rightarrow> (int \<times> drv) option" where
  "ioctl_reconfigure E minor cache_size s = do {
     ret \<leftarrow> verify_minor E minor 1 s;
     if ret \<noteq> 0 then Some (ret, s)
     else do {
       a \<leftarrow> slot s minor;
       dev \<leftarrow> d_devs s a;
       if tracer_read_fail_state dev \<noteq> 0 then Some (- EINVAL, s)
       else do { s \<leftarrow> tracer_reconfigure E a cache_size s; Some (0, s) }
     }
   }"

definition ioctl_moocbt_info :: "sysenv \<Rightarrow> moocbt_info \<Rightarrow> drv \<Rightarrow> (int \<times> moocbt_info) option" where
  "ioctl_moocbt_info E info s = do {
     ret \<leftarrow> verify_minor E (i_minor info) 2 s;
     if ret \<noteq> 0 then Some (ret, info)
     else do {
       a \<leftarrow> slot s (i_minor info);
       dev \<leftarrow> d_devs s a;
       info \<leftarrow> tracer_moocbt_info E dev info s;
       Some (0, info)
     }
   }"

definition get_free_minor :: "sysenv \<Rightarrow> drv \<Rightarrow> int" where
  "get_free_minor E s =
     (case find (\<lambda>i. slot s i = None) (tracer_for_each_full E) of Some i \<Rightarrow> int i | None \<Rightarrow> - ENOENT)"

subsection \<open>Dispatch\<close>

text \<open>The commands with what their argument points to; the boolean of the last two is whether the reply can be copied back.\<close>

datatype ioctl_cmd =
    IOCTL_SETUP_SNAP "setup_params option"
  | IOCTL_RELOAD_SNAP "reload_params option"
  | IOCTL_RELOAD_INC "reload_params option"
  | IOCTL_DESTROY "nat option"
  | IOCTL_TRANSITION_INC "nat option"
  | IOCTL_TRANSITION_SNAP "transition_snap_params option"
  | IOCTL_RECONFIGURE "reconfigure_params option"
  | IOCTL_MOOCBT_INFO "moocbt_info option" bool
  | IOCTL_GET_FREE bool
  | IOCTL_OTHER nat

datatype reply = No_Reply | Info_Reply moocbt_info | Minor_Reply nat

definition no_reply :: "(int \<times> drv) option \<Rightarrow> (int \<times> reply \<times> drv) option" where
  "no_reply r = map_option (\<lambda>(ret, s). (ret, No_Reply, s)) r"

definition ctrl_ioctl :: "sysenv \<Rightarrow> kernel \<Rightarrow> config \<Rightarrow> ioctl_cmd \<Rightarrow> drv \<Rightarrow> (int \<times> reply \<times> drv) option" where
  "ctrl_ioctl E K C cmd s =
     (case cmd of
        IOCTL_SETUP_SNAP arg \<Rightarrow> (case get_setup_params arg of
            Inl err \<Rightarrow> Some (err, No_Reply, s)
          | Inr (minor, bdev, cow, falloc, cache) \<Rightarrow> no_reply (ioctl_setup E K C minor bdev cow falloc cache True False s))
      | IOCTL_RELOAD_SNAP arg \<Rightarrow> (case get_reload_params arg of
            Inl err \<Rightarrow> Some (err, No_Reply, s)
          | Inr (minor, bdev, cow, cache) \<Rightarrow> no_reply (ioctl_setup E K C minor bdev cow 0 cache True True s))
      | IOCTL_RELOAD_INC arg \<Rightarrow> (case get_reload_params arg of
            Inl err \<Rightarrow> Some (err, No_Reply, s)
          | Inr (minor, bdev, cow, cache) \<Rightarrow> no_reply (ioctl_setup E K C minor bdev cow 0 cache False True s))
      | IOCTL_DESTROY arg \<Rightarrow> (case arg of None \<Rightarrow> Some (- EFAULT, No_Reply, s)
          | Some minor \<Rightarrow> no_reply (ioctl_destroy E K C minor s))
      | IOCTL_TRANSITION_INC arg \<Rightarrow> (case arg of None \<Rightarrow> Some (- EFAULT, No_Reply, s)
          | Some minor \<Rightarrow> no_reply (ioctl_transition_inc E K C minor s))
      | IOCTL_TRANSITION_SNAP arg \<Rightarrow> (case get_transition_snap_params arg of
            Inl err \<Rightarrow> Some (err, No_Reply, s)
          | Inr (minor, cow, falloc) \<Rightarrow> no_reply (ioctl_transition_snap E K C minor cow falloc s))
      | IOCTL_RECONFIGURE arg \<Rightarrow> (case get_reconfigure_params arg of
            Inl err \<Rightarrow> Some (err, No_Reply, s)
          | Inr (minor, cache) \<Rightarrow> no_reply (ioctl_reconfigure E minor cache s))
      | IOCTL_MOOCBT_INFO arg copied \<Rightarrow>
          if \<not> e_alloc E (now s) then Some (- ENOMEM, No_Reply, etick s)
          else let s = etick s in
            (case arg of None \<Rightarrow> Some (- EFAULT, No_Reply, s)
             | Some info \<Rightarrow> do {
                 (ret, info) \<leftarrow> ioctl_moocbt_info E info s;
                 Some (if ret \<noteq> 0 then (ret, No_Reply, s) else if copied then (0, Info_Reply info, s) else (- EFAULT, No_Reply, s))
               })
      | IOCTL_GET_FREE copied \<Rightarrow>
          let idx = get_free_minor E s in
            Some (if idx < 0 then (idx, No_Reply, s) else if copied then (0, Minor_Reply (nat idx), s) else (- EFAULT, No_Reply, s))
      | IOCTL_OTHER n \<Rightarrow> Some (- EINVAL, No_Reply, s))"

end
