(* ===== verification/Setup.thy ===== *)
theory Setup
  imports Tracer_Lemmas Ioctl
begin

text \<open>
  Setting a device up and destroying it, over the frame lemmas of \<open>Tracer_Lemmas\<close>: a slot of the array is taken or
  given up only when tracing starts or stops, and a setup that fails leaves nothing behind.
\<close>

subsection \<open>Starting and stopping\<close>

lemma set_slot_simps [simp]:
  "d_devs (set_slot i v s) = d_devs s" "d_cows (set_slot i v s) = d_cows s" "bdev_refs (set_slot i v s) = bdev_refs s"
  "d_next (set_slot i v s) = d_next s" "lowest_minor (set_slot i v s) = lowest_minor s" "highest_minor (set_slot i v s) = highest_minor s"
  "d_world (set_slot i v s) = d_world s"
  "slot (set_slot i v s) j = (if j = i \<and> i < length (snap_devices s) then v else slot s j)"
  "snap_devices (set_slot i v s) = (snap_devices s)[i := v]"
  by (auto simp: set_slot_def slot_def)

lemma install_tracking_simps [simp]:
  "d_devs (install_tracking E b p s) = d_devs s" "d_cows (install_tracking E b p s) = d_cows s"
  "bdev_refs (install_tracking E b p s) = bdev_refs s" "d_next (install_tracking E b p s) = d_next s"
  "lowest_minor (install_tracking E b p s) = lowest_minor s" "highest_minor (install_tracking E b p s) = highest_minor s"
  "snap_devices (install_tracking E b p s) = snap_devices s" "d_world (install_tracking E b p s) = d_world s"
  "slot (install_tracking E b p s) i = slot s i"
  by (simp_all add: install_tracking_def slot_def split: option.splits tracking.splits)

text \<open>A change of slot \<open>i\<close> to \<open>v\<close> that touches nothing else but the active count of one device.\<close>

definition retraced :: "nat \<Rightarrow> addr option \<Rightarrow> addr \<Rightarrow> int \<Rightarrow> drv \<Rightarrow> drv \<Rightarrow> bool" where
  "retraced i v a n s s' \<longleftrightarrow> snap_devices s' = (snap_devices s)[i := v] \<and> lowest_minor s' = lowest_minor s \<and>
     highest_minor s' = highest_minor s \<and> bdev_refs s' = bdev_refs s \<and> d_next s' = d_next s \<and> d_cows s' = d_cows s \<and>
     (\<exists>dev. d_devs s a = Some dev \<and> d_devs s' = (d_devs s)(a \<mapsto> dev\<lparr>sd_active := sd_active dev + n\<rparr>))"

lemma transition_start:
  assumes "tracer_transition_tracing E C a b p i True s = Some (r, s')"
  shows "(r \<noteq> 0 \<and> (\<exists>w. s' = s\<lparr>d_world := w\<rparr>)) \<or> (r = 0 \<and> retraced i (Some a) a 1 s s')"
proof -
  obtain r1 s1 where 1: "try_freeze_bdev E b s = (r1, s1)" by fastforce
  then have s1: "\<exists>w. s1 = s\<lparr>d_world := w\<rparr>"
    by (cases s) (auto simp: try_freeze_bdev_def etick_def split: option.splits)
  show ?thesis
  proof (cases "r1 = 0")
    case False
    then show ?thesis using assms 1 s1 by (auto simp: tracer_transition_tracing_def split: bind_splits)
  next
    case True
    with assms 1 obtain s2 where 2: "start_tracing E C a b p i s1 = Some s2" and r: "r = 0" "s' = etick s2"
      by (auto simp: tracer_transition_tracing_def try_thaw_bdev_def split: bind_splits)
    from 2 s1 show ?thesis using r
      by (cases "USE_HOOK_TRACER C") (auto simp: start_tracing_def upd_dev_def retraced_def Let_def split: option.splits)
  qed
qed

lemma mrf_put_simps:
  "mrf_put d s = (f, s') \<Longrightarrow> d_devs s' = d_devs s \<and> d_cows s' = d_cows s \<and> bdev_refs s' = bdev_refs s \<and> d_next s' = d_next s \<and>
     lowest_minor s' = lowest_minor s \<and> highest_minor s' = highest_minor s \<and> snap_devices s' = snap_devices s"
  by (auto simp: mrf_put_def split: option.splits if_splits)

lemma stop_tracing_ok:
  assumes "stop_tracing E C b p i s = Some s'"
  shows "\<exists>a. slot s i = Some a \<and> retraced i None a (- 1) s s'"
  using assms mrf_put_simps
  by (auto simp: stop_tracing_def upd_dev_def retraced_def Let_def split: bind_splits option.splits if_splits prod.splits)

lemma transition_stop:
  assumes "tracer_transition_tracing E C a b p i False s = Some (r, s')"
  shows "(r \<noteq> 0 \<and> r \<noteq> - ENOENT \<and> (\<exists>dev. d_devs s a = Some dev \<and> sd_fail_code dev = 0) \<and>
      fst (try_freeze_bdev E b s) = r \<and> (\<exists>w. s' = s\<lparr>d_world := w\<rparr>)) \<or>
    (r = 0 \<and> (\<exists>a'. slot s i = Some a' \<and> retraced i None a' (- 1) s s'))"
proof -
  obtain r1 s1 where 1: "try_freeze_bdev E b s = (r1, s1)" by fastforce
  then have s1: "\<exists>w. s1 = s\<lparr>d_world := w\<rparr>"
    by (cases s) (auto simp: try_freeze_bdev_def etick_def split: option.splits)
  show ?thesis
  proof (cases "r1 \<noteq> 0 \<and> r1 \<noteq> - ENOENT \<and> (\<exists>dev. d_devs s1 a = Some dev \<and> sd_fail_code dev = 0)")
    case True
    then show ?thesis using assms 1 s1 by (auto simp: tracer_transition_tracing_def tracer_read_fail_state_def split: bind_splits)
  next
    case False
    with assms 1 obtain s2 where 2: "stop_tracing E C b p i s1 = Some s2" and r: "r = 0" "s' = s2 \<or> s' = etick s2"
      by (auto simp: tracer_transition_tracing_def tracer_read_fail_state_def try_thaw_bdev_def split: bind_splits if_splits)
    from s1 have sl: "slot s1 i = slot s i" by (auto simp: slot_def)
    from stop_tracing_ok[OF 2] obtain a' where a': "slot s i = Some a'" "retraced i None a' (- 1) s1 s2" unfolding sl by blast
    then have "retraced i None a' (- 1) s s'" using s1 r(2) by (auto simp: retraced_def)
    then show ?thesis using r(1) a'(1) by blast
  qed
qed


lemma ownsI:
  assumes "d_devs s a = Some dev" "d_devs s' = (d_devs s)(a \<mapsto> dev')" "same_table s s'" "d_next s \<le> d_next s'"
    and "sd_base_dev dev' = sd_base_dev dev" "sd_cow dev' = sd_cow dev" "bdev_refs s' = bdev_refs s" "d_cows s' = d_cows s"
  shows "owns E a s s'"
  using assms ranged_cong[of s' s E] by (auto simp: owns_def same_table_def held_def)

definition place :: "snap_device \<Rightarrow> nat \<times> u64 \<times> int \<times> int" where
  "place dev = (sd_minor dev, sd_state dev, sd_active dev, sd_refs dev)"

text \<open>The search for the original functions and the allocation of a table change only the device and the tables.\<close>

definition tables_only :: "addr \<Rightarrow> drv \<Rightarrow> drv \<Rightarrow> bool" where
  "tables_only a s s' \<longleftrightarrow> (\<exists>dev dev'. d_devs s a = Some dev \<and> d_devs s' = (d_devs s)(a \<mapsto> dev') \<and> same_table s s' \<and>
     d_next s \<le> d_next s' \<and> sd_base_dev dev' = sd_base_dev dev \<and> sd_cow dev' = sd_cow dev \<and> place dev' = place dev \<and>
     bdev_refs s' = bdev_refs s \<and> d_cows s' = d_cows s)"

lemma tables_only_trans: "tables_only a s s1 \<Longrightarrow> tables_only a s1 s2 \<Longrightarrow> tables_only a s s2"
  unfolding tables_only_def by (elim exE conjE) (auto simp: same_table_def)

lemma tables_only_owns: "tables_only a s s' \<Longrightarrow> owns E a s s'"
  unfolding tables_only_def using ownsI by blast

lemma tables_only_refl: "d_devs s a = Some dev \<Longrightarrow> tables_only a s s"
  by (auto simp: tables_only_def same_table_def intro!: exI[of _ dev])

lemma tracing_ops_get_only: "tracing_ops_get t s = Some s' \<Longrightarrow> d_devs s a = Some dev \<Longrightarrow> tables_only a s s'"
  by (auto simp: tracing_ops_get_def tables_only_def same_table_def split: option.splits intro!: exI[of _ dev])

lemma upd_tables_only:
  "upd_dev a f s = Some s' \<Longrightarrow> (\<And>d. sd_base_dev (f d) = sd_base_dev d \<and> sd_cow (f d) = sd_cow d \<and> place (f d) = place d) \<Longrightarrow>
   tables_only a s s'"
  by (auto simp: upd_dev_def tables_only_def same_table_def split: option.splits)

lemma find_orig_bdops_only:
  assumes "find_orig_bdops E C a b s = Some (r, s')"
  shows "tables_only a s s'"
proof -
  from assms obtain s1 t x y z where u: "upd_dev a (\<lambda>dev. dev\<lparr>sd_tracing_ops := x, bd_ops := y, sd_orig_request_fn := z\<rparr>) s1 = Some s'"
    and s1: "s1 = s \<or> tracing_ops_get t s = Some s1"
    by (auto simp: find_orig_bdops_def Let_def split: bind_splits option.splits if_splits) blast+
  have k: "tables_only a s1 s'" by (rule upd_tables_only[OF u]) (simp add: place_def)
  from s1 show ?thesis
  proof
    assume g: "tracing_ops_get t s = Some s1"
    then have "d_devs s1 = d_devs s" by (auto simp: tracing_ops_get_def split: option.splits)
    then obtain dev where "d_devs s a = Some dev" using u by (auto simp: upd_dev_def split: option.splits)
    then show ?thesis using tables_only_trans[OF tracing_ops_get_only[OF g] k] by blast
  qed (use k in simp)
qed

lemma tracer_alloc_ops_only:
  assumes "tracer_alloc_ops E C a s = Some (r, s')" "d_devs s a = Some dev"
  shows "tables_only a s s'"
  using assms by (auto simp: tracer_alloc_ops_def Let_def upd_dev_def tables_only_def same_table_def place_def
      split: bind_splits if_splits option.splits) (rule exI[of _ dev], auto)+

lemma setup_tracing_steps_ok:
  assumes "setup_tracing_steps E C a i s = Some (r, s')" "d_devs s a = Some dev" "sd_tracing_ops dev = None \<or> \<not> USE_BDOPS_SUBMIT_BIO C"
  shows "\<exists>s1. tables_only a s s1 \<and> (r \<noteq> 0 \<and> (\<exists>w. s' = s1\<lparr>d_world := w\<rparr>) \<or> r = 0 \<and> retraced i (Some a) a 1 s1 s')"
proof -
  have "\<exists>s1. tables_only a s s1 \<and> (r \<noteq> 0 \<and> s' = s1 \<or> (\<exists>b p. tracer_transition_tracing E C a b p i True s1 = Some (r, s')))"
  proof (cases "USE_BDOPS_SUBMIT_BIO C")
    case False
    with assms obtain fn s1 where u: "upd_dev a (\<lambda>dev. dev\<lparr>sd_orig_request_fn := fn\<rparr>) s = Some s1"
      and r: "r \<noteq> 0 \<and> s' = s1 \<or> (\<exists>b p. tracer_transition_tracing E C a b p i True s1 = Some (r, s'))"
      by (auto simp: setup_tracing_steps_def split: bind_splits if_splits) blast+
    have "tables_only a s s1" by (rule upd_tables_only[OF u]) (simp add: place_def)
    then show ?thesis using r by blast
  next
    case True
    with assms obtain b r1 s1 where bd: "sd_base_dev dev = Some b" and 1: "find_orig_bdops E C a b s = Some (r1, s1)"
      by (auto simp: setup_tracing_steps_def split: bind_splits)
    note k1 = find_orig_bdops_only[OF 1]
    then obtain dev1 where d1: "d_devs s1 a = Some dev1" by (auto simp: tables_only_def)
    show ?thesis
    proof (cases "r1 = 0")
      case False
      then show ?thesis using assms True bd 1 k1 by (auto simp: setup_tracing_steps_def)
    next
      case r1: True
      have tr: "(if sd_tracing_ops dev1 = None then tracer_alloc_ops E C a s1 else Some (0, s1)) \<bind>
          (\<lambda>(ret, s). if ret \<noteq> 0 then Some (ret, s) else do { dev \<leftarrow> d_devs s a; t \<leftarrow> sd_tracing_ops dev; to \<leftarrow> d_trops s t;
            tracer_transition_tracing E C a b (if USE_HOOK_TRACER C then None else Some (Tracking_Ops (to_bd_ops to))) i True s }) = Some (r, s')"
        using assms True bd 1 r1 d1 by (simp add: setup_tracing_steps_def)
      then obtain r2 s2 where 2: "(if sd_tracing_ops dev1 = None then tracer_alloc_ops E C a s1 else Some (0, s1)) = Some (r2, s2)"
        by (auto split: bind_splits)
      have k2: "tables_only a s s2"
        using 2 k1 tables_only_trans[OF k1 tracer_alloc_ops_only[OF _ d1]] by (auto split: if_splits)
      show ?thesis
      proof (cases "r2 = 0")
        case False
        then show ?thesis using tr 2 k2 by auto
      next
        case True
        then have "\<exists>b p. tracer_transition_tracing E C a b p i True s2 = Some (r, s')" using tr 2 by (auto split: bind_splits)
        then show ?thesis using k2 by blast
      qed
    qed
  qed
  then show ?thesis
  proof (elim exE conjE disjE)
    fix s1 assume "tables_only a s s1" "r \<noteq> 0" "s' = s1"
    moreover have "s1 = s1\<lparr>d_world := d_world s1\<rparr>" by simp
    ultimately show ?thesis by blast
  next
    fix s1 b p assume "tables_only a s s1" "tracer_transition_tracing E C a b p i True s1 = Some (r, s')"
    then show ?thesis using transition_start by blast
  qed
qed


text \<open>Device \<open>a\<close> takes slot \<open>i\<close>.\<close>

definition takes :: "sysenv \<Rightarrow> addr \<Rightarrow> nat \<Rightarrow> drv \<Rightarrow> drv \<Rightarrow> bool" where
  "takes E a i s s' \<longleftrightarrow> (\<exists>s1 dev'. owns E a s s1 \<and> snap_devices s' = (snap_devices s)[i := Some a] \<and>
     (ranged E s \<longrightarrow> i < max_snap_devices E \<longrightarrow> ranged E s') \<and> d_next s' = d_next s1 \<and> bdev_refs s' = bdev_refs s1 \<and>
     d_cows s' = d_cows s1 \<and> d_devs s' = (d_devs s1)(a \<mapsto> dev') \<and> sd_minor dev' = i \<and>
     (\<forall>dev1. d_devs s1 a = Some dev1 \<longrightarrow> sd_base_dev dev' = sd_base_dev dev1 \<and> sd_cow dev' = sd_cow dev1 \<and> sd_state dev' = sd_state dev1) \<and>
     (\<forall>dev dev1. d_devs s a = Some dev \<longrightarrow> d_devs s1 a = Some dev1 \<longrightarrow> sd_state dev1 = sd_state dev))"

lemma ranged_set: "ranged E s \<Longrightarrow> lowest_minor s \<le> i \<Longrightarrow> i \<le> highest_minor s \<Longrightarrow> snap_devices s' = (snap_devices s)[i := Some a] \<Longrightarrow>
   lowest_minor s' = lowest_minor s \<Longrightarrow> highest_minor s' = highest_minor s \<Longrightarrow> ranged E s'"
  by (auto simp: ranged_def slot_def nth_list_update split: if_splits)

lemma tracer_setup_tracing_exact:
  assumes "tracer_setup_tracing E C a i s = Some (r, s')" "d_devs s a = Some dev" "sd_tracing_ops dev = None \<or> \<not> USE_BDOPS_SUBMIT_BIO C"
    and i: "i < max_snap_devices E" and R: "ranged E s"
  shows "\<exists>dev'. d_devs s' = (d_devs s)(a \<mapsto> dev') \<and> d_next s \<le> d_next s' \<and> bdev_refs s' = bdev_refs s \<and> d_cows s' = d_cows s \<and>
     sd_base_dev dev' = sd_base_dev dev \<and> sd_cow dev' = sd_cow dev \<and> sd_state dev' = sd_state dev \<and> ranged E s' \<and>
     (if r = 0 then snap_devices s' = (snap_devices s)[i := Some a] \<and> sd_minor dev' = i
      else snap_devices s' = snap_devices s \<and> sd_minor dev' = 0 \<and> sd_orig_request_fn dev' = None)"
proof -
  let ?s0 = "minor_range_include i (s\<lparr>d_devs := (d_devs s)(a \<mapsto> dev\<lparr>sd_minor := i\<rparr>)\<rparr>)"
  obtain r1 s2 where 1: "setup_tracing_steps E C a i ?s0 = Some (r1, s2)"
    and 2: "if r1 \<noteq> 0 then r = r1 \<and> (\<exists>s3. upd_dev a (\<lambda>dev. dev\<lparr>sd_minor := 0, sd_orig_request_fn := None\<rparr>) s2 = Some s3 \<and>
        s' = minor_range_recalculate E s3) else r = 0 \<and> s' = s2"
    using assms(1,2) by (auto simp: tracer_setup_tracing_def upd_dev_def Let_def split: bind_splits if_splits)
  have d0: "d_devs ?s0 a = Some (dev\<lparr>sd_minor := i\<rparr>)" by (simp add: minor_range_include_def)
  from setup_tracing_steps_ok[OF 1 d0] assms(3) obtain s1 where t: "tables_only a ?s0 s1"
    and o: "r1 \<noteq> 0 \<and> (\<exists>w. s2 = s1\<lparr>d_world := w\<rparr>) \<or> r1 = 0 \<and> retraced i (Some a) a 1 s1 s2" by auto
  obtain dev1 where d1: "d_devs s1 = (d_devs ?s0)(a \<mapsto> dev1)" "same_table ?s0 s1" "d_next ?s0 \<le> d_next s1"
    "sd_base_dev dev1 = sd_base_dev dev" "sd_cow dev1 = sd_cow dev" "place dev1 = place (dev\<lparr>sd_minor := i\<rparr>)"
    "bdev_refs s1 = bdev_refs ?s0" "d_cows s1 = d_cows ?s0"
    using t d0 unfolding tables_only_def by auto
  have R0: "ranged E ?s0" using ranged_include[OF ranged_cong[OF _ _ _ R, of "s\<lparr>d_devs := (d_devs s)(a \<mapsto> dev\<lparr>sd_minor := i\<rparr>)\<rparr>"] i] by simp
  have R1: "ranged E s1" by (rule ranged_cong[OF _ _ _ R0]) (use d1(2) in \<open>simp_all add: same_table_def\<close>)
  have in1: "lowest_minor s1 \<le> i" "i \<le> highest_minor s1" using d1(2) by (auto simp: same_table_def minor_range_include_def)
  have f0: "snap_devices s1 = snap_devices s" "d_next s \<le> d_next s1" "bdev_refs s1 = bdev_refs s" "d_cows s1 = d_cows s"
    "d_devs s1 = (d_devs s)(a \<mapsto> dev1)"
    using d1 by (auto simp: same_table_def minor_range_include_def)
  show ?thesis
  proof (cases "r1 = 0")
    case True
    then have rt: "retraced i (Some a) a 1 s1 s'" and r: "r = 0" using o 2 by auto
    from rt obtain dev2 where d2: "dev2 = dev1\<lparr>sd_active := sd_active dev1 + 1\<rparr>" "d_devs s' = (d_devs s1)(a \<mapsto> dev2)"
      "snap_devices s' = (snap_devices s1)[i := Some a]" "lowest_minor s' = lowest_minor s1" "highest_minor s' = highest_minor s1"
      "bdev_refs s' = bdev_refs s1" "d_next s' = d_next s1" "d_cows s' = d_cows s1"
      using f0(5) unfolding retraced_def by auto
    have "ranged E s'" by (rule ranged_set[OF R1 in1 d2(3-5)])
    then show ?thesis using r d2 f0 d1(4-6) by (intro exI[of _ dev2]) (auto simp: place_def)
  next
    case False
    with o obtain w where s2: "s2 = s1\<lparr>d_world := w\<rparr>" by auto
    from False 2 obtain s3 where u: "upd_dev a (\<lambda>dev. dev\<lparr>sd_minor := 0, sd_orig_request_fn := None\<rparr>) s2 = Some s3"
      and s': "s' = minor_range_recalculate E s3" "r \<noteq> 0" by auto
    have s3: "s3 = s1\<lparr>d_world := w, d_devs := (d_devs s1)(a \<mapsto> dev1\<lparr>sd_minor := 0, sd_orig_request_fn := None\<rparr>)\<rparr>"
      using u s2 f0(5) by (auto simp: upd_dev_def)
    have "ranged E s'" unfolding s'(1) using R f0(1) by (intro recalculate_range(1)) (auto simp: s3 ranged_def)
    then show ?thesis using s' s3 f0 d1(4-6) by (intro exI[of _ "dev1\<lparr>sd_minor := 0, sd_orig_request_fn := None\<rparr>"]) (auto simp: place_def)
  qed
qed

lemma tracer_setup_tracing_ok:
  assumes "tracer_setup_tracing E C a i s = Some (r, s')" "d_devs s a = Some dev" "sd_tracing_ops dev = None \<or> \<not> USE_BDOPS_SUBMIT_BIO C"
    and i: "i < max_snap_devices E" and R: "ranged E s"
  shows "(r \<noteq> 0 \<longrightarrow> owns E a s s' \<and> (\<exists>dev'. d_devs s' a = Some dev' \<and> sd_minor dev' = 0 \<and> sd_orig_request_fn dev' = None)) \<and>
    (r = 0 \<longrightarrow> takes E a i s s')"
proof -
  from tracer_setup_tracing_exact[OF assms] obtain dev' where d: "d_devs s' = (d_devs s)(a \<mapsto> dev')" "d_next s \<le> d_next s'"
     "bdev_refs s' = bdev_refs s" "d_cows s' = d_cows s" "sd_base_dev dev' = sd_base_dev dev" "sd_cow dev' = sd_cow dev"
     "sd_state dev' = sd_state dev" "ranged E s'"
     "if r = 0 then snap_devices s' = (snap_devices s)[i := Some a] \<and> sd_minor dev' = i
      else snap_devices s' = snap_devices s \<and> sd_minor dev' = 0 \<and> sd_orig_request_fn dev' = None"
    by blast
  let ?s1 = "s'\<lparr>snap_devices := snap_devices s, lowest_minor := lowest_minor s, highest_minor := highest_minor s\<rparr>"
  have o: "owns E a s ?s1" by (rule ownsI[OF assms(2), of _ dev']) (use d in \<open>auto simp: same_table_def\<close>)
  have "takes E a i s s'" if "r = 0"
    unfolding takes_def by (rule exI[of _ ?s1], rule exI[of _ dev']) (use o d that assms(2) in auto)
  moreover have "owns E a s s'" if "r \<noteq> 0" using that o d by (auto simp: owns_def)
  ultimately show ?thesis using d by auto
qed

subsection \<open>Destroying a device that is not traced\<close>

definition released :: "snap_device \<Rightarrow> bool" where
  "released dev \<longleftrightarrow> sd_base_dev dev = None \<and> sd_cow dev = None"

lemma owns_recalculate:
  assumes "owns E a s s1" "length (snap_devices s) = max_snap_devices E" "0 < max_snap_devices E"
  shows "owns E a s (minor_range_recalculate E s1)"
  using assms recalculate_range(1)[of s1 E] by (auto simp: owns_def)

lemma destroy_tracing_untraced:
  assumes "tracer_destroy_tracing E K C a s = Some s'" "d_devs s a = Some dev" "sd_orig_request_fn dev = None"
    and "slot s (sd_minor dev) \<noteq> Some a" "ranged E s"
  shows "owns E a s s' \<and> (\<exists>d. d_devs s' a = Some d \<and> sd_orig_request_fn d = None)"
proof -
  from assms obtain s1 where u: "upd_dev a (\<lambda>dev. dev\<lparr>sd_minor := 0\<rparr>) s = Some s1" and s': "s' = minor_range_recalculate E s1"
    by (auto simp: tracer_destroy_tracing_def split: bind_splits)
  have "owns E a s s1" using u assms(2) by (intro ownsI[OF assms(2), of _ "dev\<lparr>sd_minor := 0\<rparr>"]) (auto simp: upd_dev_def same_table_def)
  then have "owns E a s s'" unfolding s' by (rule owns_recalculate) (use assms(5) in \<open>auto simp: ranged_def\<close>)
  then show ?thesis using u assms(2,3) s' by (auto simp: upd_dev_def)
qed

lemma tracer_destroy_rest:
  assumes "do { s \<leftarrow> tracer_destroy_cow_thread E K a s; s \<leftarrow> tracer_destroy_snap E C a s; s \<leftarrow> tracer_destroy_cow_path a s;
      (_, s) \<leftarrow> tracer_destroy_cow K a 0 s; tracer_destroy_base_dev a s } = Some s'"
  shows "keeps E a s s'" "\<exists>dev'. d_devs s' a = Some dev' \<and> released dev'"
proof -
  from assms obtain s1 s2 s3 r s4 where st: "tracer_destroy_cow_thread E K a s = Some s1" "tracer_destroy_snap E C a s1 = Some s2"
    "tracer_destroy_cow_path a s2 = Some s3" "tracer_destroy_cow K a 0 s3 = Some (r, s4)" "tracer_destroy_base_dev a s4 = Some s'"
    by (auto split: bind_splits)
  note k = quiet_keeps[OF tracer_destroy_cow_thread_quiet[OF st(1)]] quiet_keeps[OF tracer_destroy_snap_quiet[OF st(2)]] tracer_destroy_cow_path_keeps[OF st(3)]
    tracer_destroy_cow_keeps[OF st(4)] tracer_destroy_base_dev_keeps[OF st(5)]
  show "keeps E a s s'" by (rule keeps_trans[OF keeps_trans[OF keeps_trans[OF k(1,2)] k(3)] keeps_trans[OF k(4,5)]])
  obtain dev3 dev4 where "d_devs s4 = (d_devs s3)(a \<mapsto> dev4)" "sd_cow dev4 = None"
    using st(4) by (auto elim!: tracer_destroy_cow_cases)
  then show "\<exists>dev'. d_devs s' a = Some dev' \<and> released dev'"
    using st(5) by (auto elim!: tracer_destroy_base_dev_cases simp: released_def)
qed

lemma tracer_destroy_untraced:
  assumes "tracer_destroy E K C a s = Some s'" "d_devs s a = Some dev" "sd_orig_request_fn dev = None"
    and "slot s (sd_minor dev) \<noteq> Some a" "ranged E s"
  shows "owns E a s s' \<and> (\<exists>dev'. d_devs s' a = Some dev' \<and> released dev' \<and> sd_orig_request_fn dev' = None)"
proof -
  from assms(1) obtain s1 where 1: "tracer_destroy_tracing E K C a s = Some s1"
    and 2: "do { s \<leftarrow> tracer_destroy_cow_thread E K a s1; s \<leftarrow> tracer_destroy_snap E C a s; s \<leftarrow> tracer_destroy_cow_path a s;
      (_, s) \<leftarrow> tracer_destroy_cow K a 0 s; tracer_destroy_base_dev a s } = Some s'"
    by (auto simp: tracer_destroy_def split: bind_splits)
  note k = tracer_destroy_rest(1)[OF 2]
  from destroy_tracing_untraced[OF 1 assms(2-)] have o: "owns E a s s1" and f: "\<exists>d. d_devs s1 a = Some d \<and> sd_orig_request_fn d = None" by auto
  from f keeps_core[OF k] obtain d' where "d_devs s' a = Some d'" "sd_orig_request_fn d' = None" by (auto simp: core_def)
  then show ?thesis using owns_trans[OF o keeps_owns[OF k]] tracer_destroy_rest(2)[OF 2] by auto
qed

subsection \<open>Setting a device up\<close>

text \<open>A device that is nowhere in the array and holds nothing.\<close>

definition loose :: "addr \<Rightarrow> drv \<Rightarrow> bool" where
  "loose a s \<longleftrightarrow> (\<forall>i. slot s i \<noteq> Some a) \<and> (\<exists>dev. d_devs s a = Some dev \<and> released dev \<and>
     sd_orig_request_fn dev = None \<and> sd_tracing_ops dev = None)"

lemma takes_from:
  assumes "keeps E a s s1" "takes E a i s1 s'" "ranged E s"
  shows "takes E a i s s'"
proof -
  have r: "ranged E s1" "snap_devices s1 = snap_devices s" using assms(1,3) by (auto simp: keeps_def owns_def)
  obtain dev dev1 where c: "d_devs s a = Some dev" "d_devs s1 a = Some dev1" "sd_state dev1 = sd_state dev"
    using assms(1) by (auto simp: keeps_def owns_def core_def)
  from assms(2) obtain s2 dev' where t: "owns E a s1 s2" "snap_devices s' = (snap_devices s1)[i := Some a]"
     "ranged E s1 \<longrightarrow> i < max_snap_devices E \<longrightarrow> ranged E s'" "d_next s' = d_next s2" "bdev_refs s' = bdev_refs s2"
     "d_cows s' = d_cows s2" "d_devs s' = (d_devs s2)(a \<mapsto> dev')" "sd_minor dev' = i"
     "\<forall>dev1. d_devs s2 a = Some dev1 \<longrightarrow> sd_base_dev dev' = sd_base_dev dev1 \<and> sd_cow dev' = sd_cow dev1 \<and> sd_state dev' = sd_state dev1"
     "\<forall>dev dev1. d_devs s1 a = Some dev \<longrightarrow> d_devs s2 a = Some dev1 \<longrightarrow> sd_state dev1 = sd_state dev"
    unfolding takes_def by blast
  have st: "sd_state dev2 = sd_state d" if "d_devs s a = Some d" "d_devs s2 a = Some dev2" for d dev2
    using t(10)[rule_format, OF c(2) that(2)] c(1,3) that(1) by simp
  show ?thesis unfolding takes_def
    by (rule exI[of _ s2], rule exI[of _ dev'], intro conjI allI impI)
      (rule owns_trans[OF keeps_owns[OF assms(1)] t(1)] t(4-8) st conjunct1[OF t(9)[rule_format]]
        conjunct1[OF conjunct2[OF t(9)[rule_format]]] conjunct2[OF conjunct2[OF t(9)[rule_format]]] t(3)[rule_format, OF r(1)]
        | simp add: t(2) r(2) | assumption)+
qed

lemma setup_then_destroy:
  assumes r: "\<And>ret s1. steps = Some (ret, s1) \<Longrightarrow> keeps E a s s1"
    and e: "do { (ret, s) \<leftarrow> and_then steps (tracer_setup_tracing E C a i);
        if ret \<noteq> 0 then do { s \<leftarrow> tracer_destroy E K C a s; Some (ret, s) } else Some (0, s) } = Some (ret, s')"
    and l: "loose a s" and i: "i < max_snap_devices E" and R: "ranged E s"
  shows "(ret \<noteq> 0 \<longrightarrow> owns E a s s' \<and> (\<exists>dev'. d_devs s' a = Some dev' \<and> released dev' \<and> sd_orig_request_fn dev' = None)) \<and> (ret = 0 \<longrightarrow> takes E a i s s')"
proof -
  from e obtain r1 s1 where 1: "and_then steps (tracer_setup_tracing E C a i) = Some (r1, s1)"
    and 2: "if r1 \<noteq> 0 then ret = r1 \<and> tracer_destroy E K C a s1 = Some s' else ret = 0 \<and> s' = s1"
    by (auto split: bind_splits if_splits)
  obtain dev where d: "d_devs s a = Some dev" "sd_orig_request_fn dev = None" "sd_tracing_ops dev = None"
    using l by (auto simp: loose_def)
  have gone: "owns E a s s' \<and> (\<exists>dev'. d_devs s' a = Some dev' \<and> released dev' \<and> sd_orig_request_fn dev' = None)"
    if "owns E a s s1" "d_devs s1 a = Some dev1" "sd_orig_request_fn dev1 = None" "r1 \<noteq> 0" for dev1
  proof -
    have "ranged E s1" "snap_devices s1 = snap_devices s" using that(1) R by (auto simp: owns_def)
    moreover have "\<forall>i. slot s1 i \<noteq> Some a" using l slot_cong[OF calculation(2)] by (simp add: loose_def)
    ultimately show ?thesis using tracer_destroy_untraced[of E K C a s1 s' dev1] 2 that owns_trans[OF that(1)] by auto
  qed
  from 1 show ?thesis
  proof (cases rule: and_then_cases)
    case stop
    note k = r[OF stop(1)]
    then obtain dev1 where "d_devs s1 a = Some dev1" "core dev1 = core dev" using keeps_core d(1) by blast
    then show ?thesis using gone[OF keeps_owns[OF k]] stop(2) 2 d(2) by (auto simp: core_def)
  next
    case (go s0)
    note k = r[OF go(1)]
    then obtain dev0 where d0: "d_devs s0 a = Some dev0" "core dev0 = core dev" using keeps_core d(1) by blast
    have R0: "ranged E s0" using k R by (auto simp: keeps_def owns_def)
    have "sd_tracing_ops dev0 = None \<or> \<not> USE_BDOPS_SUBMIT_BIO C" using d0(2) d(3) by (simp add: core_def)
    note t = tracer_setup_tracing_ok[OF go(2) d0(1) this i R0]
    show ?thesis
    proof (cases "r1 = 0")
      case True
      then show ?thesis using 2 t takes_from[OF k _ R] by auto
    next
      case False
      with t obtain dev1 where "owns E a s0 s1" "d_devs s1 a = Some dev1" "sd_orig_request_fn dev1 = None" by blast
      then show ?thesis using gone[OF owns_trans[OF keeps_owns[OF k]]] False 2 by auto
    qed
  qed
qed

end
