(* ===== verification/Drv_Table.thy ===== *)
theory Drv_Table
  imports Setup
begin

text \<open>
  The invariant of the whole driver between two operations, and the rule that one changed device keeps it.
\<close>

subsection \<open>The array at rest\<close>

text \<open>
  Between two operations: the minor range covers the slots in use, slots and live devices correspond one to one up to strays, new addresses are
  unused, no two devices share a manager, unverified devices hold nothing, and every reference to a block device is held by exactly one device.
\<close>

text \<open>
  A device that is not verified yet holds nothing; one whose activation failed may keep the operation table
  it had allocated, and is never activated again.
\<close>

definition idle :: "snap_device \<Rightarrow> bool" where
  "idle dev \<longleftrightarrow> released dev \<and> sd_orig_request_fn dev = None \<and> \<not> test_bit ACTIVE (sd_state dev) \<and>
     (sd_fail_code dev = 0 \<longrightarrow> sd_tracing_ops dev = None)"

text \<open>
  A device that lost its slot: its activation failed, and there was no memory to put it back as unverified. It
  holds nothing, and nothing will find it again.
\<close>

definition stray :: "snap_device \<Rightarrow> bool" where
  "stray dev \<longleftrightarrow> released dev \<and> sd_orig_request_fn dev = None \<and> sd_fail_code dev \<noteq> 0"

text \<open>
  An operation under way may hold references besides: \<open>r x\<close> of them to block device \<open>x\<close>. At rest there are none.
\<close>

definition drv_lent :: "(nat \<Rightarrow> int) \<Rightarrow> sysenv \<Rightarrow> drv \<Rightarrow> bool" where
  "drv_lent r E s \<longleftrightarrow> ranged E s \<and>
     (\<forall>i a. slot s i = Some a \<longrightarrow> (\<exists>dev. d_devs s a = Some dev \<and> sd_minor dev = i)) \<and>
     (\<forall>a dev. d_devs s a = Some dev \<longrightarrow> a < d_next s \<and> (slot s (sd_minor dev) = Some a \<or> stray dev) \<and> (\<forall>c. sd_cow dev = Some c \<longrightarrow> c < d_next s)) \<and>
     (\<forall>a b da db c. d_devs s a = Some da \<longrightarrow> d_devs s b = Some db \<longrightarrow> sd_cow da = Some c \<longrightarrow> sd_cow db = Some c \<longrightarrow> a = b) \<and>
     (\<forall>a dev. d_devs s a = Some dev \<longrightarrow> test_bit UNVERIFIED (sd_state dev) \<longrightarrow> idle dev \<or> stray dev) \<and>
     (\<forall>x. bdev_refs s x = r x + (\<Sum>a < d_next s. case d_devs s a of None \<Rightarrow> 0 | Some dev \<Rightarrow> held dev x))"

abbreviation drv_ok :: "sysenv \<Rightarrow> drv \<Rightarrow> bool" where
  "drv_ok E s \<equiv> drv_lent (\<lambda>_. 0) E s"

lemma drv_okD:
  assumes "drv_lent r E s"
  shows "ranged E s" "slot s i = Some a \<Longrightarrow> \<exists>dev. d_devs s a = Some dev \<and> sd_minor dev = i"
    "d_devs s a = Some dev \<Longrightarrow> a < d_next s" "d_devs s a = Some dev \<Longrightarrow> slot s (sd_minor dev) = Some a \<or> stray dev"
    "d_devs s a = Some dev \<Longrightarrow> sd_cow dev = Some c \<Longrightarrow> c < d_next s"
    "d_devs s a = Some dev \<Longrightarrow> d_devs s b = Some dev' \<Longrightarrow> sd_cow dev = Some c \<Longrightarrow> sd_cow dev' = Some c \<Longrightarrow> a = b"
    "bdev_refs s x = r x + (\<Sum>a < d_next s. case d_devs s a of None \<Rightarrow> 0 | Some dev \<Rightarrow> held dev x)"
    "d_devs s a = Some dev \<Longrightarrow> test_bit UNVERIFIED (sd_state dev) \<Longrightarrow> idle dev \<or> stray dev"
  using assms by (simp_all add: drv_lent_def)

lemma sum_update:
  fixes n :: nat and f g :: "nat \<Rightarrow> int"
  assumes "n \<le> m" "a < m" "\<And>b. b < n \<Longrightarrow> b \<noteq> a \<Longrightarrow> g b = f b" "\<And>b. n \<le> b \<Longrightarrow> b < m \<Longrightarrow> b \<noteq> a \<Longrightarrow> g b = 0" "n \<le> a \<Longrightarrow> f a = 0"
  shows "sum g {..<m} = sum f {..<n} - f a + g a"
proof -
  have "sum g {..<m} = g a + sum g ({..<m} - {a})" using assms(2) by (simp add: sum.remove)
  also have "sum g ({..<m} - {a}) = sum g ({..<n} - {a})"
  proof (rule sum.mono_neutral_right)
    show "\<forall>i \<in> {..<m} - {a} - ({..<n} - {a}). g i = 0" using assms(4) by (auto simp del: not_less simp add: not_less[symmetric])
  qed (use assms(1) in auto)
  also have "\<dots> = sum f ({..<n} - {a})" by (rule sum.cong) (use assms(3) in auto)
  also have "\<dots> = sum f {..<n} - f a"
    using assms(5) by (cases "a < n") (simp_all add: sum_diff1)
  finally show ?thesis by simp
qed


definition held_by :: "snap_device option \<Rightarrow> nat \<Rightarrow> int" where
  "held_by v x = (case v of None \<Rightarrow> 0 | Some dev \<Rightarrow> held dev x)"

text \<open>One device is put in slot \<open>i\<close>, changed there, or taken out: the rule the commands are proved with.\<close>

lemma drv_ok_change:
  assumes "drv_lent r E s" "ranged E s'" "d_next s \<le> d_next s'" "d_devs s' = (d_devs s)(a := v)" "a < d_next s'"
    and sl: "\<And>j. slot s' j = (if j = i then t else slot s j)"
    and old: "slot s i = Some a \<or> slot s i = None \<and> d_devs s a = None"
    and new: "t = None \<and> (\<forall>dev'. v = Some dev' \<longrightarrow> stray dev') \<or> t = Some a \<and> (\<exists>dev'. v = Some dev' \<and> sd_minor dev' = i)"
      "\<And>dev' c. v = Some dev' \<Longrightarrow> sd_cow dev' = Some c \<Longrightarrow> c < d_next s'"
      "\<And>dev' b db. v = Some dev' \<Longrightarrow> b \<noteq> a \<Longrightarrow> d_devs s b = Some db \<Longrightarrow> sd_cow dev' \<noteq> None \<Longrightarrow> sd_cow db \<noteq> sd_cow dev'"
      "\<And>dev'. v = Some dev' \<Longrightarrow> test_bit UNVERIFIED (sd_state dev') \<Longrightarrow> idle dev' \<or> stray dev'"
    and refs: "\<And>x. bdev_refs s' x = bdev_refs s x - held_by (d_devs s a) x + held_by v x"
  shows "drv_lent r E s'"
proof -
  note ok = drv_okD[OF assms(1)]
  have c1: "\<exists>dev. d_devs s' b = Some dev \<and> sd_minor dev = j" if "slot s' j = Some b" for j b
  proof (cases "j = i")
    case True
    with that sl[of i] new(1) show ?thesis using assms(4) by auto
  next
    case False
    with that sl[of j] have "slot s j = Some b" by simp
    with ok(2) obtain dev where d: "d_devs s b = Some dev" "sd_minor dev = j" by blast
    then have "b \<noteq> a" using old ok(2)[of i a] False by auto
    then show ?thesis using d assms(4) by auto
  qed
  have c2: "b < d_next s' \<and> (slot s' (sd_minor dev) = Some b \<or> stray dev) \<and> (\<forall>c. sd_cow dev = Some c \<longrightarrow> c < d_next s')" if d: "d_devs s' b = Some dev" for b dev
  proof (cases "b = a")
    case True
    with d assms(4) have v: "v = Some dev" by simp
    show ?thesis using new(1) new(2)[OF v] assms(5) sl[of i] v True by auto
  next
    case False
    then have d': "d_devs s b = Some dev" using d assms(4) by simp
    have "slot s' (sd_minor dev) = Some b \<or> stray dev" using ok(4)[OF d'] sl[of "sd_minor dev"] old False by auto
    then show ?thesis using ok(3)[OF d'] less_le_trans[OF ok(5)[OF d'] assms(3)] assms(3) by auto
  qed
  have c3: "p = q" if "d_devs s' p = Some dp" "d_devs s' q = Some dq" "sd_cow dp = Some c" "sd_cow dq = Some c" for p q dp dq c
  proof -
    have *: "q = a" if "p = a" "d_devs s' p = Some dp" "d_devs s' q = Some dq" "sd_cow dp = Some c" "sd_cow dq = Some c" for p q dp dq
    proof (rule ccontr)
      assume "q \<noteq> a"
      then have q: "d_devs s q = Some dq" using that(3) assms(4) by simp
      have "v = Some dp" using that(1,2) assms(4) by simp
      from new(3)[OF this \<open>q \<noteq> a\<close> q] that(4,5) show False by simp
    qed
    show ?thesis
    proof (cases "p = a \<or> q = a")
      case True
      then show ?thesis using *[OF _ that] *[OF _ that(2,1,4,3)] by blast
    next
      case False
      then have "d_devs s p = Some dp" "d_devs s q = Some dq" using that(1,2) assms(4) by simp_all
      then show ?thesis using that(3,4) by (rule ok(6))
    qed
  qed
  have c5: "idle dev \<or> stray dev" if "d_devs s' b = Some dev" "test_bit UNVERIFIED (sd_state dev)" for b dev
    using that new(4) ok(8)[of b dev] assms(4) by (cases "b = a") auto
  have c4: "bdev_refs s' x = r x + (\<Sum>b < d_next s'. held_by (d_devs s' b) x)" for x
  proof -
    have none: "held_by (d_devs s b) x = 0" if "d_next s \<le> b" for b
      using ok(3)[of b] that by (cases "d_devs s b") (auto simp: held_by_def)
    have "(\<Sum>b < d_next s'. held_by (d_devs s' b) x) = (\<Sum>b < d_next s. held_by (d_devs s b) x) - held_by (d_devs s a) x + held_by (d_devs s' a) x"
      by (rule sum_update) (use assms(3-5) none in auto)
    then show ?thesis using refs[of x] ok(7)[of x] assms(4) by (simp add: held_by_def)
  qed
  show ?thesis unfolding drv_lent_def
    by (intro conjI allI impI) (use assms(2) c1 c2 c3 c5 c4[unfolded held_by_def] in blast)+
qed


lemma drv_ok_update:
  assumes "drv_lent r E s" "ranged E s'" "d_next s \<le> d_next s'" "d_devs s' = (d_devs s)(a := v)" "a < d_next s'"
    and sl: "\<And>j. slot s' j = (if j = i then t else slot s j)"
    and old: "slot s i = Some a \<or> slot s i = None \<and> d_devs s a = None"
    and new: "t = None \<and> (\<forall>dev'. v = Some dev' \<longrightarrow> stray dev') \<or> t = Some a \<and> (\<exists>dev'. v = Some dev' \<and> sd_minor dev' = i)"
      "\<And>dev' c. v = Some dev' \<Longrightarrow> sd_cow dev' = Some c \<Longrightarrow> c < d_next s' \<and> (d_next s \<le> c \<or> (\<exists>dev. d_devs s a = Some dev \<and> sd_cow dev = Some c))"
      "\<And>dev'. v = Some dev' \<Longrightarrow> test_bit UNVERIFIED (sd_state dev') \<Longrightarrow> idle dev' \<or> stray dev'"
    and refs: "\<And>x. bdev_refs s' x = bdev_refs s x - held_by (d_devs s a) x + held_by v x"
  shows "drv_lent r E s'"
proof (rule drv_ok_change[OF assms(1-5) sl old new(1) _ _ new(3) refs])
  show "sd_cow db \<noteq> sd_cow dev'" if v: "v = Some dev'" and b: "b \<noteq> a" "d_devs s b = Some db" and c: "sd_cow dev' \<noteq> None" for dev' b db
  proof
    assume e: "sd_cow db = sd_cow dev'"
    with c obtain c where c': "sd_cow dev' = Some c" by blast
    from new(2)[OF v c'] drv_okD(5)[OF assms(1) b(2)] c' e obtain dev where "d_devs s a = Some dev" "sd_cow dev = Some c" by auto
    from drv_okD(6)[OF assms(1) this(1) b(2) this(2)] c' e b(1) show False by simp
  qed
qed (use new(2) in auto)

end
