(* ===== verification/Drv_Setup.thy ===== *)
theory Drv_Setup
  imports Drv_Table Cow_Life Tracing_Lemmas
begin

text \<open>
  The effect of the setup command on the whole driver: it places one new device in a free slot, or it changes no
  slot, no device, no reference and no manager.
\<close>

subsection \<open>From the frames to net effects\<close>

text \<open>A new device in slot \<open>i\<close> in state \<open>st\<close>, with the references and the manager it holds.\<close>

definition placed :: "sysenv \<Rightarrow> addr \<Rightarrow> nat \<Rightarrow> u64 \<Rightarrow> addr option \<Rightarrow> drv \<Rightarrow> drv \<Rightarrow> bool" where
  "placed E a i st ops s s' \<longleftrightarrow> (\<exists>dev'. snap_devices s' = (snap_devices s)[i := Some a] \<and> ranged E s' \<and> d_next s \<le> d_next s' \<and>
     d_devs s' = (d_devs s)(a \<mapsto> dev') \<and> sd_minor dev' = i \<and> sd_state dev' = st \<and>
     (\<forall>x. bdev_refs s' x = bdev_refs s x + held dev' x) \<and> (\<forall>c < d_next s. d_cows s' c = d_cows s c) \<and>
     (\<forall>c. sd_cow dev' = Some c \<longrightarrow> d_next s \<le> c \<and> c < d_next s') \<and> (test_bit UNVERIFIED st \<longrightarrow> released dev' \<and> sd_orig_request_fn dev' = None \<and> sd_tracing_ops dev' = ops))"

text \<open>Nothing changed but device \<open>a\<close>, which holds nothing.\<close>

definition undone :: "sysenv \<Rightarrow> addr \<Rightarrow> drv \<Rightarrow> drv \<Rightarrow> bool" where
  "undone E a s s' \<longleftrightarrow> (\<exists>dev'. snap_devices s' = snap_devices s \<and> ranged E s' \<and> d_next s \<le> d_next s' \<and>
     d_devs s' = (d_devs s)(a \<mapsto> dev') \<and> released dev' \<and> sd_orig_request_fn dev' = None \<and> bdev_refs s' = bdev_refs s \<and> (\<forall>c < d_next s. d_cows s' c = d_cows s c))"

lemma owns_undone:
  assumes "owns E a s s'" "d_devs s a = Some dev" "released dev" "d_devs s' a = Some dev'" "released dev'" "ranged E s" "sd_orig_request_fn dev' = None"
  shows "undone E a s s'"
proof -
  have "d_devs s' = (d_devs s)(a \<mapsto> dev')" using assms(1,4) by (intro ext) (auto simp: owns_def)
  moreover have "bdev_refs s' = bdev_refs s" using assms(1-5) by (intro ext) (auto simp: owns_def held_def released_def)
  ultimately show ?thesis using assms(1-7) unfolding undone_def owns_def by (intro exI[of _ dev']) (auto simp: released_def)
qed

lemma takes_placed:
  assumes "takes E a i s s'" "d_devs s a = Some dev" "released dev" "ranged E s" "i < max_snap_devices E" "\<not> test_bit UNVERIFIED (sd_state dev)"
  shows "placed E a i (sd_state dev) ops s s'"
proof -
  from assms(1) obtain s1 dev' where o: "owns E a s s1" and t: "snap_devices s' = (snap_devices s)[i := Some a]"
     "ranged E s \<longrightarrow> i < max_snap_devices E \<longrightarrow> ranged E s'" "d_next s' = d_next s1" "bdev_refs s' = bdev_refs s1"
     "d_cows s' = d_cows s1" "d_devs s' = (d_devs s1)(a \<mapsto> dev')" "sd_minor dev' = i"
     "\<forall>dev1. d_devs s1 a = Some dev1 \<longrightarrow> sd_base_dev dev' = sd_base_dev dev1 \<and> sd_cow dev' = sd_cow dev1 \<and> sd_state dev' = sd_state dev1"
     "\<forall>dev dev1. d_devs s a = Some dev \<longrightarrow> d_devs s1 a = Some dev1 \<longrightarrow> sd_state dev1 = sd_state dev"
    unfolding takes_def by blast
  obtain dev1 where d1: "d_devs s1 a = Some dev1" "\<forall>x. bdev_refs s1 x - held dev1 x = bdev_refs s x - held dev x"
    "\<forall>c < d_next s. sd_cow dev \<noteq> Some c \<longrightarrow> d_cows s1 c = d_cows s c" "sd_cow dev1 = None \<or> sd_cow dev1 = sd_cow dev \<or> (\<exists>c. d_next s \<le> c \<and> c < d_next s1 \<and> sd_cow dev1 = Some c)"
    using o assms(2) by (auto simp: owns_def)
  have e: "d_devs s' = (d_devs s)(a \<mapsto> dev')" using o t(6) by (intro ext) (auto simp: owns_def)
  have f: "sd_base_dev dev' = sd_base_dev dev1" "sd_cow dev' = sd_cow dev1" "sd_state dev' = sd_state dev"
    using t(8)[rule_format, OF d1(1)] t(9)[rule_format, OF assms(2) d1(1)] by simp_all
  have r: "bdev_refs s' x = bdev_refs s x + held dev' x" for x
    using d1(2)[rule_format, of x] assms(3) by (simp add: t(4) held_def f(1) released_def algebra_simps)
  show ?thesis unfolding placed_def
    by (rule exI[of _ dev'], intro conjI)
      (use t(1-3,5,7) e f(2,3) r d1(3,4) o assms(3-6) in \<open>auto simp: owns_def released_def\<close>)
qed

subsection \<open>The setup functions\<close>

lemma snapshot_steps_keeps:
  assumes "and_then (and_then (and_then (and_then (and_then
         (tracer_setup_base_dev E a bdev_path s)
         (\<lambda>s. do { (bdev, sz) \<leftarrow> base_of a s; tracer_setup_cow E K a bdev cow_path sz fallocated_space cache_size None 1 0 s }))
         (tracer_setup_cow_path E a)) (retain_mrf E C a)) (tracer_setup_snap E C a minor)) (start_cow_thread E K a minor True) = Some (r, s')"
    and "d_devs s a = Some dev" "sd_base_dev dev = None"
  shows "keeps E a s s'"
  using assms(1)
proof (rule and_then_keeps[OF _ and_then_keeps[OF _ and_then_keeps[OF _ and_then_keeps[OF _ and_then_keeps]]]])
qed (use assms(2,3) in \<open>auto intro: tracer_setup_base_dev_keeps tracer_setup_cow_keeps tracer_setup_cow_path_keeps
      retain_mrf_keeps quiet_keeps[OF tracer_setup_snap_quiet] quiet_keeps[OF start_cow_thread_quiet] split: bind_splits\<close>)

lemma slot_fields [simp]:
  "slot (s\<lparr>d_devs := x\<rparr>) i = slot s i" "slot (s\<lparr>d_world := w\<rparr>) i = slot s i" "slot (etick s) i = slot s i" "slot (s\<lparr>bdev_refs := r\<rparr>) i = slot s i"
  "slot (s\<lparr>d_next := n\<rparr>) i = slot s i" "slot (s\<lparr>d_cows := y\<rparr>) i = slot s i"
  by (simp_all add: slot_def etick_def)

lemma ranged_fields [simp]:
  "ranged E (s\<lparr>d_devs := x\<rparr>) = ranged E s" "ranged E (etick s) = ranged E s" "ranged E (s\<lparr>bdev_refs := r\<rparr>) = ranged E s"
  "ranged E (s\<lparr>d_next := n\<rparr>) = ranged E s" "ranged E (s\<lparr>d_world := w\<rparr>) = ranged E s" "ranged E (s\<lparr>d_cows := y\<rparr>) = ranged E s"
  by (simp_all add: ranged_def)

lemma loose_upd:
  assumes "loose a s" "d_devs s a = Some dev" "released dev'" "sd_orig_request_fn dev' = None" "sd_tracing_ops dev' = None"
  shows "loose a (s\<lparr>d_devs := (d_devs s)(a \<mapsto> dev')\<rparr>)"
  using assms by (auto simp: loose_def)

lemma placed_cong: "placed E a i st ops (s\<lparr>d_devs := (d_devs s)(a \<mapsto> d)\<rparr>) s' = placed E a i st ops s s'"
  by (simp add: placed_def)

lemma undone_cong: "undone E a (s\<lparr>d_devs := (d_devs s)(a \<mapsto> d)\<rparr>) s' = undone E a s s'"
  by (simp add: undone_def)

lemma tracer_setup_active_snap_ok:
  assumes "tracer_setup_active_snap E K C a i bdev_path cow_path fs cs s = Some (ret, s')" "loose a s" "i < max_snap_devices E" "ranged E s"
    and d: "d_devs s a = Some dev"
  shows "(ret \<noteq> 0 \<longrightarrow> undone E a s s') \<and> (ret = 0 \<longrightarrow> placed E a i (state_bits True True False (sd_state dev)) (sd_tracing_ops dev) s s')"
proof -
  let ?dev = "dev\<lparr>sd_state := state_bits True True False (sd_state dev)\<rparr>"
  let ?s = "s\<lparr>d_devs := (d_devs s)(a \<mapsto> ?dev)\<rparr>"
  have l: "loose a ?s" by (rule loose_upd[OF assms(2) d]) (use assms(2) d in \<open>auto simp: loose_def released_def\<close>)
  have rel: "released ?dev" "sd_base_dev ?dev = None" "d_devs ?s a = Some ?dev" using assms(2) d by (auto simp: loose_def released_def)
  note e = assms(1)[unfolded tracer_setup_active_snap_def upd_dev_def d option.case Option.bind.bind_lunit]
  have "(ret \<noteq> 0 \<longrightarrow> owns E a ?s s' \<and> (\<exists>dev'. d_devs s' a = Some dev' \<and> released dev' \<and> sd_orig_request_fn dev' = None)) \<and> (ret = 0 \<longrightarrow> takes E a i ?s s')"
    by (rule setup_then_destroy[OF _ e l assms(3)]) (use snapshot_steps_keeps[OF _ rel(3,2)] assms(4) in auto)
  then show ?thesis using owns_undone[OF _ rel(3,1)] takes_placed[OF _ rel(3,1)] assms(3,4) by (auto simp: placed_cong undone_cong state_bits_def)
qed

lemma tracer_setup_unverified_ok:
  assumes "tracer_setup_unverified E K C a i bdev_path cow_path cs is_snap s = Some (ret, s')" "\<forall>i. slot s i \<noteq> Some a" "i < max_snap_devices E" "ranged E s"
    and d: "d_devs s a = Some dev" "released dev" "sd_orig_request_fn dev = None"
  shows "(ret \<noteq> 0 \<longrightarrow> undone E a s s') \<and> (ret = 0 \<longrightarrow> placed E a i (state_bits is_snap False True (sd_state dev)) (sd_tracing_ops dev) s s')"
proof -
  from assms(1) d obtain dev1 w where
    d1: "released dev1 = released dev" "sd_minor dev1 = sd_minor dev" "sd_orig_request_fn dev1 = sd_orig_request_fn dev"
      "sd_tracing_ops dev1 = sd_tracing_ops dev" "sd_active dev1 = sd_active dev" "sd_state dev1 = state_bits is_snap False True (sd_state dev)"
    and cases: "ret = 0 \<and> tracer_setup_tracing_unverified a i (s\<lparr>d_world := w, d_devs := (d_devs s)(a \<mapsto> dev1)\<rparr>) = Some s' \<or>
      ret \<noteq> 0 \<and> tracer_destroy E K C a (s\<lparr>d_world := w, d_devs := (d_devs s)(a \<mapsto> dev1)\<rparr>) = Some s'"
  proof -
    let ?d = "\<lambda>x y. dev\<lparr>sd_state := state_bits is_snap False True (sd_state dev), sd_cache_size := cs, sd_bdev_path := x, sd_cow_path := y\<rparr>"
    let ?n = "if e_alloc E (now s) then ktick (ktick (d_world s)) else ktick (d_world s)"
    let ?b = "if e_alloc E (now s) then Some bdev_path else None"
    let ?c = "if \<not> e_alloc E (now s) then sd_cow_path dev else if e_alloc E (Suc (now s)) then Some cow_path else None"
    show ?thesis
      by (rule that[of "?d ?b ?c" ?n])
        (use assms(1) d(1) in \<open>auto simp: tracer_setup_unverified_def upd_dev_def etick_def Let_def released_def split: bind_splits if_splits\<close>)
  qed
  let ?s = "s\<lparr>d_world := w, d_devs := (d_devs s)(a \<mapsto> dev1)\<rparr>"
  have rel: "released dev1" "sd_orig_request_fn dev1 = None" "\<forall>i. slot s i \<noteq> Some a" using assms(2) d d1 by auto
  show ?thesis
  proof (cases "ret = 0")
    case True
    with cases have "tracer_setup_tracing_unverified a i ?s = Some s'" by simp
    then have s': "s' = set_slot i (Some a) (minor_range_include i ?s\<lparr>d_devs := (d_devs s)(a \<mapsto> dev1\<lparr>sd_minor := i\<rparr>)\<rparr>)"
      by (auto simp: tracer_setup_tracing_unverified_def upd_dev_def minor_range_include_def)
    have R: "ranged E (minor_range_include i ?s)" using assms(3,4) by (intro ranged_include) auto
    have "ranged E s'" by (rule ranged_set[OF R]) (auto simp: s' minor_range_include_def)
    then show ?thesis using True d1 rel(1,2) unfolding placed_def
      by (intro conjI impI exI[of _ "dev1\<lparr>sd_minor := i\<rparr>"]) (auto simp: s' minor_range_include_def held_def released_def)
  next
    case False
    with cases have e: "tracer_destroy E K C a ?s = Some s'" by simp
    have "owns E a ?s s' \<and> (\<exists>dev'. d_devs s' a = Some dev' \<and> released dev' \<and> sd_orig_request_fn dev' = None)"
      by (rule tracer_destroy_untraced[OF e, of dev1]) (use rel assms(4) in auto)
    then have "undone E a ?s s'" using owns_undone[of E a ?s s' dev1] rel assms(4) by auto
    then show ?thesis using False by (auto simp: undone_def)
  qed
qed


lemma route_setup_ok:
  assumes "route_setup E K C a i bdev_path cow_path fs cs is_snap is_mounted s = Some (ret, s')" "loose a s" "i < max_snap_devices E" "ranged E s"
    and "d_devs s a = Some dev"
  shows "(ret \<noteq> 0 \<longrightarrow> undone E a s s') \<and> (ret = 0 \<longrightarrow> placed E a i (state_bits is_snap is_mounted (\<not> is_mounted) (sd_state dev)) (sd_tracing_ops dev) s s')"
proof (cases "is_mounted \<and> \<not> is_snap")
  case True
  then have "ret = - EINVAL" "s' = s" using assms(1) by (auto simp: route_setup_def)
  then show ?thesis using assms(2,4,5) owns_undone[OF keeps_owns[OF keeps_refl[OF assms(5), of E]]] by (auto simp: loose_def)
next
  case False
  then show ?thesis using assms(1) tracer_setup_active_snap_ok[OF _ assms(2-5)]
      tracer_setup_unverified_ok[OF _ _ assms(3-5)] assms(2,5)[unfolded loose_def]
    by (auto simp: route_setup_def split: if_splits)
qed

subsection \<open>The setup command\<close>

text \<open>The kernel reports a failed lookup of a block device by a negative error number.\<close>

definition lookup_errors :: "sysenv \<Rightarrow> bool" where
  "lookup_errors E \<longleftrightarrow> (\<forall>t p e. e_blkdev E t p = Inl e \<longrightarrow> e < 0)"

lemma verify_bdev_writable_keep:
  assumes "verify_bdev_writable E p s = (r, s')"
  shows "\<exists>w. s' = s\<lparr>d_world := w\<rparr>" "lookup_errors E \<Longrightarrow> r = Inl e \<Longrightarrow> e \<noteq> 0"
proof -
  have put: "(s\<lparr>d_world := w, bdev_refs := (bdev_refs s)(b := bdev_refs s b)\<rparr>) = s\<lparr>d_world := w\<rparr>" for w b by simp
  show "\<exists>w. s' = s\<lparr>d_world := w\<rparr>"
    using assms by (auto simp: verify_bdev_writable_def moocbt_blkdev_by_path_def moocbt_blkdev_put_def etick_def Let_def put
      split: if_splits sum.splits prod.splits option.splits)
  show "e \<noteq> 0" if "lookup_errors E" "r = Inl e"
    using assms that(2) that(1)[unfolded lookup_errors_def, rule_format, of "Suc (now s)" p e]
    by (auto simp: verify_bdev_writable_def moocbt_blkdev_by_path_def etick_def Let_def
      split: if_splits sum.splits prod.splits option.splits)
qed

lemma drv_ok_world: "drv_lent r E (s\<lparr>d_world := w\<rparr>) = drv_lent r E s"
  by (simp add: drv_lent_def)

lemma ioctl_setup_cases:
  assumes "ioctl_setup E K C i bdev_path cow_path fs cs is_snap is_reload s = Some (ret, s')" "drv_ok E s" "lookup_errors E"
  shows "ret \<noteq> 0 \<and> (\<exists>w. s' = s\<lparr>d_world := w\<rparr>) \<or> i < max_snap_devices E \<and> slot s i = None \<and>
    (ret \<noteq> 0 \<and> (\<exists>s1. undone E (d_next s) (s\<lparr>d_next := Suc (d_next s)\<rparr>) s1 \<and> kfree_dev (d_next s) s1 = Some s') \<or>
     ret = 0 \<and> placed E (d_next s) i (state_bits is_snap (\<not> is_reload) is_reload 0) None (s\<lparr>d_next := Suc (d_next s)\<rparr>) s')"
proof -
  have early: ?thesis if "ret \<noteq> 0" "\<exists>w. s' = s\<lparr>d_world := w\<rparr>" using that by blast
  from assms(1) obtain v where v: "verify_minor E i 0 s = Some v" by (auto simp: ioctl_setup_def split: bind_splits)
  show ?thesis
  proof (cases "v = 0")
    case False
    then show ?thesis using assms(1) v by (intro early) (auto simp: ioctl_setup_def intro: exI[of _ "d_world s"])
  next
    case True
    with v have i: "i < max_snap_devices E" "slot s i = None" by (auto simp: verify_minor_def split: if_splits)
    obtain r s1 where w: "verify_bdev_writable E bdev_path s = (r, s1)" by (cases "verify_bdev_writable E bdev_path s")
    from verify_bdev_writable_keep[OF w] obtain w1 where s1: "s1 = s\<lparr>d_world := w1\<rparr>" by blast
    note e = assms(1)[unfolded ioctl_setup_def v True]
    show ?thesis
    proof (cases r)
      case (Inl err)
      then show ?thesis using e w verify_bdev_writable_keep(2)[OF w assms(3)] s1 by (intro early) auto
    next
      case (Inr m)
      show ?thesis
      proof (cases "m = is_reload \<or> \<not> e_alloc E (now s1)")
        case True
        then show ?thesis using e w Inr s1 by (intro early) (auto simp: tracer_alloc_def etick_def split: if_splits)
      next
        case False
        let ?a = "d_next s"
        let ?s2 = "s\<lparr>d_world := ktick w1, d_next := Suc ?a, d_devs := (d_devs s)(?a \<mapsto> tracer_init)\<rparr>"
        from False e w Inr have "do { (ret, s) \<leftarrow> route_setup E K C ?a i bdev_path cow_path fs cs is_snap m ?s2;
             if ret \<noteq> 0 then do { s \<leftarrow> kfree_dev ?a s; Some (ret, s) } else Some (0, s) } = Some (ret, s')"
          by (simp add: tracer_alloc_def s1 etick_def)
        then obtain r2 s3 where r2: "route_setup E K C ?a i bdev_path cow_path fs cs is_snap m ?s2 = Some (r2, s3)"
          and k: "if r2 \<noteq> 0 then ret = r2 \<and> kfree_dev ?a s3 = Some s' else ret = 0 \<and> s' = s3"
          by (auto split: bind_splits if_splits)
        have free: "d_devs s ?a = None" using drv_okD(3)[OF assms(2), of ?a] by (cases "d_devs s ?a") auto
        have "\<forall>j. slot s j \<noteq> Some ?a" using drv_okD(2)[OF assms(2), of _ ?a] free by auto
        then have l: "loose ?a ?s2" by (auto simp: loose_def tracer_init_def released_def)
        have st: "sd_state tracer_init = 0" "sd_tracing_ops tracer_init = None" by (simp_all add: tracer_init_def)
        have R: "ranged E ?s2" using drv_okD(1)[OF assms(2)] by simp
        have "(r2 \<noteq> 0 \<longrightarrow> undone E ?a ?s2 s3) \<and> (r2 = 0 \<longrightarrow> placed E ?a i (state_bits is_snap m (\<not> m) 0) None ?s2 s3)"
          using route_setup_ok[OF r2 l i(1) R, of tracer_init] st by simp
        moreover have "m = (\<not> is_reload)" using False by simp
        moreover have "undone E ?a ?s2 s3 = undone E ?a (s\<lparr>d_next := Suc ?a\<rparr>) s3" by (simp add: undone_def)
        moreover have "placed E ?a i st ops ?s2 s3 = placed E ?a i st ops (s\<lparr>d_next := Suc ?a\<rparr>) s3" for st ops by (simp add: placed_def)
        ultimately show ?thesis using k i by (cases "r2 = 0") auto
      qed
    qed
  qed
qed


lemma drv_ok_placed:
  assumes "drv_ok E s" "placed E (d_next s) i st None (s\<lparr>d_next := Suc (d_next s)\<rparr>) s'" "slot s i = None" "i < max_snap_devices E" "test_bit UNVERIFIED st \<Longrightarrow> \<not> test_bit ACTIVE st"
  shows "drv_ok E s'"
proof -
  from assms(2) obtain dev' where d: "snap_devices s' = (snap_devices s)[i := Some (d_next s)]" "ranged E s'" "Suc (d_next s) \<le> d_next s'"
     "d_devs s' = (d_devs s)(d_next s \<mapsto> dev')" "sd_minor dev' = i" "\<forall>x. bdev_refs s' x = bdev_refs s x + held dev' x"
     "\<forall>c. sd_cow dev' = Some c \<longrightarrow> Suc (d_next s) \<le> c \<and> c < d_next s'" "test_bit UNVERIFIED (sd_state dev') \<longrightarrow> idle dev'"
    using assms(5) by (auto simp: placed_def idle_def)
  have free: "d_devs s (d_next s) = None" using drv_okD(3)[OF assms(1), of "d_next s"] by (cases "d_devs s (d_next s)") auto
  have l: "i < length (snap_devices s)" using drv_okD(1)[OF assms(1)] assms(4) by (simp add: ranged_def)
  show ?thesis
    by (rule drv_ok_update[OF assms(1) d(2) _ d(4), where i = i and t = "Some (d_next s)"])
      (use d(3,5,6,8) d(7)[rule_format] free l assms(3) in \<open>auto simp: slot_def d(1) nth_list_update held_by_def\<close>)
qed

lemma undone_kfree:
  assumes "undone E (d_next s) (s\<lparr>d_next := Suc (d_next s)\<rparr>) s1" "kfree_dev (d_next s) s1 = Some s'" "drv_ok E s"
  shows "snap_devices s' = snap_devices s \<and> d_devs s' = d_devs s \<and> bdev_refs s' = bdev_refs s \<and> (\<forall>c < d_next s. d_cows s' c = d_cows s c)"
    "ranged E s'" "d_next s \<le> d_next s'"
proof -
  have free: "d_devs s (d_next s) = None" using drv_okD(3)[OF assms(3), of "d_next s"] by (cases "d_devs s (d_next s)") auto
  show "snap_devices s' = snap_devices s \<and> d_devs s' = d_devs s \<and> bdev_refs s' = bdev_refs s \<and> (\<forall>c < d_next s. d_cows s' c = d_cows s c)"
    "ranged E s'" "d_next s \<le> d_next s'"
    using assms(1,2) free by (auto simp: undone_def kfree_dev_def fun_upd_idem)
qed

lemma drv_ok_same:
  assumes "drv_ok E s" "snap_devices s' = snap_devices s" "d_devs s' = d_devs s" "bdev_refs s' = bdev_refs s" "ranged E s'" "d_next s \<le> d_next s'"
  shows "drv_ok E s'"
proof -
  have sl: "slot s' j = slot s j" for j by (rule slot_cong[OF assms(2)])
  have "(\<Sum>b < d_next s'. held_by (d_devs s b) x) = (\<Sum>b < d_next s. held_by (d_devs s b) x)" for x
    by (rule sum.mono_neutral_right) (use assms(6) drv_okD(3)[OF assms(1)] in \<open>force simp: held_by_def split: option.splits\<close>)+
  then show ?thesis unfolding drv_lent_def sl assms(3,4)
    using drv_okD[OF assms(1)] less_le_trans[OF _ assms(6)] assms(5) by (auto simp: held_by_def)
qed

lemma ioctl_setup_drv_ok:
  assumes "drv_ok E s" "lookup_errors E" "ioctl_setup E K C i bdev_path cow_path fs cs is_snap is_reload s = Some (ret, s')"
  shows "drv_ok E s'"
  using ioctl_setup_cases[OF assms(3,1,2)]
proof (elim disjE conjE exE)
  fix s1
  assume u: "undone E (d_next s) (s\<lparr>d_next := Suc (d_next s)\<rparr>) s1" "kfree_dev (d_next s) s1 = Some s'"
  show ?thesis using drv_ok_same[OF assms(1)] undone_kfree[OF u assms(1)] by blast
next
  assume "placed E (d_next s) i (state_bits is_snap (\<not> is_reload) is_reload 0) None (s\<lparr>d_next := Suc (d_next s)\<rparr>) s'"
    "slot s i = None" "i < max_snap_devices E"
  then show ?thesis by (rule drv_ok_placed[OF assms(1)]) (auto simp: state_bits_def split: if_splits)
qed (use assms(1) in \<open>auto simp: drv_ok_world\<close>)


text \<open>A driver without devices, on a machine where every call succeeds and no file system is mounted.\<close>

definition plain_env :: sysenv where
  "plain_env = \<lparr>e_alloc = (\<lambda>_. True), e_blkdev = (\<lambda>_ _. Inr 0), e_disk = (\<lambda>_. Some 0), e_whole = (\<lambda>b. b), e_start = (\<lambda>_. 0),
     e_size = (\<lambda>_. 32768), e_capacity = (\<lambda>_. 32768), e_kern_path = (\<lambda>_ _. 0), e_d_path = (\<lambda>_. Inr), e_dentry_path = (\<lambda>_ _. Inr ''/cow''),
     e_super = (\<lambda>_ _. None), e_rdonly = (\<lambda>_ _. False), e_mnt_sb = (\<lambda>_. 0), e_freeze = (\<lambda>_ _. 0), e_thaw = (\<lambda>_ _. 0),
     e_bioset = (\<lambda>_. 0), e_add_disk = (\<lambda>_. 0), e_kthread = (\<lambda>_. 0), e_ran = (\<lambda>_. True), e_submit = ram_submit,
     max_snap_devices = 4, cow_max_memory_default = 314572800, cow_fallocate_percentage_default = 10\<rparr>"

definition empty_drv :: "world \<Rightarrow> drv" where
  "empty_drv w = \<lparr>d_devs = (\<lambda>_. None), d_cows = (\<lambda>_. None), d_trops = (\<lambda>_. None), snap_devices = [None, None, None, None],
     lowest_minor = 3, highest_minor = 0, d_next = 0, d_world = w, bdev_refs = (\<lambda>_. 0), ops_fn = (\<lambda>_. None), disk_mrf = (\<lambda>_. Some (Driver_Fn 0)),
     disk_fops = (\<lambda>_. 0), mrf_tracking_map = (\<lambda>_. None), d_bheap = sample_bheap, d_content = (\<lambda>_ _. 0)\<rparr>"

lemma empty_drv_ok: "drv_ok plain_env (empty_drv w)"
proof -
  have "slot (empty_drv w) i = None" for i by (auto simp: slot_def empty_drv_def nth_Cons')
  then show ?thesis by (simp add: drv_lent_def ranged_def) (simp add: empty_drv_def plain_env_def)
qed

lemma plain_lookup_errors: "lookup_errors plain_env"
  by (simp add: lookup_errors_def plain_env_def)


end
