(* ===== verification/Drv_Destroy.thy ===== *)
theory Drv_Destroy
  imports Drv_Setup
begin

text \<open>
  The destroy command: it gives the slot, the device, its reference and its manager back, provided the file system
  can be frozen; when freezing fails the slot is left pointing at a device that is freed.
\<close>

subsection \<open>Stopping the tracing of a device\<close>

text \<open>Freezing a file system succeeds, or finds none to freeze.\<close>

definition freeze_ok :: "sysenv \<Rightarrow> bool" where
  "freeze_ok E \<longleftrightarrow> (\<forall>t b. e_freeze E t b = 0 \<or> e_freeze E t b = - ENOENT)"

lemma ranged_clear: "ranged E s \<Longrightarrow> ranged E (set_slot i None s)"
  by (auto simp: ranged_def)

lemma flush_requests_keeps:
  assumes "flush_requests E K a s = Some s'"
  shows "keeps E a s s'"
proof -
  from assms obtain dev where d: "d_devs s a = Some dev" by (auto simp: flush_requests_def split: bind_splits)
  show ?thesis
  proof (cases "test_bit ACTIVE (sd_state dev)")
    case True
    then show ?thesis using assms d keeps_refl[OF d] by (simp add: flush_requests_def)
  next
    case False
    with assms d obtain r s1 s2 where st: "tracer_setup_cow_thread E K a (sd_minor dev) (test_bit SNAPSHOT (sd_state dev)) s = Some (r, s1)"
      "wake_up_process a s1 = Some s2" "tracer_destroy_cow_thread E K a s2 = Some s'"
      by (auto simp: flush_requests_def split: bind_splits)
    show ?thesis
      by (rule keeps_trans[OF keeps_trans[OF quiet_keeps[OF tracer_setup_cow_thread_quiet[OF st(1)]] quiet_keeps[OF wake_up_process_quiet[OF st(2)]]]
          quiet_keeps[OF tracer_destroy_cow_thread_quiet[OF st(3)]]])
  qed
qed

lemma free_tracking_ptr:
  assumes "moocbt_free_request_tracking_ptr C a s = Some s'" "d_devs s a = Some dev"
  shows "\<exists>dev'. d_devs s' = (d_devs s)(a \<mapsto> dev') \<and> same_table s s' \<and> d_next s' = d_next s \<and> sd_base_dev dev' = sd_base_dev dev \<and>
     sd_cow dev' = sd_cow dev \<and> bdev_refs s' = bdev_refs s \<and> d_cows s' = d_cows s"
proof (cases "USE_BDOPS_SUBMIT_BIO C \<and> sd_tracing_ops dev = None")
  case True
  then have "s' = s" using assms by (simp add: moocbt_free_request_tracking_ptr_def)
  then show ?thesis using assms(2) by (intro exI[of _ dev]) (auto simp: same_table_def fun_upd_idem)
next
  case False
  then show ?thesis using assms
    by (auto simp: moocbt_free_request_tracking_ptr_def tracing_ops_put_def upd_dev_def same_table_def split: bind_splits if_splits option.splits)
qed

text \<open>Clearing slot \<open>i\<close>, lowering the active count and forgetting the tracking pointer and the minor.\<close>

lemma owns_retraced:
  assumes "retraced i None a n s s1" "ranged E s" "ranged E (set_slot i None s) \<Longrightarrow> ranged E s2"
    and "d_devs s2 = (d_devs s1)(a \<mapsto> dev2)" "snap_devices s2 = snap_devices s1" "d_next s2 = d_next s1"
    and "bdev_refs s2 = bdev_refs s1" "d_cows s2 = d_cows s1" "d_devs s1 a = Some dev1" "sd_base_dev dev2 = sd_base_dev dev1" "sd_cow dev2 = sd_cow dev1"
  shows "owns E a (set_slot i None s) s2"
  using assms ranged_clear[OF assms(2), of i] by (auto simp: retraced_def owns_def held_def)

lemma owns_set_slot:
  assumes "owns E a s s1" "ranged E s"
  shows "owns E a (set_slot i None s) (set_slot i None s1)"
  using assms ranged_clear[of E s1 i] by (auto simp: owns_def)

lemma destroy_tracing_traced:
  assumes "tracer_destroy_tracing E K C a s = Some s'" "d_devs s a = Some dev" "slot s (sd_minor dev) = Some a" "ranged E s" "freeze_ok E"
  shows "owns E a (set_slot (sd_minor dev) None s) s'"
proof -
  let ?i = "sd_minor dev"
  have len: "length (snap_devices s) = max_snap_devices E" "0 < max_snap_devices E" using assms(4) by (auto simp: ranged_def)
  show ?thesis
  proof (cases "sd_orig_request_fn dev")
    case None
    with assms(1-3) obtain s1 where u: "upd_dev a (\<lambda>dev. dev\<lparr>sd_minor := 0\<rparr>) (set_slot ?i None s) = Some s1" and s': "s' = minor_range_recalculate E s1"
      by (auto simp: tracer_destroy_tracing_def split: bind_splits)
    have "owns E a (set_slot ?i None s) s1"
      using u assms(2) by (intro ownsI[of _ _ dev _ "dev\<lparr>sd_minor := 0\<rparr>"]) (auto simp: upd_dev_def same_table_def)
    then show ?thesis unfolding s' by (rule owns_recalculate) (use len in auto)
  next
    case (Some fn)
    with assms(1,2) obtain bdev p s1 r s2 s3 s4 where st: "s1 = s \<or> flush_requests E K a s = Some s1"
      "tracer_transition_tracing E C a bdev p ?i False s1 = Some (r, s2)"
      "moocbt_free_request_tracking_ptr C a s2 = Some s3" "upd_dev a (\<lambda>dev. dev\<lparr>sd_minor := 0\<rparr>) s3 = Some s4" "s' = minor_range_recalculate E s4"
      by (auto simp: tracer_destroy_tracing_def split: bind_splits if_splits) blast+
    have k: "keeps E a s s1" using st(1) flush_requests_keeps keeps_refl[OF assms(2)] by auto
    have R1: "ranged E s1" and sl: "snap_devices s1 = snap_devices s" using keeps_owns[OF k] assms(4) by (auto simp: owns_def)
    have fr: "fst (try_freeze_bdev E bdev s1) \<in> {0, - ENOENT}" using assms(5) by (auto simp: freeze_ok_def try_freeze_bdev_def split: option.splits)
    from transition_stop[OF st(2)] fr obtain b where rt: "slot s1 ?i = Some b" "retraced ?i None b (- 1) s1 s2" by auto
    have "b = a" using rt(1) assms(3) slot_cong[OF sl] by simp
    with rt(2) obtain dev2 where d2: "d_devs s2 a = Some dev2" by (auto simp: retraced_def)
    from free_tracking_ptr[OF st(3) d2] obtain dev3 where f: "d_devs s3 = (d_devs s2)(a \<mapsto> dev3)" "same_table s2 s3" "d_next s3 = d_next s2"
      "sd_base_dev dev3 = sd_base_dev dev2" "sd_cow dev3 = sd_cow dev2" "bdev_refs s3 = bdev_refs s2" "d_cows s3 = d_cows s2" by blast
    have s4: "s4 = s3\<lparr>d_devs := (d_devs s2)(a \<mapsto> dev3\<lparr>sd_minor := 0\<rparr>)\<rparr>" using st(4) f(1) by (auto simp: upd_dev_def)
    have l2: "length (snap_devices s4) = max_snap_devices E" using rt(2) len sl f(2) by (auto simp: s4 retraced_def same_table_def)
    have "owns E a (set_slot ?i None s1) s'"
      by (rule owns_retraced[OF rt(2)[unfolded \<open>b = a\<close>] R1 _ _ _ _ _ _ d2, of _ "dev3\<lparr>sd_minor := 0\<rparr>"])
        (use f st(5) s4 recalculate_range(1)[OF l2 len(2)] in \<open>auto simp: same_table_def\<close>)
    then show ?thesis using owns_trans[OF owns_set_slot[OF keeps_owns[OF k] assms(4)]] by simp
  qed
qed


subsection \<open>Destroying a device\<close>

lemma tracer_destroy_ok:
  assumes "tracer_destroy E K C a s = Some s'" "d_devs s a = Some dev" "slot s (sd_minor dev) = Some a" "ranged E s" "freeze_ok E"
  shows "owns E a (set_slot (sd_minor dev) None s) s' \<and> (\<exists>dev'. d_devs s' a = Some dev' \<and> released dev')"
proof -
  from assms(1) obtain s1 where 1: "tracer_destroy_tracing E K C a s = Some s1"
    and 2: "do { s \<leftarrow> tracer_destroy_cow_thread E K a s1; s \<leftarrow> tracer_destroy_snap E C a s; s \<leftarrow> tracer_destroy_cow_path a s;
      (_, s) \<leftarrow> tracer_destroy_cow K a 0 s; tracer_destroy_base_dev a s } = Some s'"
    by (auto simp: tracer_destroy_def split: bind_splits)
  show ?thesis using owns_trans[OF destroy_tracing_traced[OF 1 assms(2-)] keeps_owns[OF tracer_destroy_rest(1)[OF 2]]]
      tracer_destroy_rest(2)[OF 2] by blast
qed

lemma ioctl_destroy_cases:
  assumes "ioctl_destroy E K C i s = Some (ret, s')" "drv_ok E s" "freeze_ok E"
  shows "ret \<noteq> 0 \<and> s' = s \<or> ret = 0 \<and> (\<exists>a dev. slot s i = Some a \<and> d_devs s a = Some dev \<and> sd_minor dev = i \<and> ranged E s' \<and> d_next s \<le> d_next s' \<and>
     snap_devices s' = (snap_devices s)[i := None] \<and> d_devs s' = (d_devs s)(a := None) \<and>
     (\<forall>x. bdev_refs s' x = bdev_refs s x - held dev x) \<and> (\<forall>c < d_next s. sd_cow dev \<noteq> Some c \<longrightarrow> d_cows s' c = d_cows s c))"
proof (cases "slot s i")
  case None
  then show ?thesis using assms(1) by (auto simp: ioctl_destroy_def verify_minor_def split: if_splits)
next
  case (Some a)
  from drv_okD(2)[OF assms(2) Some] obtain dev where d: "d_devs s a = Some dev" "sd_minor dev = i" by blast
  show ?thesis
  proof (cases "ret = 0")
    case False
    then show ?thesis using assms(1) Some d by (auto simp: ioctl_destroy_def verify_minor_def split: if_splits bind_splits)
  next
    case True
    with assms(1) Some obtain s1 where t: "tracer_destroy E K C a s = Some s1" and f: "kfree_dev a s1 = Some s'"
      by (auto simp: ioctl_destroy_def verify_minor_def split: if_splits bind_splits)
    from tracer_destroy_ok[OF t d(1) _ drv_okD(1)[OF assms(2)] assms(3)] d Some
    obtain dev' where o: "owns E a (set_slot i None s) s1" and d': "d_devs s1 a = Some dev'" "released dev'" by auto
    have s': "s' = s1\<lparr>d_devs := (d_devs s1)(a := None)\<rparr>" using f d' by (simp add: kfree_dev_def)
    have "d_devs s' = (d_devs s)(a := None)" using o by (intro ext) (auto simp: s' owns_def)
    moreover have "bdev_refs s' x = bdev_refs s x - held dev x" for x
      using o d d' by (auto simp: s' owns_def held_def released_def)
    moreover have "ranged E s'" using o ranged_clear[OF drv_okD(1)[OF assms(2)], of i] by (auto simp: s' owns_def)
    ultimately show ?thesis using True Some d o by (auto simp: s' owns_def)
  qed
qed

lemma ioctl_destroy_drv_ok:
  assumes "drv_ok E s" "freeze_ok E" "ioctl_destroy E K C i s = Some (ret, s')"
  shows "drv_ok E s'"
  using ioctl_destroy_cases[OF assms(3,1,2)]
proof (elim disjE conjE exE)
  fix a dev
  assume h: "slot s i = Some a" "d_devs s a = Some dev" "sd_minor dev = i" "ranged E s'" "d_next s \<le> d_next s'"
     "snap_devices s' = (snap_devices s)[i := None]" "d_devs s' = (d_devs s)(a := None)" "\<forall>x. bdev_refs s' x = bdev_refs s x - held dev x"
  have "a < d_next s'" using drv_okD(3)[OF assms(1) h(2)] h(5) by simp
  moreover have "slot s' j = (if j = i then None else slot s j)" for j
    using slot_lt[OF h(1)] by (auto simp: slot_def h(6) nth_list_update)
  ultimately show ?thesis
    by (intro drv_ok_update[OF assms(1) h(4,5,7), where i = i and t = None]) (use h(1,2,8) in \<open>auto simp: held_by_def\<close>)
qed (use assms(1) in auto)

text \<open>
  C20. Destroy gives everything back. From a driver at rest, with a file system that can be frozen or is not mounted, a destroy
  command that returns zero empties exactly the slot asked for, frees exactly the device that was there, drops
  exactly the reference that device held, and leaves the manager of every other device alone; a command that
  returns an error changes nothing at all.
\<close>

theorem ioctl_destroy_exact:
  assumes "drv_ok E s" "freeze_ok E" "ioctl_destroy E K C i s = Some (ret, s')"
  shows "if ret = 0
     then \<exists>a dev. slot s i = Some a \<and> d_devs s a = Some dev \<and> snap_devices s' = (snap_devices s)[i := None] \<and> d_devs s' = (d_devs s)(a := None) \<and>
       (\<forall>x. bdev_refs s' x = bdev_refs s x - held dev x) \<and>
       (\<forall>b other c. b \<noteq> a \<longrightarrow> d_devs s b = Some other \<longrightarrow> sd_cow other = Some c \<longrightarrow> d_cows s' c = d_cows s c)
     else s' = s"
proof (cases "ret = 0")
  case True
  with ioctl_destroy_cases[OF assms(3,1,2)] obtain a dev where h: "slot s i = Some a" "d_devs s a = Some dev"
     "snap_devices s' = (snap_devices s)[i := None]" "d_devs s' = (d_devs s)(a := None)"
     "\<forall>x. bdev_refs s' x = bdev_refs s x - held dev x" "\<forall>c < d_next s. sd_cow dev \<noteq> Some c \<longrightarrow> d_cows s' c = d_cows s c" by blast
  have "d_cows s' c = d_cows s c" if "b \<noteq> a" "d_devs s b = Some other" "sd_cow other = Some c" for b other c
    using h(6) drv_okD(5)[OF assms(1) that(2,3)] drv_okD(6)[OF assms(1) h(2) that(2) _ that(3)] that(1) by auto
  then show ?thesis using True h by auto
qed (use ioctl_destroy_cases[OF assms(3,1,2)] in auto)


subsection \<open>When the file system cannot be frozen\<close>

lemma transition_unfrozen:
  assumes "tracer_transition_tracing E C a b p i False s = Some (r, s')" "d_devs s a = Some dev" "sd_fail_code dev = 0"
    and "\<forall>t. e_super E t b \<noteq> None" "\<forall>t. e_freeze E t b \<notin> {0, - ENOENT}"
  shows "s' = etick s"
  using assms(1-3,5) assms(4)[rule_format, of "now s"]
  by (auto simp: tracer_transition_tracing_def try_freeze_bdev_def moocbt_get_super_def tracer_read_fail_state_def)

lemma destroy_tracing_unfrozen:
  assumes "tracer_destroy_tracing E K C a s = Some s'" "d_devs s a = Some dev" "sd_base_dev dev = Some b"
    and "sd_orig_request_fn dev \<noteq> None" "test_bit ACTIVE (sd_state dev)" "sd_fail_code dev = 0"
    and "\<forall>t. e_super E t b \<noteq> None" "\<forall>t. e_freeze E t b \<notin> {0, - ENOENT}"
  shows "snap_devices s' = snap_devices s"
proof -
  from assms(1-5) obtain p r s2 s3 s4 where st: "tracer_transition_tracing E C a b p (sd_minor dev) False s = Some (r, s2)"
      "moocbt_free_request_tracking_ptr C a s2 = Some s3" "upd_dev a (\<lambda>dev. dev\<lparr>sd_minor := 0\<rparr>) s3 = Some s4" "s' = minor_range_recalculate E s4"
    by (auto simp: tracer_destroy_tracing_def flush_requests_def split: bind_splits if_splits)
  have "s2 = etick s" by (rule transition_unfrozen[OF st(1) assms(2,6,7,8)])
  then have "d_devs s2 a = Some dev" "snap_devices s2 = snap_devices s" using assms(2) by auto
  then show ?thesis using free_tracking_ptr[OF st(2)] st(3,4) by (auto simp: upd_dev_def same_table_def split: option.splits)
qed

text \<open>
  C21. A file system that cannot be frozen makes destroy leave a dangling slot. \<^verbatim>\<open>__tracer_destroy_tracing\<close> ignores the error of
  \<^verbatim>\<open>__tracer_transition_tracing\<close>: when the device is active and has not failed, the command still returns zero and frees the
  device, but the slot of the array, and with it the tracing function, keeps pointing at the freed structure.
\<close>

theorem ioctl_destroy_unfrozen_dangles:
  assumes "ioctl_destroy E K C i s = Some (0, s')" "slot s i = Some a" "d_devs s a = Some dev" "sd_base_dev dev = Some b"
    and "sd_orig_request_fn dev \<noteq> None" "test_bit ACTIVE (sd_state dev)" "sd_fail_code dev = 0"
    and "\<forall>t. e_super E t b \<noteq> None" "\<forall>t. e_freeze E t b \<notin> {0, - ENOENT}"
  shows "slot s' i = Some a \<and> d_devs s' a = None"
proof -
  from assms(1,2) obtain s1 s2 where 1: "tracer_destroy_tracing E K C a s = Some s1"
    and 2: "do { s \<leftarrow> tracer_destroy_cow_thread E K a s1; s \<leftarrow> tracer_destroy_snap E C a s; s \<leftarrow> tracer_destroy_cow_path a s;
      (_, s) \<leftarrow> tracer_destroy_cow K a 0 s; tracer_destroy_base_dev a s } = Some s2" and f: "kfree_dev a s2 = Some s'"
    by (auto simp: ioctl_destroy_def verify_minor_def tracer_destroy_def split: if_splits bind_splits)
  have "snap_devices s2 = snap_devices s"
    using destroy_tracing_unfrozen[OF 1 assms(3-9)] keeps_owns[OF tracer_destroy_rest(1)[OF 2]] by (simp add: owns_def)
  moreover have "snap_devices s' = snap_devices s2" "d_devs s' a = None" using f by (auto simp: kfree_dev_def split: option.splits)
  ultimately show ?thesis using assms(2) slot_cong[of s' s i] by simp
qed

text \<open>A driver with one traced device, for the witnesses.\<close>

definition traced_dev :: snap_device where
  "traced_dev = tracer_init\<lparr>sd_minor := 1, sd_state := 3, sd_active := 1, sd_base_dev := Some 0, sd_orig_request_fn := Some (Driver_Fn 0)\<rparr>"

definition traced_drv :: "world \<Rightarrow> drv" where
  "traced_drv w = (empty_drv w)\<lparr>d_devs := [0 \<mapsto> traced_dev], snap_devices := [None, Some 0, None, None], lowest_minor := 1, highest_minor := 1,
     d_next := 1, bdev_refs := (\<lambda>_. 0)(0 := 1), disk_mrf := (\<lambda>_. Some Tracing_Fn), mrf_tracking_map := [0 \<mapsto> (Some (Driver_Fn 0), 1)]\<rparr>"

definition fn_config :: config where
  "fn_config = \<lparr>USE_HOOK_TRACER = False, USE_BDOPS_SUBMIT_BIO = False\<rparr>"

definition stuck_env :: sysenv where
  "stuck_env = plain_env\<lparr>e_super := (\<lambda>_ _. Some 0), e_freeze := (\<lambda>_ _. - EBUSY)\<rparr>"

lemma traced_slot: "slot (traced_drv w) i = (if i = 1 then Some 0 else None)"
  by (auto simp: slot_def traced_drv_def nth_Cons')

lemma traced_drv_ok: "drv_ok plain_env (traced_drv w)"
  unfolding drv_lent_def ranged_def traced_slot
  by (auto simp: traced_drv_def empty_drv_def plain_env_def traced_dev_def tracer_init_def held_def test_bit_def)

lemma plain_freeze_ok: "freeze_ok plain_env"
  by (simp add: freeze_ok_def plain_env_def)

lemmas destroy_eval = ioctl_destroy_def verify_minor_def tracer_destroy_def tracer_destroy_tracing_def tracer_should_reset_mrf_def find_dev_def
  flush_requests_def tracer_transition_tracing_def stop_tracing_def try_freeze_bdev_def try_thaw_bdev_def moocbt_get_super_def mrf_put_def
  install_tracking_def moocbt_free_request_tracking_ptr_def tracer_destroy_cow_thread_def tracer_destroy_snap_def tracer_bioset_exit_def
  tracer_destroy_cow_path_def tracer_destroy_cow_def tracer_destroy_base_dev_def moocbt_blkdev_put_def kfree_dev_def upd_dev_def
  tracer_for_each_def tracer_read_fail_state_def bdev_get_queue_def moocbt_get_bd_mrf_def test_bit_def Let_def

theorem ioctl_destroy_exact_witness:
  "\<exists>s'. ioctl_destroy plain_env ram_kernel fn_config 1 (traced_drv ram_world) = Some (0, s') \<and>
     snap_devices s' = [None, None, None, None] \<and> d_devs s' = Map.empty \<and> bdev_refs s' 0 = 0"
proof -
  have "\<exists>s'. ioctl_destroy plain_env ram_kernel fn_config 1 (traced_drv ram_world) = Some (0, s')"
    by (simp add: destroy_eval traced_drv_def traced_dev_def tracer_init_def empty_drv_def plain_env_def fn_config_def slot_def set_slot_def etick_def)
  then obtain s' where e: "ioctl_destroy plain_env ram_kernel fn_config 1 (traced_drv ram_world) = Some (0, s')" by blast
  show ?thesis using ioctl_destroy_exact[OF traced_drv_ok plain_freeze_ok e] e
    by (auto simp: traced_slot) (auto simp: traced_drv_def traced_dev_def tracer_init_def empty_drv_def held_def)
qed

theorem ioctl_destroy_unfrozen_dangles_witness:
  "\<exists>s'. ioctl_destroy stuck_env ram_kernel fn_config 1 (traced_drv ram_world) = Some (0, s') \<and> slot s' 1 = Some 0 \<and> d_devs s' 0 = None"
proof -
  have "\<exists>s'. ioctl_destroy stuck_env ram_kernel fn_config 1 (traced_drv ram_world) = Some (0, s')"
    by (simp add: destroy_eval traced_drv_def traced_dev_def tracer_init_def empty_drv_def plain_env_def stuck_env_def fn_config_def slot_def set_slot_def etick_def)
  then obtain s' where e: "ioctl_destroy stuck_env ram_kernel fn_config 1 (traced_drv ram_world) = Some (0, s')" by blast
  have "slot s' 1 = Some 0 \<and> d_devs s' 0 = None"
    by (rule ioctl_destroy_unfrozen_dangles[OF e, of 0 traced_dev 0])
      (simp_all add: traced_slot, simp_all add: traced_drv_def traced_dev_def tracer_init_def stuck_env_def plain_env_def test_bit_def)
  with e show ?thesis by blast
qed

end
