(* ===== verification/Drv_Transitions.thy ===== *)
theory Drv_Transitions
  imports Drv_Destroy
begin

text \<open>
  The transitions between snapshot and incremental: the new device takes the slot, the base device and, for the incremental,
  the manager of the old one, and the old one is freed.
\<close>

subsection \<open>Handing a slot over\<close>

text \<open>Device \<open>a\<close> takes the place of \<open>old\<close> in slot \<open>i\<close>.\<close>

definition handed :: "sysenv \<Rightarrow> nat \<Rightarrow> addr \<Rightarrow> snap_device \<Rightarrow> addr \<Rightarrow> snap_device \<Rightarrow> drv \<Rightarrow> drv \<Rightarrow> bool" where
  "handed E i old od a dev s s' \<longleftrightarrow> d_devs s old = Some od \<and> d_devs s a = None \<and> a < d_next s' \<and> ranged E s' \<and> d_next s \<le> d_next s' \<and>
     snap_devices s' = (snap_devices s)[i := Some a] \<and> d_devs s' = (d_devs s)(old := None, a \<mapsto> dev) \<and> sd_minor dev = i \<and>
     bdev_refs s' = bdev_refs s \<and> sd_base_dev dev = sd_base_dev od \<and> \<not> test_bit UNVERIFIED (sd_state dev) \<and>
     (\<forall>c. sd_cow dev = Some c \<longrightarrow> c < d_next s' \<and> (sd_cow od = Some c \<or> d_next s \<le> c))"

lemma drv_ok_handed:
  assumes "drv_ok E s" "handed E i old od a dev s s'" "slot s i = Some old"
  shows "drv_ok E s'"
proof -
  note ok = drv_okD[OF assms(1)]
  have h: "d_devs s old = Some od" "d_devs s a = None" "a < d_next s'" "ranged E s'" "d_next s \<le> d_next s'"
    "snap_devices s' = (snap_devices s)[i := Some a]" "d_devs s' = (d_devs s)(old := None, a \<mapsto> dev)" "sd_minor dev = i"
    "bdev_refs s' = bdev_refs s" "sd_base_dev dev = sd_base_dev od" "\<not> test_bit UNVERIFIED (sd_state dev)"
    "\<And>c. sd_cow dev = Some c \<Longrightarrow> c < d_next s' \<and> (sd_cow od = Some c \<or> d_next s \<le> c)"
    using assms(2) by (auto simp: handed_def)
  let ?m = "set_slot i None s\<lparr>d_devs := (d_devs s)(old := None), bdev_refs := (\<lambda>x. bdev_refs s x - held od x)\<rparr>"
  have i: "sd_minor od = i" using ok(2)[OF assms(3)] h(1) by auto
  have m: "drv_ok E ?m"
    by (rule drv_ok_update[OF assms(1) _ _ _ ok(3)[OF h(1), THEN less_le_trans], where v = None and i = i and t = None])
      (use h(1) assms(3) ranged_clear[OF ok(1), of i] slot_lt[OF assms(3)] in \<open>auto simp: held_by_def\<close>)
  have len: "i < length (snap_devices s)" using slot_lt[OF assms(3)] .
  have sl: "slot s' j = (if j = i then Some a else slot ?m j)" for j
    using len by (auto simp: slot_def h(6) set_slot_def nth_list_update)
  have cow: "sd_cow db \<noteq> sd_cow dev" if "b \<noteq> a" "d_devs ?m b = Some db" "sd_cow dev \<noteq> None" for b db
  proof
    assume e: "sd_cow db = sd_cow dev"
    with that(3) obtain c where c: "sd_cow dev = Some c" by blast
    have b: "b \<noteq> old" "d_devs s b = Some db" using that(2) by (auto split: if_splits)
    from h(12)[OF c] ok(5)[OF b(2)] e c have "sd_cow od = Some c" by auto
    from ok(6)[OF h(1) b(2) this] e c b(1) show False by simp
  qed
  show ?thesis
    by (rule drv_ok_change[OF m h(4) _ _ h(3), where v = "Some dev" and i = i and t = "Some a"])
      (use h cow sl len in \<open>auto simp: held_by_def held_def split: if_splits\<close>)
qed


lemma fresh_addr: "drv_ok E s \<Longrightarrow> d_devs s (d_next s) = None"
  using drv_okD(3)[of _ E s "d_next s"] by (cases "d_devs s (d_next s)") auto

text \<open>The old device, still in the heap but no longer in the array, is stopped and freed.\<close>

lemma quiet_other: "quiet b s s' \<Longrightarrow> a \<noteq> b \<Longrightarrow> d_devs s' a = d_devs s a"
  by (auto simp: quiet_def)

lemma quiet_devs:
  assumes "quiet b s s'" "d_devs s b = Some dev"
  shows "\<exists>dev'. d_devs s' = (d_devs s)(b \<mapsto> dev') \<and> sd_base_dev dev' = sd_base_dev dev \<and> sd_cow dev' = sd_cow dev \<and> sd_minor dev' = sd_minor dev \<and>
    sd_state dev' = sd_state dev \<and> sd_tracing_ops dev' = sd_tracing_ops dev"
  using assms by (auto simp: quiet_def like_def core_def)

definition frozen_table :: "drv \<Rightarrow> drv \<Rightarrow> bool" where
  "frozen_table s s' \<longleftrightarrow> same_table s s' \<and> d_next s \<le> d_next s' \<and> bdev_refs s' = bdev_refs s"

lemma quiet_frozen: "quiet b s s' \<Longrightarrow> frozen_table s s'"
  by (simp add: quiet_def frozen_table_def)

lemma snap_to_inc_copy:
  assumes "do { s \<leftarrow> upd_dev a (\<lambda>dev. dev\<lparr>sd_state := state_bits False True False (sd_state dev)\<rparr>) s0;
          s \<leftarrow> with_dev old tracer_copy_base_dev a s;
          s \<leftarrow> with_dev old tracer_copy_cow_path a s;
          tracer_copy_cow old a s } = Some s1"
    and "d_devs s0 a = Some tracer_init" "d_devs s0 old = Some od" "old \<noteq> a"
  shows "\<exists>dev1. d_devs s1 = (d_devs s0)(a \<mapsto> dev1) \<and> frozen_table s0 s1 \<and> sd_base_dev dev1 = sd_base_dev od \<and> sd_cow dev1 = sd_cow od \<and>
     sd_cow od \<noteq> None \<and> sd_tracing_ops dev1 = None \<and> sd_state dev1 = state_bits False True False 0 \<and> d_next s1 = d_next s0 \<and>
     (\<forall>c. sd_cow od = Some c \<longrightarrow> (\<exists>cm. d_cows s0 c = Some cm \<and> d_cows s1 = (d_cows s0)(c \<mapsto> cm\<lparr>cm_dev := Some a\<rparr>)))"
  using assms by (auto simp: upd_dev_def with_dev_def tracer_copy_cow_def tracer_copy_base_dev_def tracer_copy_cow_path_def tracer_init_def
      frozen_table_def same_table_def split: bind_splits option.splits)

lemma quiet_fail: "upd_dev a (tracer_set_fail_state e) s = Some s' \<Longrightarrow> quiet a s s'"
  by (erule quiet_upd) (simp add: tracer_set_fail_state_def like_def core_def)

lemma quiet_manager:
  assumes "d_devs s a = Some dev" "sd_cow dev = Some c" "s' = s\<lparr>d_world := w, d_cows := (d_cows s)(c := v)\<rparr>"
  shows "quiet a s s'"
  using assms by (auto simp: quiet_def same_table_def like_def fun_upd_idem intro!: exI[of _ dev])

lemma handover_end:
  assumes "quiet old s s1" "quiet a s1 s2" "quiet old s2 s3" "kfree_dev old s3 = Some s'" "old \<noteq> a" "d_devs s a = Some dev"
  shows "\<exists>dev'. d_devs s' = (d_devs s)(old := None, a \<mapsto> dev') \<and> frozen_table s s' \<and> like dev dev'"
proof -
  have 1: "d_devs s1 a = Some dev" using quiet_other[OF assms(1)] assms(5,6) by simp
  with assms(2) obtain dev' where 2: "d_devs s2 = (d_devs s1)(a \<mapsto> dev')" "like dev dev'" by (auto simp: quiet_def)
  have "d_devs s' = (d_devs s)(old := None, a \<mapsto> dev')"
    using assms(1,3,4,5) 2 by (intro ext) (auto simp: quiet_def kfree_dev_def split: option.splits)
  moreover have "frozen_table s s'" using assms(1-4) by (auto simp: frozen_table_def quiet_def kfree_dev_def same_table_def split: option.splits)
  ultimately show ?thesis using 2 by blast
qed

lemma snap_to_inc_commit_ok:
  assumes "snap_to_inc_commit E K C old a s = Some (ret, s')" "old \<noteq> a" "d_devs s a = Some dev"
  shows "\<exists>dev'. d_devs s' = (d_devs s)(old := None, a \<mapsto> dev') \<and> frozen_table s s' \<and> like dev dev'"
proof -
  from assms(1) obtain s1 od where 1: "tracer_destroy_cow_thread E K old s = Some s1" "d_devs s1 old = Some od"
    by (auto simp: snap_to_inc_commit_def split: bind_splits)
  note q1 = tracer_destroy_cow_thread_quiet[OF 1(1)]
  show ?thesis
  proof (cases "tracer_read_fail_state od = 0")
    case False
    with assms(1) 1 obtain s2 s3 s4 where st: "upd_dev a (tracer_set_fail_state (tracer_read_fail_state od)) s1 = Some s2" "wake_up_process a s2 = Some s3"
      "tracer_destroy_snap E C old s3 = Some s4" "kfree_dev old s4 = Some s'"
      by (auto simp: snap_to_inc_commit_def Let_def split: bind_splits)
    show ?thesis by (rule handover_end[OF q1 quiet_trans[OF quiet_fail[OF st(1)] wake_up_process_quiet[OF st(2)]]
        tracer_destroy_snap_quiet[OF st(3)] st(4) assms(2,3)])
  next
    case True
    with assms(1) 1 obtain s2 dev2 c cm x w cm' s4 where st: "wake_up_process a s1 = Some s2" "d_devs s2 a = Some dev2" "sd_cow dev2 = Some c"
      "d_cows s2 c = Some cm" "cow_truncate_to_index K (d_world s2) cm = Some (x, w, cm')"
      "tracer_destroy_snap E C old (s2\<lparr>d_world := w, d_cows := (d_cows s2)(c \<mapsto> cm')\<rparr>) = Some s4" "kfree_dev old s4 = Some s'"
      by (auto simp: snap_to_inc_commit_def Let_def split: bind_splits)
    show ?thesis by (rule handover_end[OF q1 quiet_trans[OF wake_up_process_quiet[OF st(1)] quiet_manager[OF st(2,3) refl]]
        tracer_destroy_snap_quiet[OF st(6)] st(7) assms(2,3)])
  qed
qed

text \<open>An attempt that failed before its commitment: slots, devices and references are as before.\<close>

definition unchanged :: "sysenv \<Rightarrow> drv \<Rightarrow> drv \<Rightarrow> bool" where
  "unchanged E s s' \<longleftrightarrow> snap_devices s' = snap_devices s \<and> d_devs s' = d_devs s \<and> bdev_refs s' = bdev_refs s \<and> ranged E s' \<and> d_next s \<le> d_next s'"

lemma drv_ok_unchanged: "drv_ok E s \<Longrightarrow> unchanged E s s' \<Longrightarrow> drv_ok E s'"
  by (erule drv_ok_same) (auto simp: unchanged_def)

lemma owns_kfree_unchanged:
  assumes "owns E a s0 s1" "kfree_dev a s1 = Some s'" "d_devs s0 = (d_devs s)(a \<mapsto> dev0)" "d_devs s a = None" "d_devs s1 a = Some dev1"
    and "snap_devices s0 = snap_devices s" "bdev_refs s0 = bdev_refs s" "ranged E s0" "d_next s \<le> d_next s0" "sd_base_dev dev1 = sd_base_dev dev0"
  shows "unchanged E s s'"
proof -
  have "bdev_refs s1 = bdev_refs s0" using assms(1,3,5,10) by (intro ext) (auto simp: owns_def held_def)
  moreover have "d_devs s' = d_devs s" using assms(1,2,3,4) by (intro ext) (auto simp: owns_def kfree_dev_def split: option.splits)
  ultimately show ?thesis using assms by (auto simp: unchanged_def owns_def kfree_dev_def split: option.splits)
qed

lemma frozen_ranged: "frozen_table s s' \<Longrightarrow> ranged E s \<Longrightarrow> ranged E s'"
  by (rule ranged_cong[of s' s]) (auto simp: frozen_table_def same_table_def)

text \<open>Operations that keep the base device besides.\<close>

definition rooted :: "sysenv \<Rightarrow> addr \<Rightarrow> drv \<Rightarrow> drv \<Rightarrow> bool" where
  "rooted E a s s' \<longleftrightarrow> keeps E a s s' \<and> map_option sd_base_dev (d_devs s' a) = map_option sd_base_dev (d_devs s a)"

lemma rooted_trans: "rooted E a s s1 \<Longrightarrow> rooted E a s1 s2 \<Longrightarrow> rooted E a s s2"
  by (auto simp: rooted_def intro: keeps_trans)

lemma quiet_rooted: "quiet a s s' \<Longrightarrow> rooted E a s s'"
  using quiet_keeps[of a s s' E] by (auto simp: rooted_def quiet_def like_def)

lemma rooted_refs:
  assumes "rooted E a s s'"
  shows "bdev_refs s' = bdev_refs s" "snap_devices s' = snap_devices s" "ranged E s \<Longrightarrow> ranged E s'" "d_next s \<le> d_next s'" "b \<noteq> a \<Longrightarrow> d_devs s' b = d_devs s b"
  using assms by (auto simp: rooted_def keeps_def owns_def held_def)

lemma and_then_rooted:
  assumes "and_then r f = Some (ret, s')"
    and "\<And>x s1. r = Some (x, s1) \<Longrightarrow> rooted E a s s1" "\<And>s1 y s2. f s1 = Some (y, s2) \<Longrightarrow> rooted E a s1 s2"
  shows "rooted E a s s'"
  using assms(1)
proof (cases rule: and_then_cases)
  case stop
  show ?thesis by (rule assms(2)[OF stop(1)])
next
  case (go s1)
  show ?thesis by (rule rooted_trans[OF assms(2)[OF go(1)] assms(3)[OF go(2)]])
qed

lemma tracer_destroy_cow_rooted: "tracer_destroy_cow K a m s = Some (r, s') \<Longrightarrow> rooted E a s s'"
  using tracer_destroy_cow_keeps[of K a m s r s' E] by (auto simp: rooted_def elim!: tracer_destroy_cow_cases)

lemma obtain_cow_rooted:
  assumes "obtain_cow E K a p sz fs cs u sid m s = Some (r, s')"
  shows "rooted E a s s'"
  using assms obtain_cow_keeps[OF assms] unfolding rooted_def
  by (cases "m = 3") (auto simp: obtain_cow_def upd_dev_def Let_def split: bind_splits prod.splits if_splits option.splits)

lemma tracer_setup_cow_rooted:
  assumes "tracer_setup_cow E K a b p sz fs cs u sid m s = Some (r, s')"
  shows "rooted E a s s'"
proof -
  obtain r1 s1 r2 s2 where 1: "obtain_cow E K a p sz fs cs u sid m s = Some (r1, s1)"
    and 2: "s2 = s1 \<or> (\<exists>v. upd_dev a (\<lambda>dev. dev\<lparr>sd_cow_inode := v\<rparr>) s1 = Some s2)"
    and 3: "s' = s2 \<or> tracer_destroy_cow K a 0 s2 = Some (r2, s')"
    using assms unfolding tracer_setup_cow_def
    by (auto split: bind_splits if_splits) blast+
  note k1 = obtain_cow_rooted[OF 1]
  have k2: "rooted E a s s2"
    using 2 k1 rooted_trans[OF k1 quiet_rooted[OF quiet_upd[of a _ s1 s2]]] by (auto simp: quiet_simps)
  show ?thesis using 3 k2 rooted_trans[OF k2 tracer_destroy_cow_rooted[of K a 0 s2]] by auto
qed

lemma tracer_destroy_cow_path_quiet: "tracer_destroy_cow_path a s = Some s' \<Longrightarrow> quiet a s s'"
  unfolding tracer_destroy_cow_path_def by (erule quiet_upd) (simp add: quiet_simps)

lemma tracer_setup_cow_path_quiet:
  assumes "tracer_setup_cow_path E a s = Some (r, s')"
  shows "quiet a s s'"
proof -
  from assms obtain dev ino res s1 where d: "d_devs s a = Some dev" and p: "dentry_get_relative_pathname E ino s = (res, s1)"
    and u: "\<exists>v. upd_dev a (\<lambda>dev. dev\<lparr>sd_cow_path := v\<rparr>) s1 = Some s'"
    by (fastforce simp: tracer_setup_cow_path_def tracer_destroy_cow_path_def split: bind_splits sum.splits prod.splits)
  from path_functions_keep(2)[OF p] d have "quiet a s s1"
    by (auto simp: quiet_def same_table_def like_def fun_upd_idem intro!: exI[of _ dev])
  moreover from u obtain v where v: "upd_dev a (\<lambda>dev. dev\<lparr>sd_cow_path := v\<rparr>) s1 = Some s'" by blast
  then have "quiet a s1 s'" by (rule quiet_upd) (simp add: quiet_simps)
  ultimately show ?thesis by (rule quiet_trans)
qed

lemma new_snapshot_rooted:
  assumes "and_then (and_then (and_then (tracer_setup_cow E K a bdev cow_path sz fs cs u sid 0 s) (tracer_setup_cow_path E a))
     (tracer_setup_snap E C a i)) (tracer_setup_cow_thread E K a i True) = Some (r, s')"
  shows "rooted E a s s'"
  using assms
  by (rule and_then_rooted[OF _ and_then_rooted[OF _ and_then_rooted]])
    (assumption | rule tracer_setup_cow_rooted quiet_rooted tracer_setup_cow_path_quiet tracer_setup_snap_quiet tracer_setup_cow_thread_quiet)+

text \<open>The last step of a transition: the new device, set up by \<open>rooted\<close> steps, is traced in slot \<open>i\<close>.\<close>

lemma traced_takeover:
  assumes rt: "rooted E a s1 s2" and d1: "d_devs s1 a = Some dev1" "sd_tracing_ops dev1 = None" and i: "i < max_snap_devices E" and R: "ranged E s1"
    and t: "do { s \<leftarrow> upd_dev a (\<lambda>dev. dev\<lparr>sd_orig_request_fn := x\<rparr>) s2; tracer_setup_tracing E C a i s } = Some (r, s3)"
  shows "\<exists>dev3. d_devs s3 a = Some dev3 \<and> (\<forall>b. b \<noteq> a \<longrightarrow> d_devs s3 b = d_devs s1 b) \<and> d_next s1 \<le> d_next s3 \<and> bdev_refs s3 = bdev_refs s1 \<and> ranged E s3 \<and>
     sd_base_dev dev3 = sd_base_dev dev1 \<and> sd_state dev3 = sd_state dev1 \<and> map_option sd_cow (d_devs s2 a) = Some (sd_cow dev3) \<and> d_cows s3 = d_cows s2 \<and>
     (sd_cow dev3 = None \<or> sd_cow dev3 = sd_cow dev1 \<or> (\<exists>c. d_next s1 \<le> c \<and> c < d_next s3 \<and> sd_cow dev3 = Some c)) \<and>
     (if r = 0 then snap_devices s3 = (snap_devices s1)[i := Some a] \<and> sd_minor dev3 = i else owns E a s1 s3)"
proof -
  note k = keeps_owns[OF rt[unfolded rooted_def, THEN conjunct1]]
  from rt d1 obtain dev2 where d2: "d_devs s2 a = Some dev2" "sd_base_dev dev2 = sd_base_dev dev1" "core dev2 = core dev1"
    by (auto simp: rooted_def keeps_def)
  have cow2: "sd_cow dev2 = None \<or> sd_cow dev2 = sd_cow dev1 \<or> (\<exists>c. d_next s1 \<le> c \<and> c < d_next s2 \<and> sd_cow dev2 = Some c)"
    and dv: "b \<noteq> a \<Longrightarrow> d_devs s2 b = d_devs s1 b" for b
    using k d1(1) d2(1) by (auto simp: owns_def)
  note rr = rooted_refs[OF rt]
  let ?dev = "dev2\<lparr>sd_orig_request_fn := x\<rparr>"
  let ?s2 = "s2\<lparr>d_devs := (d_devs s2)(a \<mapsto> ?dev)\<rparr>"
  have t': "tracer_setup_tracing E C a i ?s2 = Some (r, s3)" using t d2(1) by (simp add: upd_dev_def)
  have "ranged E ?s2" using rr(3)[OF R] by simp
  from tracer_setup_tracing_exact[OF t' _ _ i this, of ?dev] d2(3) d1(2) obtain dev3 where
    d3: "d_devs s3 = (d_devs s2)(a \<mapsto> dev3)" "d_next s2 \<le> d_next s3" "bdev_refs s3 = bdev_refs s2" "d_cows s3 = d_cows s2"
    "sd_base_dev dev3 = sd_base_dev dev2" "sd_cow dev3 = sd_cow dev2" "sd_state dev3 = sd_state dev2" "ranged E s3"
    "if r = 0 then snap_devices s3 = (snap_devices s2)[i := Some a] \<and> sd_minor dev3 = i
     else snap_devices s3 = snap_devices s2 \<and> sd_minor dev3 = 0 \<and> sd_orig_request_fn dev3 = None" by (auto simp: core_def)
  have st: "sd_state dev3 = sd_state dev1" using d2(3) d3(7) by (simp add: core_def)
  have cow: "sd_cow dev3 = None \<or> sd_cow dev3 = sd_cow dev1 \<or> (\<exists>c. d_next s1 \<le> c \<and> c < d_next s3 \<and> sd_cow dev3 = Some c)"
    using cow2 d3(2,6) by (auto intro: less_le_trans)
  have "owns E a s2 s3" if "r \<noteq> 0"
    using that d3 d2(1) unfolding owns_def by (auto simp: held_def)
  then have o: "owns E a s1 s3" if "r \<noteq> 0" using that owns_trans[OF k] by blast
  show ?thesis using d3 d2 rr dv st cow o by (intro exI[of _ dev3]) auto
qed

lemma new_device_discarded:
  assumes "owns E a s1 s3" "d_devs s1 = (d_devs s)(a \<mapsto> dev1)" "d_devs s3 a = Some dev3" "sd_base_dev dev3 = sd_base_dev dev1"
    and "rooted E a s3 s4" "kfree_dev a s4 = Some s'" "d_devs s a = None"
    and "snap_devices s1 = snap_devices s" "bdev_refs s1 = bdev_refs s" "ranged E s1" "d_next s \<le> d_next s1"
  shows "unchanged E s s'"
proof -
  obtain dev4 where "d_devs s4 a = Some dev4" "sd_base_dev dev4 = sd_base_dev dev1" using assms(3-5) by (auto simp: rooted_def)
  then show ?thesis
    using owns_kfree_unchanged[OF owns_trans[OF assms(1) keeps_owns] assms(6,2,7) _ assms(8-11)] assms(5) by (auto simp: rooted_def)
qed

subsection \<open>From snapshot to incremental\<close>

lemma tracer_active_snap_to_inc_ok:
  assumes e: "tracer_active_snap_to_inc E K C old s = Some (ret, s')" and ok: "drv_ok E s" and sl: "slot s i = Some old"
    and od: "d_devs s old = Some od"
  shows "(\<exists>a dev. handed E i old od a dev s s' \<and> sd_cow dev = sd_cow od \<and> sd_state dev = state_bits False True False 0) \<or>
    ret \<noteq> 0 \<and> unchanged E s s'"
proof (cases "e_alloc E (now s)")
  case False
  then show ?thesis using e drv_okD(1)[OF ok] by (auto simp: tracer_active_snap_to_inc_def tracer_alloc_def unchanged_def)
next
  case True
  let ?a = "d_next s"
  let ?s0 = "(etick s)\<lparr>d_next := Suc ?a, d_devs := (d_devs s)(?a \<mapsto> tracer_init)\<rparr>"
  have i: "sd_minor od = i" and imax: "i < max_snap_devices E" and old: "old \<noteq> ?a"
    using drv_okD(1)[OF ok] drv_okD(2)[OF ok sl] od slot_lt[OF sl] drv_okD(3)[OF ok od] by (auto simp: ranged_def)
  have al: "tracer_alloc E s = (0, Some ?a, ?s0)" using True by (simp add: tracer_alloc_def)
  from e[unfolded tracer_active_snap_to_inc_def al] obtain s1 r s3 where
    c: "do { s \<leftarrow> upd_dev ?a (\<lambda>dev. dev\<lparr>sd_state := state_bits False True False (sd_state dev)\<rparr>) ?s0;
        s \<leftarrow> with_dev old tracer_copy_base_dev ?a s; s \<leftarrow> with_dev old tracer_copy_cow_path ?a s; tracer_copy_cow old ?a s } = Some s1"
    and 3: "and_then (tracer_setup_cow_thread E K ?a i False s1)
            (\<lambda>s. do { s \<leftarrow> upd_dev ?a (\<lambda>dev. dev\<lparr>sd_orig_request_fn := sd_orig_request_fn od\<rparr>) s; tracer_setup_tracing E C ?a i s }) = Some (r, s3)"
    and 4: "if r \<noteq> 0 then ret = r \<and> (\<exists>s4. tracer_destroy_cow_thread E K ?a s3 = Some s4 \<and> kfree_dev ?a s4 = Some s')
            else snap_to_inc_commit E K C old ?a s3 = Some (ret, s')"
    using od old i by (auto split: bind_splits if_splits)
  from snap_to_inc_copy[OF c _ _ old] od old obtain dev1 where
    d1: "d_devs s1 = (d_devs s)(?a \<mapsto> dev1)" "frozen_table ?s0 s1" "sd_base_dev dev1 = sd_base_dev od" "sd_cow dev1 = sd_cow od"
    "sd_tracing_ops dev1 = None" "sd_state dev1 = state_bits False True False 0" by (auto simp: fun_upd_upd)
  have t1: "snap_devices s1 = snap_devices s" "bdev_refs s1 = bdev_refs s" "ranged E s1" "d_next s < d_next s1"
    using d1(2) frozen_ranged[OF d1(2), of E] drv_okD(1)[OF ok] by (auto simp: frozen_table_def same_table_def)
  have d1a: "d_devs s1 ?a = Some dev1" using d1(1) by simp
  show ?thesis
  proof (cases "r = 0")
    case False
    have "owns E ?a s1 s3 \<and> (\<exists>dev3. d_devs s3 ?a = Some dev3 \<and> sd_base_dev dev3 = sd_base_dev dev1)" using 3
    proof (cases rule: and_then_cases)
      case stop
      show ?thesis using quiet_devs[OF tracer_setup_cow_thread_quiet[OF stop(1)] d1a] quiet_keeps[OF tracer_setup_cow_thread_quiet[OF stop(1)]] keeps_owns by auto
    next
      case (go s2)
      show ?thesis using traced_takeover[OF quiet_rooted[OF tracer_setup_cow_thread_quiet[OF go(1)]] d1a d1(5) imax t1(3) go(2)] False by auto
    qed
    then obtain dev3 where o: "owns E ?a s1 s3" and d3: "d_devs s3 ?a = Some dev3" "sd_base_dev dev3 = sd_base_dev dev1" by blast
    from 4 False obtain s4 where 5: "ret = r" "tracer_destroy_cow_thread E K ?a s3 = Some s4" "kfree_dev ?a s4 = Some s'" by auto
    from new_device_discarded[OF o d1(1) d3 quiet_rooted[OF tracer_destroy_cow_thread_quiet[OF 5(2)]] 5(3) fresh_addr[OF ok] t1(1-3)] t1(4) 5(1) False
    show ?thesis by auto
  next
    case True
    with 3 obtain s2 where go: "tracer_setup_cow_thread E K ?a i False s1 = Some (0, s2)"
      "do { s \<leftarrow> upd_dev ?a (\<lambda>dev. dev\<lparr>sd_orig_request_fn := sd_orig_request_fn od\<rparr>) s2; tracer_setup_tracing E C ?a i s } = Some (0, s3)"
      by (auto elim: and_then_cases)
    note q = tracer_setup_cow_thread_quiet[OF go(1)]
    from traced_takeover[OF quiet_rooted[OF q] d1a d1(5) imax t1(3) go(2)] obtain dev3 where d3: "d_devs s3 ?a = Some dev3"
      "\<forall>b. b \<noteq> ?a \<longrightarrow> d_devs s3 b = d_devs s1 b" "d_next s1 \<le> d_next s3" "bdev_refs s3 = bdev_refs s1" "ranged E s3" "sd_base_dev dev3 = sd_base_dev dev1"
      "sd_state dev3 = sd_state dev1" "map_option sd_cow (d_devs s2 ?a) = Some (sd_cow dev3)" "snap_devices s3 = (snap_devices s1)[i := Some ?a]" "sd_minor dev3 = i" by auto
    have c3: "sd_cow dev3 = sd_cow od" using quiet_devs[OF q d1a] d3(8) d1(4) by auto
    from 4 True have cm: "snap_to_inc_commit E K C old ?a s3 = Some (ret, s')" by simp
    from snap_to_inc_commit_ok[OF cm old d3(1)] obtain dev4 where d4: "d_devs s' = (d_devs s3)(old := None, ?a \<mapsto> dev4)"
      "frozen_table s3 s'" "like dev3 dev4" by auto
    have "d_devs s' = (d_devs s)(old := None, ?a \<mapsto> dev4)" using d4(1) d3(2) d1(1) by (intro ext) auto
    then have "handed E i old od ?a dev4 s s'" unfolding handed_def
      using d4(2,3) d3 c3 d1 t1 od fresh_addr[OF ok] frozen_ranged[OF d4(2) d3(5)] drv_okD(5)[OF ok od]
      by (auto simp: frozen_table_def same_table_def like_def core_def state_bits_def)
    then show ?thesis using d4(3) c3 d3(7) d1(6) by (auto simp: like_def core_def)
  qed
qed

subsection \<open>From incremental to snapshot\<close>

lemma inc_to_snap_commit_ok:
  assumes "inc_to_snap_commit E K old a s = Some (ret, s')" "old \<noteq> a" "d_devs s a = Some dev"
  shows "ret = 0 \<and> (\<exists>dev'. d_devs s' = (d_devs s)(old := None, a \<mapsto> dev') \<and> frozen_table s s' \<and> like dev dev')"
proof -
  from assms(1) obtain s1 s2 s3 x s4 where st: "tracer_destroy_cow_thread E K old s = Some s1" "wake_up_process a s1 = Some s2"
    "tracer_destroy_cow_path old s2 = Some s3" "tracer_destroy_cow K old 1 s3 = Some (x, s4)" "kfree_dev old s4 = Some s'" and ret: "ret = 0"
    by (auto simp: inc_to_snap_commit_def split: bind_splits)
  note q = tracer_destroy_cow_thread_quiet[OF st(1)] wake_up_process_quiet[OF st(2)] tracer_destroy_cow_path_quiet[OF st(3)]
  from q(3) have l: "\<exists>d. d_devs s3 old = Some d" by (auto simp: quiet_def)
  define s5 where "s5 = s3\<lparr>d_devs := (d_devs s3)(old := None)\<rparr>"
  have k: "kfree_dev old s3 = Some s5" using l by (auto simp: kfree_dev_def s5_def)
  from handover_end[OF q(1,2,3) k assms(2,3)] obtain dev' where d: "d_devs s5 = (d_devs s)(old := None, a \<mapsto> dev')" "frozen_table s s5" "like dev dev'" by blast
  have "d_devs s' = d_devs s5" "frozen_table s s'"
    using st(4,5) d(2) by (auto simp: s5_def kfree_dev_def frozen_table_def same_table_def elim!: tracer_destroy_cow_cases split: option.splits)
  then show ?thesis using d ret by auto
qed


lemma inc_to_snap_copy:
  assumes "do { s \<leftarrow> upd_dev a (\<lambda>dev. dev\<lparr>sd_state := state_bits True True False (sd_state dev)\<rparr>) s0; with_dev old tracer_copy_base_dev a s } = Some s1"
    and "d_devs s0 a = Some tracer_init" "d_devs s0 old = Some od" "old \<noteq> a"
  shows "\<exists>dev1. d_devs s1 = (d_devs s0)(a \<mapsto> dev1) \<and> frozen_table s0 s1 \<and> sd_base_dev dev1 = sd_base_dev od \<and> sd_size dev1 = sd_size od \<and> sd_cow dev1 = None \<and>
     sd_cache_size dev1 = 0 \<and> sd_tracing_ops dev1 = None \<and> sd_state dev1 = state_bits True True False 0 \<and> d_next s1 = d_next s0 \<and> d_cows s1 = d_cows s0 \<and> d_world s1 = d_world s0"
  using assms by (auto simp: upd_dev_def with_dev_def tracer_copy_base_dev_def tracer_init_def frozen_table_def same_table_def split: bind_splits option.splits)

lemma new_snapshot_undone:
  assumes "do { s \<leftarrow> tracer_destroy_cow_thread E K a s; s \<leftarrow> tracer_destroy_snap E C a s; s \<leftarrow> tracer_destroy_cow_path a s; (_, s) \<leftarrow> tracer_destroy_cow K a 0 s; kfree_dev a s } = Some s'"
  shows "\<exists>s4. rooted E a s s4 \<and> kfree_dev a s4 = Some s'"
proof -
  from assms obtain s1 s2 s3 x s4 where st: "tracer_destroy_cow_thread E K a s = Some s1" "tracer_destroy_snap E C a s1 = Some s2"
    "tracer_destroy_cow_path a s2 = Some s3" "tracer_destroy_cow K a 0 s3 = Some (x, s4)" "kfree_dev a s4 = Some s'"
    by (auto split: bind_splits)
  have "rooted E a s s4"
    by (rule rooted_trans[OF quiet_rooted[OF quiet_trans[OF quiet_trans[OF tracer_destroy_cow_thread_quiet[OF st(1)] tracer_destroy_snap_quiet[OF st(2)]]
      tracer_destroy_cow_path_quiet[OF st(3)]]] tracer_destroy_cow_rooted[OF st(4)]])
  then show ?thesis using st(5) by blast
qed

lemma tracer_active_inc_to_snap_ok:
  assumes e: "tracer_active_inc_to_snap E K C old cow_path fs s = Some (ret, s')" and ok: "drv_ok E s" and sl: "slot s i = Some old"
    and od: "d_devs s old = Some od"
  shows "ret = 0 \<and> (\<exists>a dev. handed E i old od a dev s s' \<and> sd_state dev = state_bits True True False 0) \<or> ret \<noteq> 0 \<and> unchanged E s s'"
proof (cases "e_alloc E (now s)")
  case False
  then show ?thesis using e drv_okD(1)[OF ok] by (auto simp: tracer_active_inc_to_snap_def tracer_alloc_def unchanged_def)
next
  case True
  let ?a = "d_next s"
  let ?s0 = "(etick s)\<lparr>d_next := Suc ?a, d_devs := (d_devs s)(?a \<mapsto> tracer_init)\<rparr>"
  have i: "sd_minor od = i" and imax: "i < max_snap_devices E" and old: "old \<noteq> ?a"
    using drv_okD(1)[OF ok] drv_okD(2)[OF ok sl] od slot_lt[OF sl] drv_okD(3)[OF ok od] by (auto simp: ranged_def)
  have al: "tracer_alloc E s = (0, Some ?a, ?s0)" using True by (simp add: tracer_alloc_def)
  from e[unfolded tracer_active_inc_to_snap_def al] obtain s1 bdev sz sp cs u sid r s3 where
    c: "do { s \<leftarrow> upd_dev ?a (\<lambda>dev. dev\<lparr>sd_state := state_bits True True False (sd_state dev)\<rparr>) ?s0; with_dev old tracer_copy_base_dev ?a s } = Some s1"
    and 3: "and_then (and_then (and_then (and_then (tracer_setup_cow E K ?a bdev cow_path sz sp cs u sid 0 s1)
              (tracer_setup_cow_path E ?a)) (tracer_setup_snap E C ?a i)) (tracer_setup_cow_thread E K ?a i True))
            (\<lambda>s. do { s \<leftarrow> upd_dev ?a (\<lambda>dev. dev\<lparr>sd_orig_request_fn := sd_orig_request_fn od\<rparr>) s; tracer_setup_tracing E C ?a i s }) = Some (r, s3)"
    and 4: "if r \<noteq> 0 then ret = r \<and> do { s \<leftarrow> tracer_destroy_cow_thread E K ?a s3; s \<leftarrow> tracer_destroy_snap E C ?a s; s \<leftarrow> tracer_destroy_cow_path ?a s;
                (_, s) \<leftarrow> tracer_destroy_cow K ?a 0 s; kfree_dev ?a s } = Some s'
            else inc_to_snap_commit E K old ?a s3 = Some (ret, s')"
    using od old i by (auto simp: Let_def split: bind_splits if_splits)
  from inc_to_snap_copy[OF c _ _ old] od old obtain dev1 where
    d1: "d_devs s1 = (d_devs s)(?a \<mapsto> dev1)" "frozen_table ?s0 s1" "sd_base_dev dev1 = sd_base_dev od" "sd_cow dev1 = None"
    "sd_tracing_ops dev1 = None" "sd_state dev1 = state_bits True True False 0" by (auto simp: fun_upd_upd)
  have t1: "snap_devices s1 = snap_devices s" "bdev_refs s1 = bdev_refs s" "ranged E s1" "d_next s < d_next s1"
    using d1(2) frozen_ranged[OF d1(2), of E] drv_okD(1)[OF ok] by (auto simp: frozen_table_def same_table_def)
  have d1a: "d_devs s1 ?a = Some dev1" using d1(1) by simp
  show ?thesis
  proof (cases "r = 0")
    case False
    have "owns E ?a s1 s3 \<and> (\<exists>dev3. d_devs s3 ?a = Some dev3 \<and> sd_base_dev dev3 = sd_base_dev dev1)" using 3
    proof (cases rule: and_then_cases)
      case stop
      show ?thesis using new_snapshot_rooted[OF stop(1)] d1a keeps_owns by (auto simp: rooted_def)
    next
      case (go s2)
      show ?thesis using traced_takeover[OF new_snapshot_rooted[OF go(1)] d1a d1(5) imax t1(3) go(2)] False by auto
    qed
    then obtain dev3 where o: "owns E ?a s1 s3" and d3: "d_devs s3 ?a = Some dev3" "sd_base_dev dev3 = sd_base_dev dev1" by blast
    have 6: "ret = r" "do { s \<leftarrow> tracer_destroy_cow_thread E K ?a s3; s \<leftarrow> tracer_destroy_snap E C ?a s; s \<leftarrow> tracer_destroy_cow_path ?a s;
        (_, s) \<leftarrow> tracer_destroy_cow K ?a 0 s; kfree_dev ?a s } = Some s'" using 4 False by auto
    from new_snapshot_undone[OF 6(2)] 6(1) obtain s4 where 5: "ret = r" "rooted E ?a s3 s4" "kfree_dev ?a s4 = Some s'" by blast
    from new_device_discarded[OF o d1(1) d3 5(2,3) fresh_addr[OF ok] t1(1-3)] t1(4) 5(1) False show ?thesis by auto
  next
    case True
    from 3 show ?thesis
    proof (cases rule: and_then_cases)
      case (go s2)
      from traced_takeover[OF new_snapshot_rooted[OF go(1)] d1a d1(5) imax t1(3) go(2)] True obtain dev3 where d3: "d_devs s3 ?a = Some dev3"
        "\<forall>b. b \<noteq> ?a \<longrightarrow> d_devs s3 b = d_devs s1 b" "d_next s1 \<le> d_next s3" "bdev_refs s3 = bdev_refs s1" "ranged E s3" "sd_base_dev dev3 = sd_base_dev dev1"
        "sd_state dev3 = sd_state dev1" "sd_cow dev3 = None \<or> sd_cow dev3 = sd_cow dev1 \<or> (\<exists>c. d_next s1 \<le> c \<and> c < d_next s3 \<and> sd_cow dev3 = Some c)"
        "snap_devices s3 = (snap_devices s1)[i := Some ?a]" "sd_minor dev3 = i" by auto
      from 4 True have cm: "inc_to_snap_commit E K old ?a s3 = Some (ret, s')" by simp
      from inc_to_snap_commit_ok[OF cm old d3(1)] obtain dev4 where d4: "d_devs s' = (d_devs s3)(old := None, ?a \<mapsto> dev4)"
        "frozen_table s3 s'" "like dev3 dev4" and ret: "ret = 0" by auto
      have "d_devs s' = (d_devs s)(old := None, ?a \<mapsto> dev4)" using d4(1) d3(2) d1(1) by (intro ext) auto
      then have "handed E i old od ?a dev4 s s'" unfolding handed_def
        using d4(2,3) d3 d1(3,4,6) t1 od fresh_addr[OF ok] frozen_ranged[OF d4(2) d3(5)]
        by (auto simp: frozen_table_def same_table_def like_def core_def state_bits_def)
      then show ?thesis using d4(3) d3(7) d1(6) ret by (auto simp: like_def core_def)
    qed (use True in simp)
  qed
qed

end
