(* ===== verification/Bdev_State.thy ===== *)
theory Bdev_State
  imports Transitions
begin

text \<open>
  Mount and unmount events (\<^verbatim>\<open>src/src/bdev_state_handler.c\<close>): a tracer goes dormant when the file
  system of its COW file is unmounted and becomes active again when its device is mounted.
\<close>

definition auto_transition_dormant :: "sysenv \<Rightarrow> kernel \<Rightarrow> nat \<Rightarrow> drv \<Rightarrow> drv option" where
  "auto_transition_dormant E K minor s = do { a \<leftarrow> slot s minor; tracer_active_to_dormant E K a s }"

definition auto_transition_active :: "sysenv \<Rightarrow> kernel \<Rightarrow> config \<Rightarrow> nat \<Rightarrow> string \<Rightarrow> drv \<Rightarrow> drv option" where
  "auto_transition_active E K C minor dir_name s = do {
     a \<leftarrow> slot s minor;
     dev \<leftarrow> d_devs s a;
     if test_bit UNVERIFIED (sd_state dev)
     then (if test_bit SNAPSHOT (sd_state dev) then tracer_unverified_snap_to_active E K C a dir_name s
           else tracer_unverified_inc_to_active E K C a dir_name s)
     else tracer_dormant_to_active E K a dir_name s
   }"

text \<open>A mount: its identity and the block device of its super block.\<close>

record vfsmount =
  m_id :: nat
  m_bdev :: nat

definition cow_mount :: "snap_device \<Rightarrow> drv \<Rightarrow> nat option" where
  "cow_mount dev s = do { c \<leftarrow> sd_cow dev; cm \<leftarrow> d_cows s c; d \<leftarrow> dfilp cm; Some (df_mnt d) }"

definition handle_bdev_mount_nowrite :: "sysenv \<Rightarrow> kernel \<Rightarrow> vfsmount \<Rightarrow> drv \<Rightarrow> (int \<times> nat \<times> drv) option" where
  "handle_bdev_mount_nowrite E K mnt s = do {
     r \<leftarrow> find_idx (\<lambda>_ dev. test_bit ACTIVE (sd_state dev) \<and> tracer_read_fail_state dev = 0 \<and>
            sd_base_dev dev = Some (m_bdev mnt) \<and> cow_mount dev s = Some (m_id mnt)) s (tracer_for_each s);
     case r of
       None \<Rightarrow> Some (- ENODEV, 0, s)
     | Some (i, _) \<Rightarrow> do { s \<leftarrow> auto_transition_dormant E K i s; Some (0, i, s) }
   }"

fun handle_writable ::
  "sysenv \<Rightarrow> kernel \<Rightarrow> config \<Rightarrow> string \<Rightarrow> nat \<Rightarrow> nat list \<Rightarrow> drv \<Rightarrow> (int \<times> nat \<times> drv) option" where
  "handle_writable E K C dir_name bdev [] s = Some (- ENODEV, 0, s)"
| "handle_writable E K C dir_name bdev (i # is) s =
     (case slot s i of None \<Rightarrow> handle_writable E K C dir_name bdev is s
      | Some a \<Rightarrow> do {
          dev \<leftarrow> d_devs s a;
          if test_bit ACTIVE (sd_state dev) \<or> tracer_read_fail_state dev \<noteq> 0 then handle_writable E K C dir_name bdev is s
          else if test_bit UNVERIFIED (sd_state dev) then do {
            path \<leftarrow> sd_bdev_path dev;
            case moocbt_blkdev_by_path E path s of
              (Inl _, s) \<Rightarrow> handle_writable E K C dir_name bdev is s
            | (Inr cur, s) \<Rightarrow>
                if cur = bdev then do {
                  s \<leftarrow> auto_transition_active E K C i dir_name s;
                  Some (0, i, moocbt_blkdev_put cur s)
                } else handle_writable E K C dir_name bdev is (moocbt_blkdev_put cur s)
          } else if sd_base_dev dev = Some bdev then do {
            s \<leftarrow> auto_transition_active E K C i dir_name s;
            Some (0, i, s)
          } else handle_writable E K C dir_name bdev is s
        })"

definition handle_bdev_mount_writable ::
  "sysenv \<Rightarrow> kernel \<Rightarrow> config \<Rightarrow> string \<Rightarrow> nat \<Rightarrow> drv \<Rightarrow> (int \<times> nat \<times> drv) option" where
  "handle_bdev_mount_writable E K C dir_name bdev s = handle_writable E K C dir_name bdev (tracer_for_each s) s"

text \<open>
  The event: the lookup of the directory answers with an error, or with whether it is the root of its mount,
  the mount, and whether that is on a block device.
\<close>

definition handle_bdev_mount_event ::
  "sysenv \<Rightarrow> kernel \<Rightarrow> config \<Rightarrow> (int + bool \<times> bool \<times> vfsmount) \<Rightarrow> string \<Rightarrow> bool \<Rightarrow> drv \<Rightarrow> (int \<times> nat \<times> drv) option" where
  "handle_bdev_mount_event E K C lookup dir_name mount_writable s =
     (case lookup of
        Inl ret \<Rightarrow> Some (ret, 0, s)
      | Inr (is_root, has_bdev, mnt) \<Rightarrow>
          if \<not> is_root \<or> \<not> has_bdev then Some (- ENODEV, 0, s)
          else do {
            (ret, idx, s) \<leftarrow> (if \<not> mount_writable then handle_bdev_mount_nowrite E K mnt s
                              else handle_bdev_mount_writable E K C dir_name (m_bdev mnt) s);
            Some (ret, if ret \<noteq> 0 then 0 else idx, s)
          })"

text \<open>After an unmount: reactivate if it failed; fail the device if it is still mounted writable somewhere.\<close>

definition post_umount_check :: "sysenv \<Rightarrow> kernel \<Rightarrow> config \<Rightarrow> int \<Rightarrow> int \<Rightarrow> nat \<Rightarrow> string \<Rightarrow> drv \<Rightarrow> drv option" where
  "post_umount_check E K C dormant_ret umount_ret idx dir_name s =
     (if dormant_ret \<noteq> 0 then Some s
      else do {
        a \<leftarrow> slot s idx;
        dev \<leftarrow> d_devs s a;
        if umount_ret \<noteq> 0 then do {
          path \<leftarrow> sd_bdev_path dev;
          case moocbt_blkdev_by_path E path s of
            (Inl _, s) \<Rightarrow> upd_dev a (tracer_set_fail_state (- ENODEV)) s
          | (Inr b, s) \<Rightarrow> auto_transition_active E K C idx dir_name (moocbt_blkdev_put b s)
        } else do {
          bdev \<leftarrow> sd_base_dev dev;
          case moocbt_get_super E bdev s of
            None \<Rightarrow> Some s
          | Some sb \<Rightarrow> if \<not> e_rdonly E (now s) sb then upd_dev a (tracer_set_fail_state (- EIO)) s else Some s
        }
      })"

end
