(* ===== verification/Drv_Auto.thy ===== *)
theory Drv_Auto
  imports Drv_Transitions Bdev_State
begin

text \<open>
  The operations that change a device in its slot: reconfiguration, dormancy, activation of a dormant device and of an
  unverified one. Each keeps the invariant of the driver.
\<close>

subsection \<open>A verified device changed in place\<close>

lemma drv_ok_in_place:
  assumes "drv_lent r E s" "slot s i = Some a" "d_devs s a = Some dev" "ranged E s'" "d_next s \<le> d_next s'" "snap_devices s' = snap_devices s"
    and "d_devs s' = (d_devs s)(a \<mapsto> dev')" "bdev_refs s' = bdev_refs s" "sd_base_dev dev' = sd_base_dev dev" "sd_minor dev' = sd_minor dev"
    and "\<not> test_bit UNVERIFIED (sd_state dev')"
    and "\<And>c. sd_cow dev' = Some c \<Longrightarrow> sd_cow dev = Some c \<or> d_next s \<le> c \<and> c < d_next s'"
  shows "drv_lent r E s'"
proof -
  have i: "sd_minor dev = i" using drv_okD(2)[OF assms(1,2)] assms(3) by auto
  have sl: "slot s' j = slot s j" for j by (rule slot_cong[OF assms(6)])
  have c: "c < d_next s' \<and> (d_next s \<le> c \<or> sd_cow dev = Some c)" if "sd_cow dev' = Some c" for c
    using assms(12)[OF that] less_le_trans[OF drv_okD(5)[OF assms(1,3)] assms(5)] by auto
  show ?thesis
    by (rule drv_ok_update[OF assms(1,4,5,7) less_le_trans[OF drv_okD(3)[OF assms(1,3)] assms(5)], where i = i and t = "Some a"])
      (use assms(2,3,8-11) i sl c in \<open>auto simp: held_by_def held_def\<close>)
qed

lemma drv_ok_rooted:
  assumes "drv_lent r E s" "slot s i = Some a" "d_devs s a = Some dev" "\<not> test_bit UNVERIFIED (sd_state dev)" "rooted E a s s1"
    and u: "upd_dev a f s1 = Some s'"
    and f: "\<And>d. sd_base_dev (f d) = sd_base_dev d \<and> sd_minor (f d) = sd_minor d \<and> sd_cow (f d) = sd_cow d \<and>
        (test_bit UNVERIFIED (sd_state (f d)) \<longrightarrow> test_bit UNVERIFIED (sd_state d))"
  shows "drv_lent r E s'"
proof -
  note r = rooted_refs[OF assms(5)]
  from assms(3,5) obtain dev1 where d1: "d_devs s1 a = Some dev1" "sd_base_dev dev1 = sd_base_dev dev" "core dev1 = core dev"
    and c: "sd_cow dev1 = None \<or> sd_cow dev1 = sd_cow dev \<or> (\<exists>c. d_next s \<le> c \<and> c < d_next s1 \<and> sd_cow dev1 = Some c)"
    by (auto simp: rooted_def keeps_def owns_def)
  have s': "s' = s1\<lparr>d_devs := (d_devs s1)(a \<mapsto> f dev1)\<rparr>" using u d1(1) by (simp add: upd_dev_def)
  have "d_devs s' = (d_devs s)(a \<mapsto> f dev1)" using r(5) by (intro ext) (auto simp: s')
  then show ?thesis
    by (rule drv_ok_in_place[OF assms(1-3) _ _ _ _ _ _ _ _, rotated 3])
      (use r(1,2,4) r(3)[OF drv_okD(1)[OF assms(1)]] f[of dev1] d1 c assms(4) in \<open>auto simp: s' core_def\<close>)
qed

subsection \<open>Dormancy\<close>

lemma set_fail_fields [simp]:
  "sd_state (tracer_set_fail_state e d) = sd_state d" "sd_base_dev (tracer_set_fail_state e d) = sd_base_dev d" "sd_cow (tracer_set_fail_state e d) = sd_cow d"
  "sd_minor (tracer_set_fail_state e d) = sd_minor d" "sd_orig_request_fn (tracer_set_fail_state e d) = sd_orig_request_fn d"
  "sd_fail_code (tracer_set_fail_state e d) = (if sd_fail_code d = 0 then e else sd_fail_code d)"
  by (simp_all add: tracer_set_fail_state_def)

lemma tracer_active_to_dormant_drv_ok:
  assumes "drv_lent r E s" "slot s i = Some a" "d_devs s a = Some dev" "\<not> test_bit UNVERIFIED (sd_state dev)" "tracer_active_to_dormant E K a s = Some s'"
  shows "drv_lent r E s'"
proof -
  from assms(5) obtain s1 r s2 f where st: "tracer_destroy_cow_thread E K a s = Some s1" "tracer_destroy_cow K a 2 s1 = Some (r, s2)"
    "upd_dev a f s2 = Some s'" and f: "f = tracer_set_fail_state r \<or> f = (\<lambda>dev. dev\<lparr>sd_state := clear_state_bit ACTIVE (sd_state dev)\<rparr>)"
    by (auto simp: tracer_active_to_dormant_def split: bind_splits if_splits)
  show ?thesis
    by (rule drv_ok_rooted[OF assms(1-4) rooted_trans[OF quiet_rooted[OF tracer_destroy_cow_thread_quiet[OF st(1)]] tracer_destroy_cow_rooted[OF st(2)]] st(3)])
      (use f in auto)
qed

lemma world_rooted: "d_devs s a = Some dev \<Longrightarrow> rooted E a s (s\<lparr>d_world := w\<rparr>)"
  by (rule quiet_rooted) (auto simp: quiet_def same_table_def like_def fun_upd_idem intro!: exI[of _ dev])

lemma full_cow_path_world: "full_cow_path K m p s = Some (r, s') \<Longrightarrow> \<exists>w. s' = s\<lparr>d_world := w\<rparr>"
  by (auto simp: full_cow_path_def split: bind_splits)

lemma tracer_dormant_to_active_drv_ok:
  assumes "drv_lent r E s" "slot s i = Some a" "d_devs s a = Some dev" "\<not> test_bit UNVERIFIED (sd_state dev)" "tracer_dormant_to_active E K a p s = Some s'"
  shows "drv_lent r E s'"
proof -
  from assms(3,5) obtain rel r s1 ret s2 f where st: "full_cow_path K p rel s = Some (r, s1)"
    "(case r of Inl err \<Rightarrow> Some (err, s1)
        | Inr p \<Rightarrow> and_then (do { (bdev, sz) \<leftarrow> base_of a s1; tracer_setup_cow E K a bdev p 0 0 0 None 0 3 s1 })
            (\<lambda>s. do { dev \<leftarrow> d_devs s a; start_cow_thread E K a (sd_minor dev) (test_bit SNAPSHOT (sd_state dev)) s })) = Some (ret, s2)"
    "upd_dev a f s2 = Some s'"
    and f: "f = tracer_set_fail_state ret \<or> f = (\<lambda>dev. dev\<lparr>sd_state := clear_state_bit UNVERIFIED (set_state_bit ACTIVE (sd_state dev))\<rparr>)"
    by (auto simp: tracer_dormant_to_active_def split: bind_splits if_splits)
  from full_cow_path_world[OF st(1)] assms(3) have 1: "rooted E a s s1" using world_rooted by blast
  obtain dev1 where d1: "d_devs s1 a = Some dev1" using full_cow_path_world[OF st(1)] assms(3) by auto
  have 2: "rooted E a s1 s2"
  proof (cases r)
    case (Inl err)
    then show ?thesis using st(2) quiet_rooted[OF quiet_refl[OF d1]] by simp
  next
    case (Inr q)
    with st(2) have "and_then (do { (bdev, sz) \<leftarrow> base_of a s1; tracer_setup_cow E K a bdev q 0 0 0 None 0 3 s1 })
            (\<lambda>s. do { dev \<leftarrow> d_devs s a; start_cow_thread E K a (sd_minor dev) (test_bit SNAPSHOT (sd_state dev)) s }) = Some (ret, s2)" by simp
    then show ?thesis
      by (rule and_then_rooted) (auto intro: tracer_setup_cow_rooted quiet_rooted start_cow_thread_quiet split: bind_splits)
  qed
  show ?thesis by (rule drv_ok_rooted[OF assms(1-4) rooted_trans[OF 1 2] st(3)]) (use f in auto)
qed

subsection \<open>Activation of an unverified device\<close>

lemma destroy_tracing_idle:
  assumes "tracer_destroy_tracing E K C a s = Some s'" "d_devs s a = Some dev" "sd_orig_request_fn dev = None" "slot s (sd_minor dev) = Some a"
  shows "s' = minor_range_recalculate E (set_slot (sd_minor dev) None s\<lparr>d_devs := (d_devs s)(a \<mapsto> dev\<lparr>sd_minor := 0\<rparr>)\<rparr>)"
  using assms by (auto simp: tracer_destroy_tracing_def upd_dev_def)

lemma activation_steps_keeps:
  assumes "and_then (and_then (and_then (and_then
       (do { (bdev, sz) \<leftarrow> base_of a s; dev \<leftarrow> d_devs s a;
             tracer_setup_cow E K a bdev cow_path sz 0 (sd_cache_size dev) None 0 m s })
       (tracer_setup_cow_path E a)) (retain_mrf E C a))
       (if is_snap then tracer_setup_snap E C a i else (\<lambda>s. Some (0, s)))) (start_cow_thread E K a i is_snap) = Some (r, s')"
  shows "keeps E a s s'"
  using assms
proof (rule and_then_keeps[OF _ and_then_keeps[OF _ and_then_keeps[OF _ and_then_keeps]]])
qed (auto intro: tracer_setup_cow_keeps quiet_keeps[OF tracer_setup_cow_path_quiet] retain_mrf_keeps
   quiet_keeps[OF tracer_setup_snap_quiet] quiet_keeps[OF start_cow_thread_quiet] keeps_refl split: bind_splits if_splits)

lemma full_cow_path_error: "full_cow_path K m p s = Some (Inl err, s') \<Longrightarrow> err \<noteq> 0"
  by (auto simp: full_cow_path_def pathname_concat_def Let_def split: bind_splits if_splits)

text \<open>The device out of its slot, about to be set up again.\<close>

definition detached :: "sysenv \<Rightarrow> addr \<Rightarrow> nat \<Rightarrow> drv \<Rightarrow> drv \<Rightarrow> bool" where
  "detached E a i s s2 \<longleftrightarrow> loose a s2 \<and> ranged E s2 \<and> snap_devices s2 = (snap_devices s)[i := None] \<and> bdev_refs s2 = bdev_refs s \<and> d_next s2 = d_next s \<and>
     (\<exists>dev2. d_devs s2 = (d_devs s)(a \<mapsto> dev2) \<and> released dev2 \<and> \<not> test_bit UNVERIFIED (sd_state dev2))"

lemma detach:
  assumes ok: "drv_lent r E s" and sl: "slot s i = Some a" and d: "d_devs s a = Some dev" "idle dev" "sd_fail_code dev = 0"
    and st: "tracer_destroy_tracing E K C a s = Some s1"
      "upd_dev a (\<lambda>dev. dev\<lparr>sd_state := clear_state_bit UNVERIFIED (set_state_bit ACTIVE (sd_state dev)), sd_bdev_path := None, sd_cow_path := None\<rparr>) s1 = Some s2"
  shows "detached E a i s s2"
proof -
  have i: "sd_minor dev = i" using drv_okD(2)[OF ok sl] d(1) by auto
  have id: "released dev" "sd_orig_request_fn dev = None" "sd_tracing_ops dev = None" using d(2,3) by (auto simp: idle_def)
  let ?dev = "dev\<lparr>sd_minor := 0, sd_state := clear_state_bit UNVERIFIED (set_state_bit ACTIVE (sd_state dev)), sd_bdev_path := None, sd_cow_path := None\<rparr>"
  note s1 = destroy_tracing_idle[OF st(1) d(1) id(2), unfolded i, OF sl]
  have s2: "s2 = s1\<lparr>d_devs := (d_devs s)(a \<mapsto> ?dev)\<rparr>" using st(2) by (simp add: s1 upd_dev_def)
  have "ranged E s1" unfolding s1 by (rule recalculate_range(1)) (use drv_okD(1)[OF ok] in \<open>auto simp: ranged_def\<close>)
  moreover have "slot s2 j \<noteq> Some a" for j
    using drv_okD(2)[OF ok, of j a] d(1) i slot_lt[OF sl] slot_cong[of s2 "set_slot i None s" j] by (auto simp: s2 s1)
  ultimately show ?thesis using id d(1) unfolding detached_def loose_def s2 by (auto simp: s1 released_def)
qed

lemma slot_set: "snap_devices s' = (snap_devices s)[i := v] \<Longrightarrow> i < length (snap_devices s) \<Longrightarrow> slot s' j = (if j = i then v else slot s j)"
  by (auto simp: slot_def nth_list_update)

lemma reattached:
  assumes ok: "drv_lent r E s" and sl: "slot s i = Some a" and d: "d_devs s a = Some dev" "released dev"
    and n: "ranged E s'" "d_next s \<le> d_next s'" "d_devs s' = (d_devs s)(a \<mapsto> dev')" "snap_devices s' = (snap_devices s)[i := t]"
      "t = None \<and> stray dev' \<or> t = Some a \<and> sd_minor dev' = i" "\<And>x. bdev_refs s' x = bdev_refs s x + held dev' x"
      "\<And>c. sd_cow dev' = Some c \<Longrightarrow> d_next s \<le> c \<and> c < d_next s'" "test_bit UNVERIFIED (sd_state dev') \<Longrightarrow> idle dev' \<or> stray dev'"
  shows "drv_lent r E s'"
  by (rule drv_ok_update[OF ok n(1-3) less_le_trans[OF drv_okD(3)[OF ok d(1)] n(2)], where i = i and t = t])
    (use sl d n(5-8) slot_set[OF n(4) slot_lt[OF sl]] in \<open>auto simp: held_by_def held_def released_def\<close>)

text \<open>After a failed activation the device becomes unverified again, in the failure state, or a stray.\<close>

lemma failed_activation:
  assumes ok: "drv_lent r E s" and sl: "slot s i = Some a" and d: "d_devs s a = Some dev" "idle dev" and det: "detached E a i s s2"
    and o: "owns E a s2 s6" "d_devs s6 a = Some dev6" "released dev6" "sd_orig_request_fn dev6 = None"
    and f: "tracer_setup_unverified E K C a i bp rp cs is_snap s6 = Some (x, s7)" "upd_dev a (tracer_set_fail_state ret) s7 = Some s'" "ret \<noteq> 0"
  shows "drv_lent r E s'"
proof -
  have imax: "i < max_snap_devices E" using slot_lt[OF sl] drv_okD(1)[OF ok] by (simp add: ranged_def)
  from det obtain dev2 where l: "loose a s2" "ranged E s2" "snap_devices s2 = (snap_devices s)[i := None]" "bdev_refs s2 = bdev_refs s" "d_next s2 = d_next s"
    "d_devs s2 = (d_devs s)(a \<mapsto> dev2)" "released dev2" unfolding detached_def by blast
  have d2: "d_devs s2 a = Some dev2" using l(6) by simp
  from owns_undone[OF o(1) d2 l(7) o(2,3) l(2) o(4)] obtain dev6' where
    u: "snap_devices s6 = snap_devices s2" "ranged E s6" "d_next s2 \<le> d_next s6" "d_devs s6 = (d_devs s2)(a \<mapsto> dev6')" "bdev_refs s6 = bdev_refs s2"
    by (auto simp: undone_def)
  have ns: "\<forall>j. slot s6 j \<noteq> Some a" using l(1) slot_cong[OF u(1)] by (simp add: loose_def)
  note su = tracer_setup_unverified_ok[OF f(1) ns imax u(2) o(2-4)]
  have "\<exists>dev7 t. ranged E s7 \<and> d_next s6 \<le> d_next s7 \<and> d_devs s7 = (d_devs s6)(a \<mapsto> dev7) \<and> released dev7 \<and> sd_orig_request_fn dev7 = None \<and>
     bdev_refs s7 = bdev_refs s6 \<and> snap_devices s7 = (snap_devices s)[i := t] \<and>
     (t = None \<or> t = Some a \<and> sd_minor dev7 = i \<and> sd_state dev7 = state_bits is_snap False True (sd_state dev6))"
  proof (cases "x = 0")
    case True
    with su have "placed E a i (state_bits is_snap False True (sd_state dev6)) (sd_tracing_ops dev6) s6 s7" by blast
    then obtain dev7 where q: "snap_devices s7 = (snap_devices s6)[i := Some a]" "ranged E s7" "d_next s6 \<le> d_next s7" "d_devs s7 = (d_devs s6)(a \<mapsto> dev7)"
      "sd_minor dev7 = i" "sd_state dev7 = state_bits is_snap False True (sd_state dev6)" "\<forall>x. bdev_refs s7 x = bdev_refs s6 x + held dev7 x"
      "released dev7" "sd_orig_request_fn dev7 = None" by (auto simp: placed_def state_bits_def)
    have "bdev_refs s7 = bdev_refs s6" using q(7,8) by (auto simp: held_def released_def)
    then show ?thesis using q u(1) l(3) by (intro exI[of _ dev7] exI[of _ "Some a"]) simp
  next
    case False
    with su u(1) l(3) show ?thesis by (auto simp: undone_def)
  qed
  then obtain dev7 t where p: "ranged E s7" "d_next s6 \<le> d_next s7" "d_devs s7 = (d_devs s6)(a \<mapsto> dev7)" "released dev7" "sd_orig_request_fn dev7 = None"
    "bdev_refs s7 = bdev_refs s6" "snap_devices s7 = (snap_devices s)[i := t]"
    "t = None \<or> t = Some a \<and> sd_minor dev7 = i \<and> sd_state dev7 = state_bits is_snap False True (sd_state dev6)" by blast
  let ?dev = "tracer_set_fail_state ret dev7"
  have s': "s' = s7\<lparr>d_devs := (d_devs s)(a \<mapsto> ?dev)\<rparr>" using f(2) p(3) u(4) l(6) by (simp add: upd_dev_def)
  show ?thesis unfolding s'
    by (rule reattached[OF ok sl d(1), where t = t and dev' = ?dev])
      (use p u l(4,5) f(3) d(2) in \<open>auto simp: idle_def stray_def released_def held_def state_bits_def\<close>)
qed

lemma finished_activation:
  assumes ok: "drv_lent r E s" and sl: "slot s i = Some a" and d: "d_devs s a = Some dev" "idle dev" and det: "detached E a i s s2" and t: "takes E a i s2 s'"
  shows "drv_lent r E s'"
proof -
  have imax: "i < max_snap_devices E" using slot_lt[OF sl] drv_okD(1)[OF ok] by (simp add: ranged_def)
  from det obtain dev2 where l: "ranged E s2" "snap_devices s2 = (snap_devices s)[i := None]" "bdev_refs s2 = bdev_refs s" "d_next s2 = d_next s"
    "d_devs s2 = (d_devs s)(a \<mapsto> dev2)" "released dev2" "\<not> test_bit UNVERIFIED (sd_state dev2)" unfolding detached_def by blast
  from takes_placed[OF t _ l(6,1) imax l(7)] l(5) have "placed E a i (sd_state dev2) None s2 s'" by simp
  then obtain dev' where p: "snap_devices s' = (snap_devices s)[i := Some a]" "ranged E s'" "d_next s \<le> d_next s'" "d_devs s' = (d_devs s)(a \<mapsto> dev')"
    "sd_minor dev' = i" "sd_state dev' = sd_state dev2" "\<forall>x. bdev_refs s' x = bdev_refs s x + held dev' x"
    "\<forall>c. sd_cow dev' = Some c \<longrightarrow> d_next s \<le> c \<and> c < d_next s'" unfolding placed_def l(2-5) by auto
  show ?thesis by (rule reattached[OF ok sl d(1) _ p(2-4,1)]) (use p(5-8) l(7) d(2) in \<open>auto simp: idle_def\<close>)
qed

lemma tracer_unverified_to_active_drv_ok:
  assumes ok: "drv_lent r E s" and sl: "slot s i = Some a" and d: "d_devs s a = Some dev" "idle dev" "sd_fail_code dev = 0"
    and e: "tracer_unverified_to_active E K C is_snap a mp s = Some s'"
  shows "drv_lent r E s'"
proof -
  have i: "sd_minor dev = i" using drv_okD(2)[OF ok sl] d(1) by auto
  have imax: "i < max_snap_devices E" using slot_lt[OF sl] drv_okD(1)[OF ok] by (simp add: ranged_def)
  from e d(1) i obtain bp rp s1 s2 s3 r s4 ret s5 where st: "tracer_destroy_tracing E K C a s = Some s1"
    "upd_dev a (\<lambda>dev. dev\<lparr>sd_state := clear_state_bit UNVERIFIED (set_state_bit ACTIVE (sd_state dev)), sd_bdev_path := None, sd_cow_path := None\<rparr>) s1 = Some s2"
    "tracer_setup_base_dev E a bp s2 = Some (0, s3)" "full_cow_path K mp rp s3 = Some (r, s4)"
    and act: "(case r of Inl err \<Rightarrow> Some (err, s4) | Inr p \<Rightarrow> activate_steps E K C is_snap a i p s4) = Some (ret, s5)"
    and fin: "if ret = 0 then s' = s5 else \<exists>s6 x s7. tracer_destroy E K C a s5 = Some s6 \<and>
       tracer_setup_unverified E K C a i bp rp (sd_cache_size dev) is_snap s6 = Some (x, s7) \<and> upd_dev a (tracer_set_fail_state ret) s7 = Some s'"
    by (auto simp: tracer_unverified_to_active_def split: bind_splits if_splits)
  note det = detach[OF ok sl d st(1,2)]
  then obtain dev2 where l: "loose a s2" "ranged E s2" "d_devs s2 a = Some dev2" "sd_base_dev dev2 = None" by (auto simp: detached_def released_def)
  have k3: "keeps E a s2 s3" by (rule tracer_setup_base_dev_keeps[OF st(3) l(3,4)])
  obtain w where s4: "s4 = s3\<lparr>d_world := w\<rparr>" using full_cow_path_world[OF st(4)] by blast
  have k4: "keeps E a s2 s4" using keeps_trans[OF k3 keeps_world] keeps_live[OF k3] s4 by blast
  define steps where "steps = (case r of Inl err \<Rightarrow> Some (err, s4) | Inr p \<Rightarrow> and_then (and_then (and_then (and_then
       (do { (bdev, sz) \<leftarrow> base_of a s4; dev \<leftarrow> d_devs s4 a;
             tracer_setup_cow E K a bdev p sz 0 (sd_cache_size dev) None 0 (if is_snap then 1 else 2) s4 })
       (tracer_setup_cow_path E a)) (retain_mrf E C a))
       (if is_snap then tracer_setup_snap E C a i else (\<lambda>s. Some (0, s)))) (start_cow_thread E K a i is_snap))"
  have sk: "keeps E a s2 s" if "steps = Some (x, s)" for x s
    using that k4 keeps_trans[OF k4 activation_steps_keeps] by (auto simp: steps_def split: sum.splits)
  have run: "and_then steps (tracer_setup_tracing E C a i) = Some (ret, s5)"
  proof (cases r)
    case (Inl err)
    then show ?thesis using act st(4) full_cow_path_error[of K mp rp s3 err s4] by (simp add: steps_def and_then_def)
  next
    case (Inr p)
    then show ?thesis using act by (simp add: steps_def activate_steps_def)
  qed
  show ?thesis
  proof (cases "ret = 0")
    case True
    have "do { (ret, s) \<leftarrow> and_then steps (tracer_setup_tracing E C a i);
        if ret \<noteq> 0 then do { s \<leftarrow> tracer_destroy E K C a s; Some (ret, s) } else Some (0, s) } = Some (0, s5)" using run True by simp
    from setup_then_destroy[OF sk this l(1) imax l(2)] have "takes E a i s2 s5" by simp
    then show ?thesis using finished_activation[OF ok sl d(1,2) det] fin True by simp
  next
    case False
    with fin obtain s6 x s7 where f: "tracer_destroy E K C a s5 = Some s6"
      "tracer_setup_unverified E K C a i bp rp (sd_cache_size dev) is_snap s6 = Some (x, s7)" "upd_dev a (tracer_set_fail_state ret) s7 = Some s'" by auto
    have "owns E a s2 s6 \<and> (\<exists>dev'. d_devs s6 a = Some dev' \<and> released dev' \<and> sd_orig_request_fn dev' = None)"
    proof -
      have "do { (ret, s) \<leftarrow> and_then steps (tracer_setup_tracing E C a i);
        if ret \<noteq> 0 then do { s \<leftarrow> tracer_destroy E K C a s; Some (ret, s) } else Some (0, s) } = Some (ret, s6)" using run f(1) False by simp
      from setup_then_destroy[OF sk this l(1) imax l(2)] show ?thesis using False by simp
    qed
    then obtain dev6 where "owns E a s2 s6" "d_devs s6 a = Some dev6" "released dev6" "sd_orig_request_fn dev6 = None" by blast
    from failed_activation[OF ok sl d(1,2) det this f(2,3) False] show ?thesis .
  qed
qed

end
