(* ===== verification/Module.thy ===== *)
theory Module
  imports Ioctl
begin

text \<open>
  Loading and unloading the module (\<^verbatim>\<open>src/src/module_control.c\<close>) and the array of devices (\<^verbatim>\<open>src/src/snap_device.c\<close>).
  The registrations with the kernel answer with a code and leave no state the driver reads.
\<close>

abbreviation (input) MOOCBT_MAX_SNAP_DEVICES :: nat where "MOOCBT_MAX_SNAP_DEVICES \<equiv> 255"
abbreviation (input) MOOCBT_DEFAULT_SNAP_DEVICES :: nat where "MOOCBT_DEFAULT_SNAP_DEVICES \<equiv> 24"

text \<open>The parameter is corrected before anything uses it.\<close>

definition calc_max_snap_devices :: "nat \<Rightarrow> nat" where
  "calc_max_snap_devices n =
     (if n = 0 \<or> n > MOOCBT_MAX_SNAP_DEVICES
      then (if n = 0 then MOOCBT_DEFAULT_SNAP_DEVICES else MOOCBT_MAX_SNAP_DEVICES) else n)"

definition init_minor_range :: "sysenv \<Rightarrow> drv \<Rightarrow> drv" where
  "init_minor_range E s = s\<lparr>highest_minor := 0, lowest_minor := max_snap_devices E - 1\<rparr>"

definition init_snap_device_array :: "sysenv \<Rightarrow> drv \<Rightarrow> int \<times> drv" where
  "init_snap_device_array E s =
     (if \<not> e_alloc E (now s) then (- ENOMEM, etick s)
      else (0, (etick s)\<lparr>snap_devices := replicate (max_snap_devices E) None\<rparr>))"

text \<open>The devices are destroyed one after another over the range as it was when the loop reached each index.\<close>

fun destroy_devices :: "sysenv \<Rightarrow> kernel \<Rightarrow> config \<Rightarrow> nat \<Rightarrow> nat \<Rightarrow> drv \<Rightarrow> drv option" where
  "destroy_devices E K C i 0 s = Some s"
| "destroy_devices E K C i (Suc n) s =
     (if i > highest_minor s then Some s
      else do {
        s \<leftarrow> (case slot s i of None \<Rightarrow> Some s | Some a \<Rightarrow> tracer_destroy E K C a s);
        destroy_devices E K C (Suc i) n s
      })"

definition cleanup_snap_device_array :: "sysenv \<Rightarrow> kernel \<Rightarrow> config \<Rightarrow> drv \<Rightarrow> drv option" where
  "cleanup_snap_device_array E K C s =
     (if snap_devices s = [] then Some s
      else do {
        s \<leftarrow> destroy_devices E K C (lowest_minor s) (max_snap_devices E) s;
        Some (s\<lparr>snap_devices := []\<rparr>)
      })"

text \<open>What the registrations of the block device, the proc file, the control device and the hooks answer.\<close>

record registrations =
  g_blkdev :: int
  g_proc :: int
  g_misc :: int
  g_hooks :: int

definition agent_exit :: "sysenv \<Rightarrow> kernel \<Rightarrow> config \<Rightarrow> drv \<Rightarrow> drv option" where
  "agent_exit E K C s = cleanup_snap_device_array E K C s"

definition agent_init :: "sysenv \<Rightarrow> kernel \<Rightarrow> config \<Rightarrow> registrations \<Rightarrow> drv \<Rightarrow> (int \<times> drv) option" where
  "agent_init E K C g s = do {
     let s = (if USE_BDOPS_SUBMIT_BIO C then s else s\<lparr>mrf_tracking_map := Map.empty\<rparr>);
     let s = init_minor_range E s;
     let ret = (if g_blkdev g \<le> 0 then - EBUSY else 0);
     let (ret, s) = (if ret \<noteq> 0 then (ret, s) else init_snap_device_array E s);
     let ret = (if ret \<noteq> 0 then ret else if g_proc g = 0 then 0 else - ENOENT);
     let ret = (if ret \<noteq> 0 then ret else if g_misc g \<noteq> 0 then g_misc g else g_hooks g);
     if ret \<noteq> 0 then do { s \<leftarrow> agent_exit E K C s; Some (ret, s) } else Some (0, s)
   }"

end
