(* ===== verification/Driver.thy ===== *)
theory Driver
  imports Drv_Auto Module
begin

text \<open>
  The driver as a state machine: commands of the control device, mount events, unmount checks, the COW threads and the users of
  the snapshot disk, in any order. The invariant of the driver holds in every state it reaches.
\<close>

subsection \<open>Commands\<close>

text \<open>A change of a device that leaves its place and what it holds alone, verified or not.\<close>

lemma drv_ok_cosmetic:
  assumes "drv_ok E s" "slot s i = Some a" "d_devs s a = Some dev" "snap_devices s' = snap_devices s" "ranged E s'" "d_next s \<le> d_next s'"
    and "d_devs s' = (d_devs s)(a \<mapsto> dev')" "bdev_refs s' = bdev_refs s" "sd_base_dev dev' = sd_base_dev dev" "sd_minor dev' = sd_minor dev"
    and "sd_cow dev' = sd_cow dev" "test_bit UNVERIFIED (sd_state dev') \<Longrightarrow> idle dev' \<or> stray dev'"
  shows "drv_ok E s'"
proof -
  have i: "sd_minor dev = i" using drv_okD(2)[OF assms(1,2)] assms(3) by auto
  have sl: "slot s' j = slot s j" for j by (rule slot_cong[OF assms(4)])
  have c: "c < d_next s'" if "sd_cow dev = Some c" for c using less_le_trans[OF drv_okD(5)[OF assms(1,3) that] assms(6)] .
  show ?thesis
    by (rule drv_ok_update[OF assms(1,5,6,7) less_le_trans[OF drv_okD(3)[OF assms(1,3)] assms(6)], where i = i and t = "Some a"])
      (use assms(2,3,8-12) i sl c in \<open>auto simp: held_by_def held_def\<close>)
qed

lemma slot_fail_cosmetic:
  assumes "drv_ok E s" "slot s i = Some a" "upd_dev a (tracer_set_fail_state e) s = Some s'" "e \<noteq> 0"
  shows "drv_ok E s'"
proof -
  from assms(3) obtain dev where d: "d_devs s a = Some dev" "s' = s\<lparr>d_devs := (d_devs s)(a \<mapsto> tracer_set_fail_state e dev)\<rparr>"
    by (auto simp: upd_dev_def split: option.splits)
  have "idle (tracer_set_fail_state e dev) \<or> stray (tracer_set_fail_state e dev)" if "test_bit UNVERIFIED (sd_state dev)"
    using drv_okD(8)[OF assms(1) d(1) that] assms(4) by (auto simp: idle_def stray_def released_def)
  then show ?thesis
    by (intro drv_ok_cosmetic[OF assms(1,2) d(1), where dev' = "tracer_set_fail_state e dev"]) (use drv_okD(1)[OF assms(1)] d(2) in auto)
qed

lemma ioctl_transition_inc_drv_ok:
  assumes "drv_ok E s" "ioctl_transition_inc E K C i s = Some (ret, s')"
  shows "drv_ok E s'"
proof -
  from assms(2) consider "s' = s" | a where "slot s i = Some a" "tracer_active_snap_to_inc E K C a s = Some (ret, s')"
    by (auto simp: ioctl_transition_inc_def split: bind_splits if_splits)
  then show ?thesis
  proof cases
    case 2
    from drv_okD(2)[OF assms(1) 2(1)] obtain od where od: "d_devs s a = Some od" by blast
    from tracer_active_snap_to_inc_ok[OF 2(2) assms(1) 2(1) od] show ?thesis
      using drv_ok_handed[OF assms(1) _ 2(1)] drv_ok_unchanged[OF assms(1)] by blast
  qed (use assms(1) in simp)
qed

lemma ioctl_transition_snap_drv_ok:
  assumes "drv_ok E s" "ioctl_transition_snap E K C i p fs s = Some (ret, s')"
  shows "drv_ok E s'"
proof -
  from assms(2) consider "s' = s" | a where "slot s i = Some a" "tracer_active_inc_to_snap E K C a p fs s = Some (ret, s')"
    by (auto simp: ioctl_transition_snap_def split: bind_splits if_splits)
  then show ?thesis
  proof cases
    case 2
    from drv_okD(2)[OF assms(1) 2(1)] obtain od where od: "d_devs s a = Some od" by blast
    from tracer_active_inc_to_snap_ok[OF 2(2) assms(1) 2(1) od] show ?thesis
      using drv_ok_handed[OF assms(1) _ 2(1)] drv_ok_unchanged[OF assms(1)] by blast
  qed (use assms(1) in simp)
qed

lemma ioctl_reconfigure_drv_ok:
  assumes "drv_ok E s" "ioctl_reconfigure E i cs s = Some (ret, s')"
  shows "drv_ok E s'"
proof -
  from assms(2) consider "s' = s" | a where "slot s i = Some a" "tracer_reconfigure E a cs s = Some s'"
    by (auto simp: ioctl_reconfigure_def split: bind_splits if_splits)
  then show ?thesis
  proof cases
    case 2
    from drv_okD(2)[OF assms(1) 2(1)] obtain dev where d: "d_devs s a = Some dev" by blast
    let ?dev = "dev\<lparr>sd_cache_size := cs\<rparr>"
    have s': "\<exists>cows. s' = s\<lparr>d_devs := (d_devs s)(a \<mapsto> ?dev), d_cows := cows\<rparr>"
      using 2(2) d by (auto simp: tracer_reconfigure_def upd_dev_def split: bind_splits if_splits intro: exI[of _ "d_cows s"])
    moreover have "idle ?dev \<or> stray ?dev" if "test_bit UNVERIFIED (sd_state dev)"
      using drv_okD(8)[OF assms(1) d that] by (auto simp: idle_def stray_def released_def)
    ultimately show ?thesis using drv_okD(1)[OF assms(1)] by (elim exE, intro drv_ok_cosmetic[OF assms(1) 2(1) d, where dev' = ?dev]) auto
  qed (use assms(1) in simp)
qed

lemma ctrl_ioctl_drv_ok:
  assumes "drv_ok E s" "freeze_ok E" "lookup_errors E" "ctrl_ioctl E K C cmd s = Some (ret, rep, s')"
  shows "drv_ok E s'"
proof -
  have tick: "drv_ok E (etick s)" using assms(1) by (simp add: etick_def drv_ok_world)
  show ?thesis
    using assms(4) assms(1) tick
    by (cases cmd) (auto simp: ctrl_ioctl_def no_reply_def Let_def split: sum.splits option.splits if_splits bind_splits
      intro: ioctl_setup_drv_ok[OF assms(1,3)] ioctl_destroy_drv_ok[OF assms(1,2)] ioctl_transition_inc_drv_ok[OF assms(1)]
        ioctl_transition_snap_drv_ok[OF assms(1)] ioctl_reconfigure_drv_ok[OF assms(1)])
qed

subsection \<open>Mount events\<close>

definition one_ref :: "nat \<Rightarrow> nat \<Rightarrow> int" where
  "one_ref b x = (if x = b then 1 else 0)"

lemma blkdev_by_path_lent:
  assumes "drv_ok E s" "moocbt_blkdev_by_path E p s = (r, s')"
  shows "snap_devices s' = snap_devices s \<and> d_devs s' = d_devs s \<and> highest_minor s' = highest_minor s \<and> lowest_minor s' = lowest_minor s \<and>
    (case r of Inl _ \<Rightarrow> drv_ok E s' | Inr b \<Rightarrow> drv_lent (one_ref b) E s')"
proof -
  have lend: "drv_lent (one_ref b) E (s\<lparr>d_world := w, bdev_refs := (bdev_refs s)(b := bdev_refs s b + 1)\<rparr>)" for b w
    using assms(1) by (auto simp: drv_lent_def one_ref_def)
  show ?thesis
    using assms(2) assms(1) lend
    by (auto simp: moocbt_blkdev_by_path_def Let_def etick_def drv_ok_world split: if_splits sum.splits)
qed

lemma blkdev_put_lent: "drv_lent (one_ref b) E s \<Longrightarrow> drv_ok E (moocbt_blkdev_put b s)"
  by (auto simp: drv_lent_def moocbt_blkdev_put_def one_ref_def)

text \<open>A device that may be activated: verified, or unverified and never failed.\<close>

definition wakeable :: "snap_device \<Rightarrow> bool" where
  "wakeable dev \<longleftrightarrow> test_bit UNVERIFIED (sd_state dev) \<longrightarrow> sd_fail_code dev = 0"

lemma auto_transition_active_drv_ok:
  assumes "drv_lent r E s" "auto_transition_active E K C i p s = Some s'" "slot s i = Some a" "d_devs s a = Some dev" "wakeable dev"
  shows "drv_lent r E s'"
proof (cases "test_bit UNVERIFIED (sd_state dev)")
  case True
  then have f: "sd_fail_code dev = 0" using assms(5) by (simp add: wakeable_def)
  then have "idle dev" using drv_okD(8)[OF assms(1,4) True] by (simp add: stray_def)
  moreover obtain b where "tracer_unverified_to_active E K C b a p s = Some s'"
    using assms(2-4) True by (auto simp: auto_transition_active_def tracer_unverified_snap_to_active_def tracer_unverified_inc_to_active_def split: if_splits)
  ultimately show ?thesis using tracer_unverified_to_active_drv_ok[OF assms(1,3,4) _ f] by blast
next
  case False
  then show ?thesis using tracer_dormant_to_active_drv_ok[OF assms(1,3,4)] assms(2-4) by (auto simp: auto_transition_active_def)
qed

lemma handle_unverified_drv_ok:
  assumes ok: "drv_ok E s" and sl: "slot s j = Some a" and d: "d_devs s a = Some dev" "wakeable dev"
    and rest: "\<And>s1. drv_ok E s1 \<Longrightarrow> f s1 = Some (ret, i, s') \<Longrightarrow> drv_ok E s'"
    and e: "(case moocbt_blkdev_by_path E q s of (Inl _, s) \<Rightarrow> f s
      | (Inr cur, s) \<Rightarrow> if cur = b then do { s \<leftarrow> auto_transition_active E K C j p s; Some (0, j, moocbt_blkdev_put cur s) }
          else f (moocbt_blkdev_put cur s)) = Some (ret, i, s')"
  shows "drv_ok E s'"
proof -
  obtain r s1 where o: "moocbt_blkdev_by_path E q s = (r, s1)" by (cases "moocbt_blkdev_by_path E q s")
  note l = blkdev_by_path_lent[OF ok o]
  have sl1: "slot s1 j = Some a" "d_devs s1 a = Some dev" using l sl d slot_cong[of s1 s j] by auto
  show ?thesis
  proof (cases r)
    case (Inl err)
    then show ?thesis using e o l rest[of s1] by simp
  next
    case (Inr cur)
    then have lent: "drv_lent (one_ref cur) E s1" using l by simp
    show ?thesis
    proof (cases "cur = b")
      case True
      with e o Inr obtain s2 where "auto_transition_active E K C j p s1 = Some s2" "s' = moocbt_blkdev_put cur s2" by (auto split: bind_splits)
      then show ?thesis using blkdev_put_lent[OF auto_transition_active_drv_ok[OF lent _ sl1 d(2)]] by blast
    next
      case False
      then show ?thesis using e o Inr rest[OF blkdev_put_lent[OF lent]] by simp
    qed
  qed
qed

lemma handle_writable_drv_ok:
  assumes "drv_ok E s" "handle_writable E K C p b is s = Some (ret, i, s')"
  shows "drv_ok E s'"
  using assms
proof (induction "is" arbitrary: s)
  case (Cons j js)
  show ?case
  proof (cases "slot s j")
    case None
    then show ?thesis using Cons by simp
  next
    case (Some a)
    from drv_okD(2)[OF Cons.prems(1) Some] obtain dev where d: "d_devs s a = Some dev" by blast
    consider (skip) "handle_writable E K C p b js s = Some (ret, i, s')"
      | (unverified) q where "wakeable dev" "(case moocbt_blkdev_by_path E q s of (Inl _, s) \<Rightarrow> handle_writable E K C p b js s
          | (Inr cur, s) \<Rightarrow> if cur = b then do { s \<leftarrow> auto_transition_active E K C j p s; Some (0, j, moocbt_blkdev_put cur s) }
            else handle_writable E K C p b js (moocbt_blkdev_put cur s)) = Some (ret, i, s')"
      | (dormant) "wakeable dev" "auto_transition_active E K C j p s = Some s'"
      using Cons.prems(2) Some d by (auto simp: tracer_read_fail_state_def wakeable_def split: if_splits bind_splits)
    then show ?thesis
    proof cases
      case skip
      then show ?thesis by (rule Cons.IH[OF Cons.prems(1)])
    next
      case unverified
      then show ?thesis by (intro handle_unverified_drv_ok[OF Cons.prems(1) Some d _ Cons.IH])
    next
      case dormant
      then show ?thesis by (intro auto_transition_active_drv_ok[OF Cons.prems(1) _ Some d])
    qed
  qed
qed simp

lemma find_idx_found:
  "find_idx p s is = Some (Some (i, a)) \<Longrightarrow> i \<in> set is \<and> slot s i = Some a \<and> (\<exists>dev. d_devs s a = Some dev \<and> p a dev)"
  by (induction "is") (auto split: option.splits if_splits)

lemma handle_nowrite_drv_ok:
  assumes "drv_ok E s" "handle_bdev_mount_nowrite E K mnt s = Some (ret, i, s')"
  shows "drv_ok E s'"
proof -
  from assms(2) consider "s' = s" | a dev where "slot s i = Some a" "d_devs s a = Some dev" "test_bit ACTIVE (sd_state dev)" "sd_fail_code dev = 0"
    "tracer_active_to_dormant E K a s = Some s'"
    by (auto simp: handle_bdev_mount_nowrite_def auto_transition_dormant_def tracer_read_fail_state_def split: bind_splits option.splits dest!: find_idx_found)
  then show ?thesis
  proof cases
    case 2
    have "\<not> test_bit UNVERIFIED (sd_state dev)" using drv_okD(8)[OF assms(1) 2(2)] 2(3,4) by (auto simp: idle_def stray_def)
    then show ?thesis by (rule tracer_active_to_dormant_drv_ok[OF assms(1) 2(1,2) _ 2(5)])
  qed (use assms(1) in simp)
qed

lemma handle_bdev_mount_event_drv_ok:
  assumes "drv_ok E s" "handle_bdev_mount_event E K C lookup p w s = Some (ret, i, s')"
  shows "drv_ok E s'"
proof -
  from assms(2) consider "s' = s" | mnt j where "handle_bdev_mount_nowrite E K mnt s = Some (ret, j, s')"
    | b j where "handle_writable E K C p b (tracer_for_each s) s = Some (ret, j, s')"
    by (auto simp: handle_bdev_mount_event_def handle_bdev_mount_writable_def split: sum.splits if_splits bind_splits)
  then show ?thesis
  proof cases
    case 2
    then show ?thesis by (rule handle_nowrite_drv_ok[OF assms(1)])
  next
    case 3
    then show ?thesis by (rule handle_writable_drv_ok[OF assms(1)])
  qed (use assms(1) in simp)
qed

lemma post_umount_check_drv_ok:
  assumes "drv_ok E s" "post_umount_check E K C dr ur i p s = Some s'"
    and w: "\<And>a dev. dr = 0 \<Longrightarrow> ur \<noteq> 0 \<Longrightarrow> slot s i = Some a \<Longrightarrow> d_devs s a = Some dev \<Longrightarrow> wakeable dev"
  shows "drv_ok E s'"
proof -
  from assms(2) consider (same) "s' = s"
    | (wake) a dev q where "dr = 0" "ur \<noteq> 0" "slot s i = Some a" "d_devs s a = Some dev"
      "(case moocbt_blkdev_by_path E q s of (Inl _, s) \<Rightarrow> upd_dev a (tracer_set_fail_state (- ENODEV)) s
          | (Inr b, s) \<Rightarrow> auto_transition_active E K C i p (moocbt_blkdev_put b s)) = Some s'"
    | (fail) a where "slot s i = Some a" "upd_dev a (tracer_set_fail_state (- EIO)) s = Some s'"
  proof (cases "dr = 0")
    case True
    from assms(2) True obtain a dev where d: "slot s i = Some a" "d_devs s a = Some dev" by (auto simp: post_umount_check_def split: bind_splits)
    show ?thesis
    proof (cases "ur = 0")
      case ur: True
      have "s' = s \<or> upd_dev a (tracer_set_fail_state (- EIO)) s = Some s'"
        using assms(2) True d ur by (auto simp: post_umount_check_def split: bind_splits option.splits if_splits)
      then show ?thesis using same fail[OF d(1)] by blast
    next
      case ur: False
      from assms(2) True d ur obtain q where "sd_bdev_path dev = Some q" by (auto simp: post_umount_check_def split: bind_splits)
      then show ?thesis using assms(2) True d ur by (intro wake[of a dev q]) (simp_all add: post_umount_check_def)
    qed
  qed (use assms(2) same in \<open>simp add: post_umount_check_def\<close>)
  then show ?thesis
  proof cases
    case wake
    obtain r s1 where o: "moocbt_blkdev_by_path E q s = (r, s1)" by (cases "moocbt_blkdev_by_path E q s")
    note l = blkdev_by_path_lent[OF assms(1) o]
    have sl: "slot s1 i = Some a" "d_devs s1 a = Some dev" using l wake(3,4) slot_cong[of s1 s i] by auto
    show ?thesis
    proof (cases r)
      case Inl
      then show ?thesis using wake(5) o l slot_fail_cosmetic[OF _ sl(1)] by auto
    next
      case (Inr b)
      then have ok: "drv_ok E (moocbt_blkdev_put b s1)" using l blkdev_put_lent by simp
      have sl': "slot (moocbt_blkdev_put b s1) i = Some a" "d_devs (moocbt_blkdev_put b s1) a = Some dev"
        using sl slot_cong[of "moocbt_blkdev_put b s1" s1 i] by (simp_all add: moocbt_blkdev_put_def)
      show ?thesis using wake(5) o Inr auto_transition_active_drv_ok[OF ok _ sl' w[OF wake(1-4)]] by simp
    qed
  next
    case fail
    then show ?thesis by (rule slot_fail_cosmetic[OF assms(1)]) simp
  qed (use assms(1) in simp)
qed

subsection \<open>Loading the module\<close>

text \<open>What the driver knows before it is initialised: no device and no reference.\<close>

definition booted :: "drv \<Rightarrow> bool" where
  "booted s \<longleftrightarrow> d_devs s = Map.empty \<and> bdev_refs s = (\<lambda>_. 0)"

lemma calc_max_range: "1 \<le> calc_max_snap_devices n \<and> calc_max_snap_devices n \<le> 255"
  by (auto simp: calc_max_snap_devices_def)

lemma agent_init_ok:
  assumes "agent_init E K C g s = Some (0, s')" "booted s" "max_snap_devices E = calc_max_snap_devices n"
  shows "drv_ok E s'" "slot s' i = None"
proof -
  from assms(1) have s': "snap_devices s' = replicate (max_snap_devices E) None" "d_devs s' = d_devs s" "bdev_refs s' = bdev_refs s"
    "highest_minor s' = 0" "lowest_minor s' = max_snap_devices E - 1"
    by (auto simp: agent_init_def Let_def init_snap_device_array_def init_minor_range_def etick_def split: if_splits bind_splits prod.splits)
  have none: "slot s' j = None" for j by (simp add: slot_def s'(1))
  have "0 < max_snap_devices E" using calc_max_range[of n] assms(3) by simp
  then show "drv_ok E s'" using assms(2) none by (simp add: drv_lent_def ranged_def s' booted_def)
  show "slot s' i = None" by (rule none)
qed

subsection \<open>The state machine\<close>

text \<open>
  One step. The unmount check runs some time after the event that found its index; what it finds there must not be an
  unverified device that failed, which the check would try to activate again.
\<close>

inductive drv_step :: "sysenv \<Rightarrow> kernel \<Rightarrow> config \<Rightarrow> drv \<Rightarrow> drv \<Rightarrow> bool" for E K C where
  command: "ctrl_ioctl E K C cmd s = Some (ret, rep, s') \<Longrightarrow> drv_step E K C s s'"
| mount_event: "handle_bdev_mount_event E K C lookup dir writable s = Some (ret, i, s') \<Longrightarrow> drv_step E K C s s'"
| umount_check: "post_umount_check E K C dr ur i dir s = Some s' \<Longrightarrow>
    (\<And>a dev. slot s i = Some a \<Longrightarrow> d_devs s a = Some dev \<Longrightarrow> wakeable dev) \<Longrightarrow> drv_step E K C s s'"
| cow_thread: "slot s i = Some a \<Longrightarrow> d_devs s a = Some dev \<Longrightarrow> \<not> test_bit UNVERIFIED (sd_state dev) \<Longrightarrow> sd_cow_thread dev = Some t \<Longrightarrow>
    run_cow_thread E K t a s = Some s' \<Longrightarrow> drv_step E K C s s'"
| open_close: "slot s i = Some a \<Longrightarrow> d_devs s a = Some dev \<Longrightarrow> tracer_add_ref n (Some dev) = (0, Some dev') \<Longrightarrow>
    drv_step E K C s (s\<lparr>d_devs := (d_devs s)(a \<mapsto> dev')\<rparr>)"

text \<open>A driver just initialised, and the states it reaches.\<close>

definition started :: "sysenv \<Rightarrow> kernel \<Rightarrow> config \<Rightarrow> drv \<Rightarrow> bool" where
  "started E K C s' \<longleftrightarrow> (\<exists>s g n. booted s \<and> max_snap_devices E = calc_max_snap_devices n \<and> agent_init E K C g s = Some (0, s'))"

definition reachable :: "sysenv \<Rightarrow> kernel \<Rightarrow> config \<Rightarrow> drv \<Rightarrow> bool" where
  "reachable E K C s \<longleftrightarrow> (\<exists>s0. started E K C s0 \<and> (drv_step E K C)\<^sup>*\<^sup>* s0 s)"

lemma reachable_init: "booted s \<Longrightarrow> max_snap_devices E = calc_max_snap_devices n \<Longrightarrow> agent_init E K C g s = Some (0, s') \<Longrightarrow> reachable E K C s'"
  unfolding reachable_def started_def by blast

lemma reachable_step: "reachable E K C s \<Longrightarrow> drv_step E K C s s' \<Longrightarrow> reachable E K C s'"
  unfolding reachable_def by (meson rtranclp.rtrancl_into_rtrancl)

lemma run_cow_thread_drv_ok:
  assumes "drv_ok E s" "slot s i = Some a" "d_devs s a = Some dev" "\<not> test_bit UNVERIFIED (sd_state dev)" "run_cow_thread E K t a s = Some s'"
  shows "drv_ok E s'"
proof -
  from run_cow_thread_quiet[OF assms(5)] assms(3) obtain dev' where q: "same_table s s'" "d_next s' = d_next s" "bdev_refs s' = bdev_refs s"
    "d_devs s' = (d_devs s)(a \<mapsto> dev')" "like dev dev'" by (auto simp: quiet_def)
  have "ranged E s'" by (rule ranged_cong[OF _ _ _ drv_okD(1)[OF assms(1)]]) (use q(1) in \<open>auto simp: same_table_def\<close>)
  then show ?thesis
    by (intro drv_ok_cosmetic[OF assms(1-3), where dev' = dev']) (use q assms(4) in \<open>auto simp: same_table_def like_def core_def\<close>)
qed

lemma drv_step_drv_ok:
  assumes "drv_step E K C s s'" "drv_ok E s" "freeze_ok E" "lookup_errors E"
  shows "drv_ok E s'"
  using assms(1)
proof cases
  case (command cmd ret rep)
  then show ?thesis by (rule ctrl_ioctl_drv_ok[OF assms(2-4)])
next
  case (mount_event lookup dir writable ret i)
  then show ?thesis by (rule handle_bdev_mount_event_drv_ok[OF assms(2)])
next
  case (umount_check dr ur i dir)
  then show ?thesis using post_umount_check_drv_ok[OF assms(2)] by blast
next
  case (cow_thread i a dev t)
  then show ?thesis using run_cow_thread_drv_ok[OF assms(2)] by blast
next
  case (open_close i a dev n dev')
  have "idle dev' \<or> stray dev'" if "test_bit UNVERIFIED (sd_state dev')"
    using drv_okD(8)[OF assms(2) open_close(3)] that open_close(4) by (auto simp: tracer_add_ref_def idle_def stray_def released_def)
  then show ?thesis using open_close drv_okD(1)[OF assms(2)]
    by (intro drv_ok_cosmetic[OF assms(2) open_close(2,3), where dev' = dev']) (auto simp: tracer_add_ref_def)
qed

text \<open>The driver as a machine with an invariant, on a kernel that freezes file systems and answers failed lookups with error numbers.\<close>

interpretation driver: state_machine "started E K C" "drv_step E K C" "\<lambda>s. freeze_ok E \<and> lookup_errors E \<longrightarrow> drv_ok E s" for E K C
  by unfold_locales (use agent_init_ok(1) drv_step_drv_ok in \<open>auto simp: started_def\<close>)

lemma reachable_drv_ok: "reachable E K C s \<Longrightarrow> freeze_ok E \<Longrightarrow> lookup_errors E \<Longrightarrow> drv_ok E s"
  using driver.run_inv[of E K C] by (auto simp: reachable_def)

text \<open>
  C23. The invariant of the driver. Whatever sequence of commands, mount events, unmount checks, thread runs and users of the
  snapshot disk follows the initialisation, the driver is consistent: the minor range covers the slots in use; slots and live
  devices correspond one to one, up to devices whose activation failed and that hold nothing; no two devices share a
  COW manager; a device that is not verified holds no block device and no manager; and the number of
  references the driver holds to each block device is the number of devices that trace it. The hypotheses on the kernel are that
  a mounted file system can be frozen and that a failed lookup answers with a negative error number.
\<close>

theorem driver_invariant:
  assumes "reachable E K C s" "freeze_ok E" "lookup_errors E"
  shows "drv_ok E s"
  by (rule reachable_drv_ok[OF assms])

text \<open>A driver that was just loaded on the sample machine.\<close>

definition loaded_drv :: drv where
  "loaded_drv = (empty_drv ram_world)\<lparr>d_world := ktick ram_world\<rparr>"

definition plain_registrations :: registrations where
  "plain_registrations = \<lparr>g_blkdev = 252, g_proc = 0, g_misc = 0, g_hooks = 0\<rparr>"

lemma four_slots: "replicate 4 x = [x, x, x, x]"
  by (simp add: numeral_eq_Suc)

lemma loaded: "agent_init plain_env ram_kernel sample_config plain_registrations (empty_drv ram_world) = Some (0, loaded_drv)"
  by (simp add: agent_init_def plain_registrations_def init_minor_range_def init_snap_device_array_def loaded_drv_def empty_drv_def plain_env_def etick_def
    four_slots Let_def sample_config_def)

lemma loaded_reachable: "reachable plain_env ram_kernel sample_config loaded_drv"
  by (rule reachable_init[OF _ _ loaded, of 4]) (simp_all add: booted_def empty_drv_def calc_max_snap_devices_def plain_env_def)

definition reload_args :: reload_params where
  "reload_args = \<lparr>r_bdev = U_Str ''/dev/sda1'', r_cow = U_Str ''/cow'', r_cache_size = 0, r_minor = 1\<rparr>"

lemma reload_loaded:
  "\<exists>s a. ctrl_ioctl plain_env ram_kernel sample_config (IOCTL_RELOAD_SNAP (Some reload_args)) loaded_drv = Some (0, No_Reply, s) \<and> slot s 1 = Some a"
  by (simp add: ctrl_ioctl_def get_reload_params_def need_string_def copy_string_from_user_def reload_args_def no_reply_def
        ioctl_setup_def verify_minor_def verify_bdev_writable_def moocbt_blkdev_by_path_def moocbt_blkdev_put_def moocbt_get_super_def tracer_alloc_def
        route_setup_def tracer_setup_unverified_def tracer_setup_tracing_unverified_def upd_dev_def plain_env_def loaded_drv_def empty_drv_def slot_def etick_def
        minor_range_include_def Let_def)

theorem driver_invariant_witness:
  "\<exists>s a dev. ctrl_ioctl plain_env ram_kernel sample_config (IOCTL_RELOAD_SNAP (Some reload_args)) loaded_drv = Some (0, No_Reply, s) \<and>
     slot s 1 = Some a \<and> d_devs s a = Some dev \<and> sd_minor dev = 1 \<and> drv_ok plain_env s"
proof -
  obtain s a where e: "ctrl_ioctl plain_env ram_kernel sample_config (IOCTL_RELOAD_SNAP (Some reload_args)) loaded_drv = Some (0, No_Reply, s)"
    "slot s 1 = Some a" using reload_loaded by blast
  have ok: "drv_ok plain_env s"
    by (rule driver_invariant[OF reachable_step[OF loaded_reachable drv_step.command[OF e(1)]] plain_freeze_ok plain_lookup_errors])
  then show ?thesis using e drv_okD(2)[OF ok e(2)] by blast
qed

end
