(* ===== verification/Unload.thy ===== *)
theory Unload
  imports Driver
begin

text \<open>
  Unloading the module: the loop over the devices reaches every one, although each device it destroys changes the
  minor range it runs over, and the driver ends without a reference to any block device.
\<close>

definition slot_held :: "drv \<Rightarrow> nat \<Rightarrow> nat \<Rightarrow> int" where
  "slot_held s x i = (case slot s i of None \<Rightarrow> 0 | Some a \<Rightarrow> held_by (d_devs s a) x)"

text \<open>While the devices are destroyed, but not freed: the slots in use are backed, and they hold all the references.\<close>

definition winding_down :: "sysenv \<Rightarrow> drv \<Rightarrow> bool" where
  "winding_down E s \<longleftrightarrow> ranged E s \<and> (\<forall>i a. slot s i = Some a \<longrightarrow> (\<exists>dev. d_devs s a = Some dev \<and> sd_minor dev = i)) \<and>
     (\<forall>x. bdev_refs s x = (\<Sum>i < max_snap_devices E. slot_held s x i))"

lemma drv_ok_winding_down:
  assumes "drv_ok E s"
  shows "winding_down E s"
proof -
  note ok = drv_okD[OF assms]
  let ?used = "{i. i < max_snap_devices E \<and> slot s i \<noteq> None}" and ?f = "\<lambda>i. the (slot s i)"
  have sub: "?f ` ?used \<subseteq> {..<d_next s}" using ok(2,3) by fastforce
  have inj: "inj_on ?f ?used"
  proof (rule inj_onI)
    fix i j
    assume "i \<in> ?used" "j \<in> ?used" "?f i = ?f j"
    then obtain a where "slot s i = Some a" "slot s j = Some a" by auto
    then show "i = j" using ok(2)[of i a] ok(2)[of j a] by auto
  qed
  have out: "held_by (d_devs s a) x = 0" if "a \<notin> ?f ` ?used" for a x
  proof (cases "d_devs s a")
    case (Some dev)
    have "slot s (sd_minor dev) \<noteq> Some a"
    proof
      assume sl: "slot s (sd_minor dev) = Some a"
      then have "sd_minor dev \<in> ?used" using slot_lt[OF sl] ok(1) by (simp add: ranged_def)
      then show False using that sl by force
    qed
    then show ?thesis using ok(4)[OF Some] Some by (simp add: stray_def released_def held_by_def held_def)
  qed (simp add: held_by_def)
  have "bdev_refs s x = (\<Sum>i < max_snap_devices E. slot_held s x i)" for x
  proof -
    have "bdev_refs s x = (\<Sum>a < d_next s. held_by (d_devs s a) x)" using ok(7)[of x] by (simp add: held_by_def)
    also have "\<dots> = (\<Sum>a \<in> ?f ` ?used. held_by (d_devs s a) x)" by (rule sum.mono_neutral_right) (use sub out in auto)
    also have "\<dots> = (\<Sum>i \<in> ?used. held_by (d_devs s (?f i)) x)" by (rule sum.reindex[OF inj, unfolded comp_def])
    also have "\<dots> = (\<Sum>i \<in> ?used. slot_held s x i)" by (rule sum.cong) (auto simp: slot_held_def)
    also have "\<dots> = (\<Sum>i < max_snap_devices E. slot_held s x i)" by (rule sum.mono_neutral_left) (auto simp: slot_held_def)
    finally show ?thesis .
  qed
  then show ?thesis using ok(1,2) by (simp add: winding_down_def)
qed

lemma winding_down_step:
  assumes w: "winding_down E s" and sl: "slot s i = Some a" and t: "tracer_destroy E K C a s = Some s'" and fr: "freeze_ok E"
  shows "winding_down E s' \<and> (\<forall>j. slot s' j = (if j = i then None else slot s j))"
proof -
  have R: "ranged E s" and bk: "\<And>j b. slot s j = Some b \<Longrightarrow> \<exists>dev. d_devs s b = Some dev \<and> sd_minor dev = j"
    and rf: "\<And>x. bdev_refs s x = (\<Sum>i < max_snap_devices E. slot_held s x i)" using w by (auto simp: winding_down_def)
  from bk[OF sl] obtain dev where d: "d_devs s a = Some dev" "sd_minor dev = i" by blast
  from tracer_destroy_ok[OF t d(1) _ R fr] d sl obtain dev' where o: "owns E a (set_slot i None s) s'" and d': "d_devs s' a = Some dev'" "released dev'" by auto
  have l: "i < length (snap_devices s)" by (rule slot_lt[OF sl])
  have S: "slot s' j = (if j = i then None else slot s j)" for j
    using o l slot_cong[of s' "set_slot i None s" j] by (auto simp: owns_def)
  have oth: "d_devs s' b = d_devs s b" if "b \<noteq> a" for b using o that by (auto simp: owns_def)
  have na: "b \<noteq> a" if "slot s j = Some b" "j \<noteq> i" for j b using bk[OF that(1)] d that(2) by auto
  have refs: "bdev_refs s' x = bdev_refs s x - held dev x" for x using o d d' by (auto simp: owns_def held_def released_def)
  have im: "i < max_snap_devices E" using l R by (simp add: ranged_def)
  have "bdev_refs s' x = (\<Sum>j < max_snap_devices E. slot_held s' x j)" for x
  proof -
    have "(\<Sum>j < max_snap_devices E. slot_held s' x j) = (\<Sum>j < max_snap_devices E. slot_held s x j) - slot_held s x i + slot_held s' x i"
      by (rule sum_update) (use im in \<open>auto simp: slot_held_def S oth na split: option.splits\<close>)
    then show ?thesis using refs[of x] rf[of x] sl d by (simp add: slot_held_def S held_by_def)
  qed
  moreover have "ranged E s'" using o ranged_clear[OF R, of i] by (auto simp: owns_def)
  moreover have "\<exists>dev. d_devs s' b = Some dev \<and> sd_minor dev = j" if "slot s' j = Some b" for j b
    using that S[of j] bk[of j b] na[of j b] oth[of b] by (auto split: if_splits)
  ultimately show ?thesis using S by (simp add: winding_down_def)
qed

lemma destroy_devices_ok:
  assumes "destroy_devices E K C i n s = Some s'" "winding_down E s" "freeze_ok E" "\<And>j. j < i \<Longrightarrow> slot s j = None" "max_snap_devices E \<le> i + n"
  shows "winding_down E s' \<and> (\<forall>j. slot s' j = None)"
  using assms
proof (induction n arbitrary: i s)
  case 0
  then have "slot s j = None" for j using slot_lt[of s j] by (cases "j < i") (fastforce simp: winding_down_def ranged_def)+
  then show ?case using 0 by simp
next
  case (Suc n)
  have hi: "slot s j = None" if "highest_minor s < j" for j using Suc.prems(2) that by (fastforce simp: winding_down_def ranged_def)
  show ?case
  proof (cases "i > highest_minor s")
    case True
    have "slot s j = None" for j using Suc.prems(4)[of j] hi[of j] True by (cases "j < i") auto
    then show ?thesis using Suc.prems(1,2) True by simp
  next
    case False
    with Suc.prems(1) obtain s1 where s1: "(case slot s i of None \<Rightarrow> Some s | Some a \<Rightarrow> tracer_destroy E K C a s) = Some s1"
      and r: "destroy_devices E K C (Suc i) n s1 = Some s'" by (auto split: bind_splits)
    have "winding_down E s1 \<and> (\<forall>j. slot s1 j = (if j = i then None else slot s j))"
      using s1 Suc.prems(2,3) winding_down_step[of E s i _ K C s1] by (cases "slot s i") auto
    then have w: "winding_down E s1" and sl: "slot s1 j = (if j = i then None else slot s j)" for j by auto
    show ?thesis by (rule Suc.IH[OF r w Suc.prems(3)]) (use Suc.prems(4,5) sl less_Suc_eq in auto)
  qed
qed


lemma destroy_devices_empty: "(\<And>j. slot s j = None) \<Longrightarrow> destroy_devices E K C i n s = Some s"
  by (induction n arbitrary: i) auto


end
