(* ===== verification/Commands.thy ===== *)
theory Commands
  imports Driver
begin

text \<open>What the commands of the control device promise about the slots and the block devices.\<close>

subsection \<open>Free minors\<close>

text \<open>
  C25. The free minor. The command that asks for a free minor answers with the least one, which a following setup
  accepts; it answers with an error exactly when every minor is in use, and then a setup of any minor is refused.
\<close>

theorem get_free_minor_exact:
  "let r = get_free_minor E s in
   if r < 0 then r = - ENOENT \<and> (\<forall>i. verify_minor E i 0 s \<noteq> Some 0)
   else nat r < max_snap_devices E \<and> verify_minor E (nat r) 0 s = Some 0 \<and> (\<forall>i. i < nat r \<longrightarrow> slot s i \<noteq> None)"
proof (cases "find (\<lambda>i. slot s i = None) (tracer_for_each_full E)")
  case None
  then have "get_free_minor E s = - ENOENT" by (simp add: get_free_minor_def)
  moreover have "\<forall>i < max_snap_devices E. slot s i \<noteq> None" using None by (auto simp: find_None_iff tracer_for_each_full_def)
  ultimately show ?thesis by (simp add: verify_minor_def)
next
  case (Some i)
  then have "get_free_minor E s = int i" by (simp add: get_free_minor_def)
  moreover have "i < max_snap_devices E" "slot s i = None" "\<forall>j < i. slot s j \<noteq> None"
    using Some by (auto simp: find_Some_iff tracer_for_each_full_def)
  ultimately show ?thesis by (simp add: verify_minor_def)
qed

theorem get_free_minor_exact_witness:
  "get_free_minor plain_env ((traced_drv ram_world)\<lparr>snap_devices := [Some 0, None, None, None]\<rparr>) = 1 \<and>
   verify_minor plain_env 1 0 ((traced_drv ram_world)\<lparr>snap_devices := [Some 0, None, None, None]\<rparr>) = Some 0"
proof -
  let ?s = "(traced_drv ram_world)\<lparr>snap_devices := [Some 0, None, None, None]\<rparr>"
  have "get_free_minor plain_env ?s = 1" by (simp add: get_free_minor_def tracer_for_each_full_def plain_env_def slot_def upt_conv_Cons)
  then show ?thesis using get_free_minor_exact[of plain_env ?s] by (simp add: Let_def)
qed

subsection \<open>Which block devices are traced\<close>

lemma find_idx_total:
  assumes "\<And>i a. slot s i = Some a \<Longrightarrow> \<exists>dev. d_devs s a = Some dev"
  shows "\<exists>r. find_idx p s is = Some r \<and> (r = None \<longleftrightarrow> (\<forall>i \<in> set is. \<forall>a dev. slot s i = Some a \<longrightarrow> d_devs s a = Some dev \<longrightarrow> \<not> p a dev))"
proof (induction "is")
  case (Cons i "is")
  show ?case
  proof (cases "slot s i")
    case (Some a)
    with assms obtain dev where "d_devs s a = Some dev" by blast
    then show ?thesis using Some Cons by auto
  qed (use Cons in auto)
qed simp

lemma traced_iff_referenced:
  assumes "drv_ok E s"
  shows "bdev_refs s b \<noteq> 0 \<longleftrightarrow> (\<exists>i a dev. slot s i = Some a \<and> d_devs s a = Some dev \<and> \<not> test_bit UNVERIFIED (sd_state dev) \<and> sd_base_dev dev = Some b)"
proof
  assume "bdev_refs s b \<noteq> 0"
  then obtain a where "held_by (d_devs s a) b \<noteq> 0"
    unfolding drv_okD(7)[OF assms] held_by_def[symmetric] by (metis (mono_tags, lifting) add_0 sum.neutral)
  then obtain dev where d: "d_devs s a = Some dev" "sd_base_dev dev = Some b" by (auto simp: held_by_def held_def split: option.splits if_splits)
  have "slot s (sd_minor dev) = Some a" using drv_okD(4)[OF assms d(1)] d(2) by (auto simp: stray_def released_def)
  moreover have "\<not> test_bit UNVERIFIED (sd_state dev)" using drv_okD(8)[OF assms d(1)] d(2) by (auto simp: stray_def idle_def released_def)
  ultimately show "\<exists>i a dev. slot s i = Some a \<and> d_devs s a = Some dev \<and> \<not> test_bit UNVERIFIED (sd_state dev) \<and> sd_base_dev dev = Some b" using d by blast
next
  assume "\<exists>i a dev. slot s i = Some a \<and> d_devs s a = Some dev \<and> \<not> test_bit UNVERIFIED (sd_state dev) \<and> sd_base_dev dev = Some b"
  then obtain a dev where d: "d_devs s a = Some dev" "sd_base_dev dev = Some b" by blast
  have "0 < (\<Sum>a < d_next s. held_by (d_devs s a) b)"
    by (rule sum_pos2[of _ a]) (use d drv_okD(3)[OF assms d(1)] in \<open>auto simp: held_by_def held_def split: option.splits\<close>)
  then show "bdev_refs s b \<noteq> 0" using drv_okD(7)[OF assms, of b] by (simp add: held_by_def)
qed

text \<open>
  C26. The check for a traced block device is exact. From a driver at rest the check that setup makes returns, without
  looking at a device that was freed, and it says that a block device is traced exactly when the driver holds a reference to it.
\<close>

theorem bdev_is_already_traced_exact:
  assumes "drv_ok E s"
  shows "bdev_is_already_traced b s = Some (bdev_refs s b \<noteq> 0)"
proof -
  have live: "\<exists>dev. d_devs s a = Some dev" if "slot s i = Some a" for i a using drv_okD(2)[OF assms that] by blast
  let ?p = "\<lambda>_ dev. \<not> test_bit UNVERIFIED (sd_state dev) \<and> sd_base_dev dev = Some b"
  obtain r where r: "find_idx ?p s (tracer_for_each s) = Some r"
    "r = None \<longleftrightarrow> (\<forall>i \<in> set (tracer_for_each s). \<forall>a dev. slot s i = Some a \<longrightarrow> d_devs s a = Some dev \<longrightarrow> \<not> ?p a dev)"
    using find_idx_total[of s ?p "tracer_for_each s"] live by blast
  have "i \<in> set (tracer_for_each s)" if "slot s i = Some a" for i a
    using drv_okD(1)[OF assms] that by (fastforce simp: ranged_def tracer_for_each_def)
  with r(2) have "r \<noteq> None \<longleftrightarrow> bdev_refs s b \<noteq> 0" unfolding traced_iff_referenced[OF assms] by blast
  then show ?thesis using r(1) by (cases r) (auto simp: bdev_is_already_traced_def find_dev_def)
qed

theorem bdev_is_already_traced_exact_witness:
  "bdev_is_already_traced 0 (traced_drv ram_world) = Some True \<and> bdev_is_already_traced 1 (traced_drv ram_world) = Some False"
  using bdev_is_already_traced_exact[OF traced_drv_ok, of 0 ram_world] bdev_is_already_traced_exact[OF traced_drv_ok, of 1 ram_world]
  by (simp add: traced_drv_def)

subsection \<open>Changing the mode of a device\<close>


text \<open>A mounted machine, and a driver with one active snapshot and its manager.\<close>

definition mounted_env :: sysenv where
  "mounted_env = plain_env\<lparr>e_super := (\<lambda>_ _. Some 0)\<rparr>"

definition snap_drv :: "world \<Rightarrow> u64 \<Rightarrow> drv" where
  "snap_drv w st = (traced_drv w)\<lparr>d_devs := [0 \<mapsto> traced_dev\<lparr>sd_cow := Some 1, sd_state := st\<rparr>], d_cows := [1 \<mapsto> sample_cow], d_next := 2\<rparr>"

lemma snap_slot: "slot (snap_drv w st) i = (if i = 1 then Some 0 else None)"
  by (auto simp: slot_def snap_drv_def traced_drv_def nth_Cons')

lemma snap_drv_ok: "\<not> test_bit UNVERIFIED st \<Longrightarrow> max_snap_devices E = 4 \<Longrightarrow> drv_ok E (snap_drv w st)"
  unfolding drv_lent_def ranged_def snap_slot
  by (auto simp: snap_drv_def traced_drv_def empty_drv_def traced_dev_def tracer_init_def held_def lessThan_Suc numeral_2_eq_2 split: if_splits)

lemma snap_to_inc_eval:
  "\<exists>s'. tracer_active_snap_to_inc mounted_env ram_kernel fn_config 0 (snap_drv ram_world 3) = Some (0, s')"
  apply (simp add: tracer_active_snap_to_inc_def tracer_alloc_def snap_drv_def traced_drv_def traced_dev_def empty_drv_def plain_env_def
    fn_config_def etick_def upd_dev_def with_dev_def tracer_copy_base_dev_def tracer_copy_cow_path_def tracer_copy_cow_def and_then_def mounted_env_def)
  apply (simp add: tracer_setup_cow_thread_def upd_dev_def etick_def)
  apply (simp add: tracer_setup_tracing_def setup_tracing_steps_def Let_def upd_dev_def tracer_init_def)
  apply (simp add: moocbt_find_orig_mrf_def destroy_eval minor_range_include_def start_tracing_def slot_def set_slot_def etick_def)
  apply (simp add: snap_to_inc_commit_def destroy_eval wake_up_process_def etick_def slot_def)
  apply (simp add: cow_truncate_to_index_def sample_cow_def Let_def split: prod.split)
  done


text \<open>
  C28. From incremental to snapshot, all or nothing. The command returns zero exactly when it handed the slot over to a new active
  snapshot of the same base device, with a COW manager of its own; when it returns an error the incremental device is still in
  its slot and nothing that was there has changed.
\<close>

theorem ioctl_transition_snap_hands_over:
  assumes "drv_ok E s" "ioctl_transition_snap E K C i p fs s = Some (ret, s')"
  shows "bdev_refs s' = bdev_refs s \<and> (if ret = 0
    then \<exists>old od a dev. slot s i = Some old \<and> d_devs s old = Some od \<and> snap_devices s' = (snap_devices s)[i := Some a] \<and>
       d_devs s' = (d_devs s)(old := None, a \<mapsto> dev) \<and> sd_minor dev = i \<and> sd_base_dev dev = sd_base_dev od \<and>
       sd_state dev = state_bits True True False 0
    else snap_devices s' = snap_devices s \<and> d_devs s' = d_devs s)"
proof -
  from assms(2) consider "ret \<noteq> 0" "s' = s" | old where "slot s i = Some old" "tracer_active_inc_to_snap E K C old p fs s = Some (ret, s')"
    by (auto simp: ioctl_transition_snap_def split: bind_splits if_splits)
  then show ?thesis
  proof cases
    case 2
    from drv_okD(2)[OF assms(1) 2(1)] obtain od where od: "d_devs s old = Some od" by blast
    from tracer_active_inc_to_snap_ok[OF 2(2) assms(1) 2(1) od] show ?thesis using 2(1) od unfolding handed_def unchanged_def by (cases "ret = 0") auto
  qed simp
qed

theorem ioctl_transition_snap_hands_over_witness:
  "let s = snap_drv ram_world 2; E = mounted_env\<lparr>e_alloc := (\<lambda>_. False)\<rparr> in
   \<exists>s'. ioctl_transition_snap E ram_kernel fn_config 1 ''/cow2'' 0 s = Some (- ENOMEM, s') \<and> snap_devices s' = snap_devices s \<and> d_devs s' = d_devs s"
proof -
  let ?E = "mounted_env\<lparr>e_alloc := (\<lambda>_. False)\<rparr>" and ?s = "snap_drv ram_world 2"
  have d: "d_devs ?s 0 = Some (traced_dev\<lparr>sd_cow := Some 1, sd_state := 2\<rparr>)" by (simp add: snap_drv_def traced_drv_def)
  have "\<exists>s'. ioctl_transition_snap ?E ram_kernel fn_config 1 ''/cow2'' 0 ?s = Some (- ENOMEM, s')"
    using d by (simp add: ioctl_transition_snap_def verify_minor_def snap_slot tracer_read_fail_state_def test_bit_def tracer_active_inc_to_snap_def tracer_alloc_def)
      (simp add: mounted_env_def plain_env_def traced_dev_def tracer_init_def)
  then obtain s' where e: "ioctl_transition_snap ?E ram_kernel fn_config 1 ''/cow2'' 0 ?s = Some (- ENOMEM, s')" by blast
  have ok: "drv_ok ?E ?s" by (rule snap_drv_ok) (simp_all add: mounted_env_def plain_env_def test_bit_def)
  show ?thesis using ioctl_transition_snap_hands_over[OF ok e] e by (auto simp: Let_def)
qed

end
