(* ===== verification/Libmoocbt.thy ===== *)
theory Libmoocbt
  imports Ioctl
begin

text \<open>
  The user space side: the library that wraps the control device (\<^verbatim>\<open>src/lib/libmoocbt.c\<close>) and the numbers that the
  command line tools read.
\<close>

subsection \<open>The library\<close>

text \<open>
  A call of the library opens the control device, or fails with the error number of \<^verbatim>\<open>open\<close>, and issues one command. The C library turns
  a negative result into \<open>-1\<close> and an error number. The result: the value, \<^verbatim>\<open>errno\<close>, the reply and the driver.
\<close>

type_synonym lib_res = "(int \<times> int \<times> reply \<times> drv) option"

definition ctl_call :: "sysenv \<Rightarrow> kernel \<Rightarrow> config \<Rightarrow> int option \<Rightarrow> ioctl_cmd \<Rightarrow> drv \<Rightarrow> lib_res" where
  "ctl_call E K C open_error cmd s =
     (case open_error of
        Some e \<Rightarrow> Some (- 1, e, No_Reply, s)
      | None \<Rightarrow> do {
          (ret, rep, s) \<leftarrow> ctrl_ioctl E K C cmd s;
          Some (if - 4095 \<le> ret \<and> ret < 0 then (- 1, - ret, rep, s) else (ret, 0, rep, s))
        })"

definition moocbt_setup_snapshot ::
  "sysenv \<Rightarrow> kernel \<Rightarrow> config \<Rightarrow> int option \<Rightarrow> nat \<Rightarrow> ustring \<Rightarrow> ustring \<Rightarrow> u64 \<Rightarrow> u64 \<Rightarrow> drv \<Rightarrow> lib_res" where
  "moocbt_setup_snapshot E K C oe minor bdev cow fallocated_space cache_size s =
     ctl_call E K C oe (IOCTL_SETUP_SNAP (Some \<lparr>p_bdev = bdev, p_cow = cow, p_fallocated_space = fallocated_space, p_cache_size = cache_size, p_minor = minor\<rparr>)) s"

definition moocbt_reload_snapshot ::
  "sysenv \<Rightarrow> kernel \<Rightarrow> config \<Rightarrow> int option \<Rightarrow> nat \<Rightarrow> ustring \<Rightarrow> ustring \<Rightarrow> u64 \<Rightarrow> drv \<Rightarrow> lib_res" where
  "moocbt_reload_snapshot E K C oe minor bdev cow cache_size s =
     ctl_call E K C oe (IOCTL_RELOAD_SNAP (Some \<lparr>r_bdev = bdev, r_cow = cow, r_cache_size = cache_size, r_minor = minor\<rparr>)) s"

definition moocbt_reload_incremental ::
  "sysenv \<Rightarrow> kernel \<Rightarrow> config \<Rightarrow> int option \<Rightarrow> nat \<Rightarrow> ustring \<Rightarrow> ustring \<Rightarrow> u64 \<Rightarrow> drv \<Rightarrow> lib_res" where
  "moocbt_reload_incremental E K C oe minor bdev cow cache_size s =
     ctl_call E K C oe (IOCTL_RELOAD_INC (Some \<lparr>r_bdev = bdev, r_cow = cow, r_cache_size = cache_size, r_minor = minor\<rparr>)) s"

definition moocbt_destroy :: "sysenv \<Rightarrow> kernel \<Rightarrow> config \<Rightarrow> int option \<Rightarrow> nat \<Rightarrow> drv \<Rightarrow> lib_res" where
  "moocbt_destroy E K C oe minor s = ctl_call E K C oe (IOCTL_DESTROY (Some minor)) s"

definition moocbt_transition_incremental :: "sysenv \<Rightarrow> kernel \<Rightarrow> config \<Rightarrow> int option \<Rightarrow> nat \<Rightarrow> drv \<Rightarrow> lib_res" where
  "moocbt_transition_incremental E K C oe minor s = ctl_call E K C oe (IOCTL_TRANSITION_INC (Some minor)) s"

definition moocbt_transition_snapshot ::
  "sysenv \<Rightarrow> kernel \<Rightarrow> config \<Rightarrow> int option \<Rightarrow> nat \<Rightarrow> ustring \<Rightarrow> u64 \<Rightarrow> drv \<Rightarrow> lib_res" where
  "moocbt_transition_snapshot E K C oe minor cow fallocated_space s =
     ctl_call E K C oe (IOCTL_TRANSITION_SNAP (Some \<lparr>t_cow = cow, t_fallocated_space = fallocated_space, t_minor = minor\<rparr>)) s"

definition moocbt_reconfigure :: "sysenv \<Rightarrow> kernel \<Rightarrow> config \<Rightarrow> int option \<Rightarrow> nat \<Rightarrow> u64 \<Rightarrow> drv \<Rightarrow> lib_res" where
  "moocbt_reconfigure E K C oe minor cache_size s =
     ctl_call E K C oe (IOCTL_RECONFIGURE (Some \<lparr>c_cache_size = cache_size, c_minor = minor\<rparr>)) s"

text \<open>The information is written to the structure of the caller, which may be missing; its other fields are what they were.\<close>

definition lib_moocbt_info :: "sysenv \<Rightarrow> kernel \<Rightarrow> config \<Rightarrow> int option \<Rightarrow> nat \<Rightarrow> moocbt_info option \<Rightarrow> drv \<Rightarrow> lib_res" where
  "lib_moocbt_info E K C oe minor info s =
     (case info of None \<Rightarrow> Some (- 1, EINVAL, No_Reply, s)
      | Some info \<Rightarrow> ctl_call E K C oe (IOCTL_MOOCBT_INFO (Some (info\<lparr>i_minor := minor\<rparr>)) True) s)"

definition moocbt_get_free_minor :: "sysenv \<Rightarrow> kernel \<Rightarrow> config \<Rightarrow> int option \<Rightarrow> drv \<Rightarrow> (int \<times> int \<times> drv) option" where
  "moocbt_get_free_minor E K C oe s = do {
     (ret, errno, rep, s) \<leftarrow> ctl_call E K C oe (IOCTL_GET_FREE True) s;
     Some (if ret = 0 then (case rep of Minor_Reply m \<Rightarrow> int m | _ \<Rightarrow> 0) else ret, errno, s)
   }"

subsection \<open>Numbers\<close>

definition isdigit :: "char \<Rightarrow> bool" where
  "isdigit c \<longleftrightarrow> c \<in> set ''0123456789''"

definition digit_val :: "char \<Rightarrow> nat" where
  "digit_val c = of_char c - 48"

definition base_val :: "nat \<Rightarrow> string \<Rightarrow> nat" where
  "base_val b ds = foldl (\<lambda>n c. b * n + digit_val c) 0 ds"

text \<open>The decimal notation of a number.\<close>

definition digit :: "nat \<Rightarrow> char" where
  "digit n = ''0123456789'' ! n"

fun decimal :: "nat \<Rightarrow> string" where
  "decimal n = (if n < 10 then [digit n] else decimal (n div 10) @ [digit (n mod 10)])"

declare decimal.simps [simp del]

lemma digit_props: "n < 10 \<Longrightarrow> isdigit (digit n) \<and> digit_val (digit n) = n \<and> (digit n = CHR ''0'' \<longrightarrow> n = 0)"
proof -
  assume "n < 10"
  then have "n = 0 \<or> n = 1 \<or> n = 2 \<or> n = 3 \<or> n = 4 \<or> n = 5 \<or> n = 6 \<or> n = 7 \<or> n = 8 \<or> n = 9" by arith
  then show ?thesis by (elim disjE) (simp_all add: isdigit_def digit_val_def digit_def)
qed

lemma decimal_digits: "decimal n \<noteq> [] \<and> list_all isdigit (decimal n) \<and> base_val 10 (decimal n) = n"
proof (induction n rule: decimal.induct)
  case (1 n)
  show ?case
  proof (cases "n < 10")
    case True
    then show ?thesis by (simp add: decimal.simps digit_props base_val_def)
  next
    case False
    then show ?thesis using 1[OF False] digit_props[of "n mod 10"] by (subst (1 2 3) decimal.simps) (simp add: base_val_def)
  qed
qed

lemma decimal_hd: "0 < n \<Longrightarrow> hd (decimal n) \<noteq> CHR ''0''"
proof (induction n rule: decimal.induct)
  case (1 n)
  show ?case
  proof (cases "n < 10")
    case True
    then show ?thesis using digit_props[OF True] 1(2) by (auto simp: decimal.simps)
  next
    case False
    then show ?thesis using 1(1)[OF False] decimal_digits[of "n div 10"] by (subst decimal.simps) simp
  qed
qed

end
