(* ===== verification/Update_Img.thy ===== *)
theory Update_Img
  imports Libmoocbt Cow_Life
begin

text \<open>
  The tool that brings an image up to date (\<^verbatim>\<open>src/utils/update-img.c\<close>): it copies the blocks that the index of an incremental
  COW file marks from the next snapshot to the image of the previous one.
\<close>

subsection \<open>Files\<close>

text \<open>
  A file that is read: its bytes and its size. The system: which calls fail and with what error number, and how many bytes a
  call transfers at most; whether memory can be allocated. The state: \<^verbatim>\<open>errno\<close>, the number of calls made, and the image.
\<close>

record ufile =
  uf_data :: buf
  uf_size :: nat

record uos =
  u_fault :: "nat \<Rightarrow> int option"
  u_room :: "nat \<Rightarrow> nat"
  u_malloc :: "nat \<Rightarrow> bool"

record ustate =
  u_errno :: int
  u_clock :: nat
  u_img :: buf

definition utick :: "ustate \<Rightarrow> ustate" where
  "utick st = st\<lparr>u_clock := Suc (u_clock st)\<rparr>"

text \<open>\<^verbatim>\<open>pread\<close> and \<^verbatim>\<open>pwrite\<close>: \<open>None\<close> for the result \<open>-1\<close>; a read stops at the end of the file.\<close>

definition pread :: "uos \<Rightarrow> ufile \<Rightarrow> nat \<Rightarrow> nat \<Rightarrow> ustate \<Rightarrow> nat option \<times> buf \<times> ustate" where
  "pread U f off len st =
     (case u_fault U (u_clock st) of
        Some e \<Rightarrow> (None, (\<lambda>_. 0), (utick st)\<lparr>u_errno := e\<rparr>)
      | None \<Rightarrow> (Some (min (u_room U (u_clock st)) (min len (uf_size f - off))), (\<lambda>i. uf_data f (off + i)), utick st))"

definition pwrite :: "uos \<Rightarrow> buf \<Rightarrow> nat \<Rightarrow> nat \<Rightarrow> ustate \<Rightarrow> nat option \<times> ustate" where
  "pwrite U b off len st =
     (case u_fault U (u_clock st) of
        Some e \<Rightarrow> (None, (utick st)\<lparr>u_errno := e\<rparr>)
      | None \<Rightarrow> let n = min (u_room U (u_clock st)) len in
          (Some n, (utick st)\<lparr>u_img := (\<lambda>x. if off \<le> x \<and> x < off + n then b (x - off) else u_img st x)\<rparr>))"

subsection \<open>The tool\<close>

abbreviation (input) INDEX_BUFFER_SIZE :: nat where "INDEX_BUFFER_SIZE \<equiv> 8192"
abbreviation (input) SIZEOF_UINT64 :: nat where "SIZEOF_UINT64 \<equiv> 8"

definition copy_block :: "uos \<Rightarrow> ufile \<Rightarrow> nat \<Rightarrow> ustate \<Rightarrow> int \<times> ustate" where
  "copy_block U snap block st =
     (let (bytes, buf, st) = pread U snap (block * COW_BLOCK_SIZE) COW_BLOCK_SIZE st in
      if bytes \<noteq> Some COW_BLOCK_SIZE then (u_errno st, st\<lparr>u_errno := 0\<rparr>)
      else let (bytes, st) = pwrite U buf (block * COW_BLOCK_SIZE) COW_BLOCK_SIZE st in
        if bytes \<noteq> Some COW_BLOCK_SIZE then (u_errno st, st\<lparr>u_errno := 0\<rparr>) else (0, st))"

text \<open>\<open>info\<close> is what the library call answers: an error number or the information.\<close>

definition verify_files :: "uos \<Rightarrow> ufile \<Rightarrow> int + moocbt_info \<Rightarrow> ustate \<Rightarrow> int \<times> ustate" where
  "verify_files U cow info st =
     (if \<not> u_malloc U (u_clock st) then (ENOMEM, (utick st)\<lparr>u_errno := 0\<rparr>)
      else let st = utick st in
        case info of
          Inl e \<Rightarrow> (e, st\<lparr>u_errno := 0\<rparr>)
        | Inr info \<Rightarrow>
            let (bytes, b, st) = pread U cow 0 SIZEOF_COW_HEADER st; ch = buf_header b in
            if bytes \<noteq> Some SIZEOF_COW_HEADER then (u_errno st, st\<lparr>u_errno := 0\<rparr>)
            else if h_magic ch \<noteq> COW_MAGIC then (EINVAL, st)
            else if h_uuid ch \<noteq> i_uuid info then (EINVAL, st)
            else if h_seqid ch \<noteq> i_seqid info - 1 then (EINVAL, st)
            else (0, st))"

text \<open>The blocks of one chunk of the index, with the counters of copied blocks and of errors.\<close>

fun copy_chunk :: "uos \<Rightarrow> ufile \<Rightarrow> (nat \<Rightarrow> u64) \<Rightarrow> nat \<Rightarrow> nat list \<Rightarrow> nat \<times> nat \<times> ustate \<Rightarrow> nat \<times> nat \<times> ustate" where
  "copy_chunk U snap mp i [] (count, err_count, st) = (count, err_count, st)"
| "copy_chunk U snap mp i (j # js) (count, err_count, st) =
     (if mp j = 0 then copy_chunk U snap mp i js (count, err_count, st)
      else let (ret, st) = copy_block U snap (INDEX_BUFFER_SIZE * i + j) st in
        copy_chunk U snap mp i js (Suc count, if ret \<noteq> 0 then Suc err_count else err_count, st))"

fun copy_chunks ::
  "uos \<Rightarrow> ufile \<Rightarrow> ufile \<Rightarrow> nat \<Rightarrow> nat list \<Rightarrow> nat \<Rightarrow> nat \<times> nat \<times> ustate \<Rightarrow> int \<times> nat \<times> nat \<times> ustate" where
  "copy_chunks U snap cow total_blocks [] blocks_done r = (0, r)"
| "copy_chunks U snap cow total_blocks (i # is) blocks_done (count, err_count, st) =
     (let blocks_to_read = min INDEX_BUFFER_SIZE (total_blocks - blocks_done);
          (bytes, b, st) = pread U cow (COW_HEADER_SIZE + INDEX_BUFFER_SIZE * SIZEOF_UINT64 * i) (blocks_to_read * SIZEOF_UINT64) st
      in if bytes \<noteq> Some (blocks_to_read * SIZEOF_UINT64) then (u_errno st, count, err_count, st\<lparr>u_errno := 0\<rparr>)
         else copy_chunks U snap cow total_blocks is (blocks_done + blocks_to_read)
           (copy_chunk U snap (buf_mappings b) i [0..<blocks_to_read] (count, err_count, st)))"

definition merge_blocks :: "uos \<Rightarrow> ufile \<Rightarrow> ufile \<Rightarrow> ustate \<Rightarrow> int \<times> nat \<times> nat \<times> ustate" where
  "merge_blocks U snap cow st =
     (let total_blocks = (uf_size snap + COW_BLOCK_SIZE - 1) div COW_BLOCK_SIZE;
          total_chunks = (total_blocks + INDEX_BUFFER_SIZE - 1) div INDEX_BUFFER_SIZE
      in if \<not> u_malloc U (u_clock st) then (ENOMEM, 0, 0, utick st)
         else copy_chunks U snap cow total_blocks [0..<total_chunks] 0 (0, 0, utick st))"

text \<open>
  The main function, after its arguments: the three files are opened, with an error number each when that fails, the
  path of the snapshot is resolved and must be the name of a snapshot device.
\<close>

record opened =
  o_snap :: "int option"
  o_cow :: "int option"
  o_img :: "int option"
  o_realpath :: "int + string"

text \<open>\<^verbatim>\<open>sscanf\<close> with the format \<^verbatim>\<open>/dev/moocbt%u\<close>: the prefix and a number, on a path without blanks or signs.\<close>

definition scan_minor :: "string \<Rightarrow> nat option" where
  "scan_minor path =
     (let n = length ''/dev/moocbt''; ds = takeWhile isdigit (drop n path) in
      if take n path = ''/dev/moocbt'' \<and> ds \<noteq> [] then Some (base_val 10 ds mod 2 ^ 32) else None)"

definition update_img ::
  "uos \<Rightarrow> opened \<Rightarrow> (nat \<Rightarrow> int + moocbt_info) \<Rightarrow> ufile \<Rightarrow> ufile \<Rightarrow> ustate \<Rightarrow> int \<times> nat \<times> nat \<times> ustate" where
  "update_img U fs info snap cow st =
     (case (o_snap fs, o_cow fs, o_img fs, o_realpath fs) of
        (Some e, _) \<Rightarrow> (e, 0, 0, st)
      | (_, Some e, _) \<Rightarrow> (e, 0, 0, st)
      | (_, _, Some e, _) \<Rightarrow> (e, 0, 0, st)
      | (_, _, _, Inl e) \<Rightarrow> (e, 0, 0, st)
      | (_, _, _, Inr path) \<Rightarrow>
          (case scan_minor path of
             None \<Rightarrow> (u_errno st, 0, 0, st\<lparr>u_errno := 0\<rparr>)
           | Some minor \<Rightarrow>
               let (ret, st) = verify_files U cow (info minor) st in
               if ret \<noteq> 0 then (ret, 0, 0, st) else merge_blocks U snap cow st))"

subsection \<open>What the tool does to the image\<close>

text \<open>A system on which no call fails or transfers less than it can.\<close>

definition steady :: "uos \<Rightarrow> bool" where
  "steady U \<longleftrightarrow> (\<forall>t. u_fault U t = None \<and> INDEX_BUFFER_SIZE * SIZEOF_UINT64 \<le> u_room U t \<and> u_malloc U t)"

text \<open>The image with the blocks that \<open>F\<close> selects taken from the snapshot.\<close>

definition merged :: "(nat \<Rightarrow> bool) \<Rightarrow> buf \<Rightarrow> buf \<Rightarrow> buf" where
  "merged F new img x = (if F (x div COW_BLOCK_SIZE) then new x else img x)"

lemma merged_merged: "merged F new (merged G new img) = merged (\<lambda>b. F b \<or> G b) new img"
  by (auto simp: merged_def)

lemma merged_cong: "(\<And>b. F b = G b) \<Longrightarrow> merged F new img = merged G new img"
  by (rule arg_cong[where f = "\<lambda>F. merged F new img"]) (rule ext)

lemma block_div: "(block * 4096 \<le> x \<and> x < block * 4096 + 4096) \<longleftrightarrow> x div 4096 = block" for x block :: nat
  by (auto simp: div_nat_eqI)

definition whole :: "ufile \<Rightarrow> nat \<Rightarrow> bool" where
  "whole f b \<longleftrightarrow> b < uf_size f div COW_BLOCK_SIZE"

lemma copy_block_steady:
  assumes "steady U" "u_errno st = 0"
  shows "\<exists>st'. copy_block U snap block st = (0, st') \<and> u_errno st' = 0 \<and>
    u_img st' = merged (\<lambda>b. b = block \<and> whole snap b) (uf_data snap) (u_img st)"
proof -
  have f: "u_fault U t = None" "65536 \<le> u_room U t" for t using assms(1) by (auto simp: steady_def)
  have m: "min (u_room U t) n = n" if "n \<le> 65536" for t n using f(2)[of t] that by simp
  show ?thesis
  proof (cases "whole snap block")
    case True
    then have "Suc block * 4096 \<le> uf_size snap" by (simp add: whole_def less_eq_div_iff_mult_less_eq Suc_le_eq[symmetric])
    then have "min 4096 (uf_size snap - block * 4096) = 4096" by simp
    then have "copy_block U snap block st = (0, (utick (utick st))\<lparr>u_img := (\<lambda>x. if block * 4096 \<le> x \<and> x < block * 4096 + 4096
        then uf_data snap (block * 4096 + (x - block * 4096)) else u_img st x)\<rparr>)"
      by (simp add: copy_block_def pread_def pwrite_def f(1) m Let_def utick_def cong: if_cong)
    then show ?thesis using assms(2) True by (auto simp: merged_def block_div utick_def fun_eq_iff)
  next
    case False
    then have "uf_size snap < Suc block * 4096" by (simp add: whole_def less_eq_div_iff_mult_less_eq Suc_le_eq[symmetric])
    then have "uf_size snap - block * 4096 < 4096" by auto
    then have "copy_block U snap block st = (0, utick st)"
      using assms(2) by (simp add: copy_block_def pread_def f(1) m Let_def utick_def)
    then show ?thesis using assms(2) False by (auto simp: merged_def utick_def)
  qed
qed

lemma copy_chunk_steady:
  assumes "steady U" "u_errno st = 0"
  shows "\<exists>st'. copy_chunk U snap mp i js (count, err, st) = (count + length (filter (\<lambda>j. mp j \<noteq> 0) js), err, st') \<and> u_errno st' = 0 \<and>
    u_img st' = merged (\<lambda>b. (\<exists>j \<in> set js. mp j \<noteq> 0 \<and> b = INDEX_BUFFER_SIZE * i + j) \<and> whole snap b) (uf_data snap) (u_img st)"
  using assms(2)
proof (induction js arbitrary: count st)
  case Nil
  then show ?case by (auto simp: merged_def)
next
  case (Cons j js)
  show ?case
  proof (cases "mp j = 0")
    case True
    then show ?thesis using Cons.IH[OF Cons.prems, of count] by auto
  next
    case False
    obtain st1 where 1: "copy_block U snap (8192 * i + j) st = (0, st1)" "u_errno st1 = 0"
      "u_img st1 = merged (\<lambda>b. b = 8192 * i + j \<and> whole snap b) (uf_data snap) (u_img st)"
      using copy_block_steady[OF assms(1) Cons.prems] by blast
    from Cons.IH[OF 1(2), of "Suc count"] False 1 show ?thesis
      by (auto simp: merged_merged intro!: merged_cong)
  qed
qed

text \<open>The block is marked in the index of the COW file.\<close>

definition marked :: "ufile \<Rightarrow> nat \<Rightarrow> bool" where
  "marked cow b \<longleftrightarrow> buf_mappings (\<lambda>a. uf_data cow (COW_HEADER_SIZE + a)) b \<noteq> 0"

lemma chunk_mapping: "buf_mappings (\<lambda>a. f (4096 + 8192 * 8 * i + a)) j = buf_mappings (\<lambda>a. f (4096 + a)) (8192 * i + j)"
  by (simp add: buf_mappings_def algebra_simps)

lemma filter_upt_card: "length (filter P [0..<k]) = card {b. a \<le> b \<and> b < a + k \<and> P (b - a)}"
proof -
  have "length (filter P [0..<k]) = card {j. j < k \<and> P j}" by (simp add: length_filter_conv_card cong: conj_cong)
  also have "\<dots> = card ((\<lambda>j. a + j) ` {j. j < k \<and> P j})" by (simp add: card_image)
  also have "(\<lambda>j. a + j) ` {j. j < k \<and> P j} = {b. a \<le> b \<and> b < a + k \<and> P (b - a)}"
    by (auto simp: image_iff le_iff_add)
  finally show ?thesis .
qed

lemma copy_chunks_steady:
  assumes "steady U" "u_errno st = 0" "COW_HEADER_SIZE + SIZEOF_UINT64 * N \<le> uf_size cow" "N \<le> INDEX_BUFFER_SIZE * m" "n \<le> m"
  shows "\<exists>st'. copy_chunks U snap cow N [m - n..<m] (min N (INDEX_BUFFER_SIZE * (m - n))) (count, err, st) =
      (0, count + card {b. INDEX_BUFFER_SIZE * (m - n) \<le> b \<and> b < N \<and> marked cow b}, err, st') \<and> u_errno st' = 0 \<and>
    u_img st' = merged (\<lambda>b. INDEX_BUFFER_SIZE * (m - n) \<le> b \<and> b < N \<and> marked cow b \<and> whole snap b) (uf_data snap) (u_img st)"
  using assms(2,5)
proof (induction n arbitrary: count st)
  case 0
  have e: "{b. 8192 * m \<le> b \<and> b < N \<and> marked cow b} = {}" using assms(4) by auto
  then show ?case using 0(1) assms(4) by (auto simp: merged_def fun_eq_iff)
next
  case (Suc n)
  let ?i = "m - Suc n"
  have i: "Suc ?i = m - n" "[?i..<m] = ?i # [m - n..<m]" using Suc.prems(2) by (auto simp: upt_conv_Cons Suc_diff_Suc)
  let ?k = "min 8192 (N - min N (8192 * ?i))"
  have f: "u_fault U t = None" "65536 \<le> u_room U t" for t using assms(1) by (auto simp: steady_def)
  have sz: "min (u_room U t) (min (?k * 8) (uf_size cow - (4096 + 8192 * 8 * ?i))) = ?k * 8" for t
    using f(2)[of t] assms(3) by (auto simp: min_def)
  let ?b = "\<lambda>a. uf_data cow (4096 + 8192 * 8 * ?i + a)"
  from copy_chunk_steady[OF assms(1), of "utick st" snap "buf_mappings ?b" ?i "[0..<?k]" count err] Suc.prems(1)
  obtain st1 where 1: "copy_chunk U snap (buf_mappings ?b) ?i [0..<?k] (count, err, utick st)
      = (count + length (filter (\<lambda>j. buf_mappings ?b j \<noteq> 0) [0..<?k]), err, st1)" "u_errno st1 = 0"
    "u_img st1 = merged (\<lambda>b. (\<exists>j \<in> set [0..<?k]. buf_mappings ?b j \<noteq> 0 \<and> b = 8192 * ?i + j) \<and> whole snap b) (uf_data snap) (u_img st)"
    by (auto simp: utick_def)
  have pos: "min N (8192 * ?i) + ?k = min N (8192 * (m - n))" using i(1) by (auto simp: min_def)
  have step: "copy_chunks U snap cow N [?i..<m] (min N (8192 * ?i)) (count, err, st)
      = copy_chunks U snap cow N [m - n..<m] (min N (8192 * (m - n))) (count + length (filter (\<lambda>j. buf_mappings ?b j \<noteq> 0) [0..<?k]), err, st1)"
  proof -
    have r: "pread U cow (4096 + 8192 * 8 * ?i) (?k * 8) st = (Some (?k * 8), ?b, utick st)" by (simp only: pread_def f(1) option.case sz)
    show ?thesis unfolding i(2) copy_chunks.simps Let_def r prod.case 1(1) pos by simp
  qed
  have k: "j < ?k \<longleftrightarrow> 8192 * ?i + j < min N (8192 * (m - n))" for j using i(1) by (auto simp: min_def)
  have sel: "(\<exists>j \<in> set [0..<?k]. buf_mappings ?b j \<noteq> 0 \<and> b = 8192 * ?i + j) \<longleftrightarrow> 8192 * ?i \<le> b \<and> b < min N (8192 * (m - n)) \<and> marked cow b" for b
    unfolding chunk_mapping marked_def set_upt atLeastLessThan_iff Bex_def k by (metis le_add1 le_add_diff_inverse zero_le)
  have kb: "b < 8192 * ?i + ?k \<longleftrightarrow> b < min N (8192 * (m - n))" if "8192 * ?i \<le> b" for b
    using k[of "b - 8192 * ?i"] less_diff_conv2[OF that, of ?k] that by (simp only: le_add_diff_inverse le_add_diff_inverse2 add.commute[of "8192 * ?i"])
  have cnt: "length (filter (\<lambda>j. buf_mappings ?b j \<noteq> 0) [0..<?k]) = card {b. 8192 * ?i \<le> b \<and> b < min N (8192 * (m - n)) \<and> marked cow b}"
    unfolding filter_upt_card[where a = "8192 * ?i"] chunk_mapping marked_def
    by (rule arg_cong[of _ _ card], rule Collect_cong, rule conj_cong[OF refl], rule conj_cong) (simp_all add: kb)
  have "card {b. 8192 * ?i \<le> b \<and> b < min N (8192 * (m - n)) \<and> marked cow b} + card {b. 8192 * (m - n) \<le> b \<and> b < N \<and> marked cow b}
      = card {b. 8192 * ?i \<le> b \<and> b < N \<and> marked cow b}"
    by (subst card_Un_disjoint[symmetric]) (use i(1) in \<open>auto intro!: arg_cong[of _ _ card]\<close>)
  moreover obtain st' where "copy_chunks U snap cow N [m - n..<m] (min N (8192 * (m - n))) (count + length (filter (\<lambda>j. buf_mappings ?b j \<noteq> 0) [0..<?k]), err, st1) =
      (0, count + length (filter (\<lambda>j. buf_mappings ?b j \<noteq> 0) [0..<?k]) + card {b. 8192 * (m - n) \<le> b \<and> b < N \<and> marked cow b}, err, st')" "u_errno st' = 0"
    "u_img st' = merged (\<lambda>b. 8192 * (m - n) \<le> b \<and> b < N \<and> marked cow b \<and> whole snap b) (uf_data snap) (u_img st1)"
    using Suc.IH[OF 1(2)] Suc.prems(2) by auto
  ultimately show ?case unfolding step cnt using 1(3)[unfolded sel] i(1)
    by (auto simp: merged_merged intro!: merged_cong)
qed

lemma merge_blocks_steady:
  assumes "steady U" "u_errno st = 0"
    and "COW_HEADER_SIZE + SIZEOF_UINT64 * ((uf_size snap + COW_BLOCK_SIZE - 1) div COW_BLOCK_SIZE) \<le> uf_size cow"
  shows "\<exists>st'. merge_blocks U snap cow st = (0, card {b. b < (uf_size snap + COW_BLOCK_SIZE - 1) div COW_BLOCK_SIZE \<and> marked cow b}, 0, st') \<and>
    u_img st' = merged (\<lambda>b. whole snap b \<and> marked cow b) (uf_data snap) (u_img st)"
proof -
  define N where "N = (uf_size snap + 4096 - 1) div 4096"
  define m where "m = (N + 8192 - 1) div 8192"
  have m: "N \<le> 8192 * m" unfolding m_def by linarith
  have W: "whole snap b \<Longrightarrow> b < N" for b unfolding whole_def N_def by linarith
  have st: "u_errno (utick st) = 0" "u_img (utick st) = u_img st" using assms(2) by (simp_all add: utick_def)
  have al: "u_malloc U t" for t using assms(1) by (simp add: steady_def)
  from copy_chunks_steady[OF assms(1) st(1) assms(3)[folded N_def] m order_refl, of snap 0 0]
  obtain st' where "copy_chunks U snap cow N [0..<m] 0 (0, 0, utick st) = (0, card {b. b < N \<and> marked cow b}, 0, st')"
    "u_img st' = merged (\<lambda>b. b < N \<and> marked cow b \<and> whole snap b) (uf_data snap) (u_img st)" by (auto simp: st(2))
  then show ?thesis using W al unfolding merge_blocks_def Let_def N_def[symmetric] m_def[symmetric]
    by (auto intro!: merged_cong)
qed

lemma verify_files_keeps: "verify_files U cow info st = (0, st1) \<Longrightarrow> u_errno st = 0 \<Longrightarrow> u_errno st1 = 0 \<and> u_img st1 = u_img st"
  by (auto simp: verify_files_def Let_def pread_def utick_def split: if_splits sum.splits option.splits)

text \<open>
  C29. The tool copies exactly the marked blocks. On a system where no call fails, once the files are opened and verified, and with an
  index that covers the snapshot, the tool ends with code zero and no error; every byte of the image that lies in a whole block of the
  snapshot that the index marks comes from the snapshot, and every other byte is as before; the number of blocks it
  reports is the number of marked blocks of the snapshot. In particular a last block that is not whole is counted as
  copied, but never is.
\<close>

theorem update_img_copies_marked:
  assumes "steady U" "u_errno st = 0" "o_snap fs = None" "o_cow fs = None" "o_img fs = None" "o_realpath fs = Inr path" "scan_minor path = Some minor"
    and "verify_files U cow (info minor) st = (0, st1)"
    and "COW_HEADER_SIZE + SIZEOF_UINT64 * ((uf_size snap + COW_BLOCK_SIZE - 1) div COW_BLOCK_SIZE) \<le> uf_size cow"
  shows "\<exists>st'. update_img U fs info snap cow st =
      (0, card {b. b < (uf_size snap + COW_BLOCK_SIZE - 1) div COW_BLOCK_SIZE \<and> marked cow b}, 0, st') \<and>
    (\<forall>x. u_img st' x = (if x div COW_BLOCK_SIZE < uf_size snap div COW_BLOCK_SIZE \<and> marked cow (x div COW_BLOCK_SIZE) then uf_data snap x else u_img st x))"
proof -
  have "u_errno st1 = 0 \<and> u_img st1 = u_img st" by (rule verify_files_keeps[OF assms(8,2)])
  with merge_blocks_steady[OF assms(1) _ assms(9), of st1] assms(3-8) show ?thesis
    by (auto simp: update_img_def merged_def whole_def)
qed

text \<open>A snapshot of two and a half blocks whose index marks blocks 0 and 2.\<close>

definition sample_os :: uos where
  "sample_os = \<lparr>u_fault = (\<lambda>_. None), u_room = (\<lambda>_. 65536), u_malloc = (\<lambda>_. True)\<rparr>"

definition sample_info :: moocbt_info where
  "sample_info = \<lparr>i_minor = 3, i_state = 3, i_error = 0, i_cache_size = 0, i_cow = ''/cow'', i_bdev = ''/dev/sda1'', i_uuid = replicate 16 7,
     i_falloc_size = 0, i_seqid = 2, i_version = 1, i_nr_changed_blocks = 0\<rparr>"

definition sample_header :: cow_header where
  "sample_header = \<lparr>h_magic = COW_MAGIC, h_flags = 3, h_fpos = 0, h_fsize = 0, h_seqid = 1, h_uuid = replicate 16 7, h_version = 1, h_nr_changed_blocks = 2\<rparr>"

definition sample_cow_data :: buf where
  "sample_cow_data x = (if x < 64 then header_buf sample_header x else if x = 4096 \<or> x = 4112 then 1 else 0)"

lemma sample_cow_header: "buf_header (\<lambda>i. sample_cow_data i) = sample_header"
proof -
  have "buf_header sample_cow_data = buf_header (header_buf sample_header)"
    unfolding buf_header_def by (auto simp: sample_cow_data_def intro!: le_word32_cong le_word64_cong)
  then show ?thesis by (simp add: buf_header_header_buf sample_header_def)
qed

lemma sample_marked: "b < 3 \<Longrightarrow> marked \<lparr>uf_data = sample_cow_data, uf_size = 12288\<rparr> b \<longleftrightarrow> b = 0 \<or> b = 2"
proof -
  assume "b < 3"
  then have "b = 0 \<or> b = 1 \<or> b = 2" by arith
  moreover have "sample_cow_data (4096 + x) = (if x = 0 \<or> x = 16 then 1 else 0)" for x by (simp add: sample_cow_data_def)
  ultimately show ?thesis by (elim disjE) (simp_all add: marked_def buf_mappings_def le_word64_def)
qed

theorem update_img_copies_marked_witness:
  "\<exists>st'. update_img sample_os \<lparr>o_snap = None, o_cow = None, o_img = None, o_realpath = Inr ''/dev/moocbt3''\<rparr> (\<lambda>_. Inr sample_info)
      \<lparr>uf_data = (\<lambda>_. 9), uf_size = 10240\<rparr> \<lparr>uf_data = sample_cow_data, uf_size = 12288\<rparr> \<lparr>u_errno = 0, u_clock = 0, u_img = (\<lambda>_. 0)\<rparr> = (0, 2, 0, st') \<and>
    u_img st' 4095 = 9 \<and> u_img st' 4096 = 0 \<and> u_img st' 8192 = 0"
proof -
  let ?cow = "\<lparr>uf_data = sample_cow_data, uf_size = 12288\<rparr>" and ?st = "\<lparr>u_errno = 0, u_clock = 0, u_img = (\<lambda>_. 0)\<rparr>"
  let ?fs = "\<lparr>o_snap = None, o_cow = None, o_img = None, o_realpath = Inr ''/dev/moocbt3''\<rparr>" and ?snap = "\<lparr>uf_data = (\<lambda>_. 9::byte), uf_size = 10240\<rparr>"
  have two: "card {b. b < 3 \<and> marked ?cow b} = 2"
  proof -
    have "{b. b < 3 \<and> marked ?cow b} = {0, 2}" using sample_marked by auto
    then show ?thesis by simp
  qed
  have sc: "scan_minor ''/dev/moocbt3'' = Some 3" by (simp add: scan_minor_def isdigit_def base_val_def digit_val_def Let_def)
  have v: "verify_files sample_os ?cow ((\<lambda>_. Inr sample_info) (3::nat)) ?st = (0, utick (utick ?st))"
    by (simp add: verify_files_def Let_def pread_def sample_os_def sample_cow_header) (simp add: sample_header_def sample_info_def)
  have s: "steady sample_os" by (simp add: steady_def sample_os_def)
  from update_img_copies_marked[OF s, of ?st ?fs "''/dev/moocbt3''" 3, OF _ _ _ _ _ sc v, of ?snap] two sample_marked
  show ?thesis by auto
qed

end
