(* ===== verification/Moo.thy ===== *)
theory Moo
  imports Libmoocbt
begin

text \<open>The command line tool (\<^verbatim>\<open>src/app/moo.c\<close>), from its arguments to the command the driver receives.\<close>

subsection \<open>Numbers\<close>

text \<open>
  \<^verbatim>\<open>strtoll\<close> and \<^verbatim>\<open>strtol\<close> with base 0 on a string of digits: octal after a leading zero, up to the first character that is not an
  octal digit; decimal otherwise. A value out of range is the largest one, with \<^verbatim>\<open>errno\<close> set. Both types have 64 bits.
\<close>

abbreviation (input) LLONG_MAX :: nat where "LLONG_MAX \<equiv> 2 ^ 63 - 1"

definition strtoll :: "string \<Rightarrow> nat \<times> int" where
  "strtoll str =
     (let v = (if str \<noteq> [] \<and> hd str = CHR ''0'' then base_val 8 (takeWhile (\<lambda>c. c \<in> set ''01234567'') str) else base_val 10 (takeWhile isdigit str))
      in if v > LLONG_MAX then (LLONG_MAX, ERANGE) else (v, 0))"

text \<open>\<open>None\<close> for the result \<open>-1\<close>. The program calls these before anything has set \<^verbatim>\<open>errno\<close>.\<close>

definition parse_ul :: "string \<Rightarrow> nat option" where
  "parse_ul str =
     (if str = [] \<or> \<not> list_all isdigit str then None
      else let (tmp, errno) = strtoll str in
        if errno \<noteq> 0 then None else if tmp = LLONG_MAX then None else Some tmp)"

definition parse_ui :: "string \<Rightarrow> nat option" where
  "parse_ui str =
     (if str = [] \<or> \<not> list_all isdigit str then None
      else let (tmp, errno) = strtoll str in
        if errno \<noteq> 0 then None else if tmp = LLONG_MAX then None else Some (tmp mod 2 ^ 32))"

subsection \<open>Arguments\<close>

text \<open>
  \<^verbatim>\<open>getopt\<close> with options that all take an argument, called until it has seen every argument: the options with their arguments, and
  the other arguments in order. \<open>None\<close> when it reports an unknown option or a missing argument.
\<close>

fun getopt :: "string \<Rightarrow> string list \<Rightarrow> ((char \<times> string) list \<times> string list) option" where
  "getopt os [] = Some ([], [])"
| "getopt os (a # as) =
     (if a = ''--'' then Some ([], as)
      else if length a \<ge> 2 \<and> hd a = CHR ''-'' then
        (if a ! 1 \<notin> set os then None
         else if length a > 2 then map_option (\<lambda>(xs, ps). ((a ! 1, drop 2 a) # xs, ps)) (getopt os as)
         else case as of [] \<Rightarrow> None | v # as \<Rightarrow> map_option (\<lambda>(xs, ps). ((a ! 1, v) # xs, ps)) (getopt os as))
      else map_option (\<lambda>(xs, ps). (xs, a # ps)) (getopt os as))"

text \<open>The loop over the options: each must be a number, and the last of a kind counts; the start values are zero.\<close>

fun option_loop :: "(char \<times> string) list \<Rightarrow> nat \<times> nat \<Rightarrow> (nat \<times> nat) option" where
  "option_loop [] (cache_size, fallocated_space) = Some (cache_size, fallocated_space)"
| "option_loop ((c, optarg) # xs) (cache_size, fallocated_space) =
     (case parse_ul optarg of None \<Rightarrow> None
      | Some v \<Rightarrow> if c = CHR ''c'' then option_loop xs (v, fallocated_space) else option_loop xs (cache_size, v))"

text \<open>Options and a fixed number of other arguments; \<open>None\<close> when the usage is printed.\<close>

definition take_args :: "string \<Rightarrow> nat \<Rightarrow> string list \<Rightarrow> (nat \<times> nat \<times> string list) option" where
  "take_args os n args = do {
     (xs, ps) \<leftarrow> getopt os args;
     (cache_size, fallocated_space) \<leftarrow> option_loop xs (0, 0);
     if length ps \<noteq> n then None else Some (cache_size, fallocated_space, ps)
   }"

subsection \<open>Handlers\<close>

text \<open>A handler prints the usage and exits, or returns what the library call returns.\<close>

datatype moo_res = Usage int | Returned lib_res

definition handle_setup_snap :: "sysenv \<Rightarrow> kernel \<Rightarrow> config \<Rightarrow> int option \<Rightarrow> string list \<Rightarrow> drv \<Rightarrow> moo_res" where
  "handle_setup_snap E K C oe args s =
     (case take_args ''cf'' 3 args of None \<Rightarrow> Usage (- 1)
      | Some (cache_size, fallocated_space, ps) \<Rightarrow>
          (case parse_ui (ps ! 2) of None \<Rightarrow> Usage (- 1)
           | Some minor \<Rightarrow> Returned (moocbt_setup_snapshot E K C oe minor (U_Str (ps ! 0)) (U_Str (ps ! 1)) (of_nat fallocated_space) (of_nat cache_size) s)))"

definition handle_reload_snap :: "sysenv \<Rightarrow> kernel \<Rightarrow> config \<Rightarrow> int option \<Rightarrow> string list \<Rightarrow> drv \<Rightarrow> moo_res" where
  "handle_reload_snap E K C oe args s =
     (case take_args ''c'' 3 args of None \<Rightarrow> Usage (- 1)
      | Some (cache_size, _, ps) \<Rightarrow>
          (case parse_ui (ps ! 2) of None \<Rightarrow> Usage (- 1)
           | Some minor \<Rightarrow> Returned (moocbt_reload_snapshot E K C oe minor (U_Str (ps ! 0)) (U_Str (ps ! 1)) (of_nat cache_size) s)))"

definition handle_reload_inc :: "sysenv \<Rightarrow> kernel \<Rightarrow> config \<Rightarrow> int option \<Rightarrow> string list \<Rightarrow> drv \<Rightarrow> moo_res" where
  "handle_reload_inc E K C oe args s =
     (case take_args ''c'' 3 args of None \<Rightarrow> Usage (- 1)
      | Some (cache_size, _, ps) \<Rightarrow>
          (case parse_ui (ps ! 2) of None \<Rightarrow> Usage (- 1)
           | Some minor \<Rightarrow> Returned (moocbt_reload_incremental E K C oe minor (U_Str (ps ! 0)) (U_Str (ps ! 1)) (of_nat cache_size) s)))"

definition handle_destroy :: "sysenv \<Rightarrow> kernel \<Rightarrow> config \<Rightarrow> int option \<Rightarrow> string list \<Rightarrow> drv \<Rightarrow> moo_res" where
  "handle_destroy E K C oe args s =
     (if length args \<noteq> 1 then Usage (- 1)
      else case parse_ui (args ! 0) of None \<Rightarrow> Usage (- 1) | Some minor \<Rightarrow> Returned (moocbt_destroy E K C oe minor s))"

definition handle_transition_inc :: "sysenv \<Rightarrow> kernel \<Rightarrow> config \<Rightarrow> int option \<Rightarrow> string list \<Rightarrow> drv \<Rightarrow> moo_res" where
  "handle_transition_inc E K C oe args s =
     (if length args \<noteq> 1 then Usage (- 1)
      else case parse_ui (args ! 0) of None \<Rightarrow> Usage (- 1) | Some minor \<Rightarrow> Returned (moocbt_transition_incremental E K C oe minor s))"

definition handle_transition_snap :: "sysenv \<Rightarrow> kernel \<Rightarrow> config \<Rightarrow> int option \<Rightarrow> string list \<Rightarrow> drv \<Rightarrow> moo_res" where
  "handle_transition_snap E K C oe args s =
     (case take_args ''f'' 2 args of None \<Rightarrow> Usage (- 1)
      | Some (_, fallocated_space, ps) \<Rightarrow>
          (case parse_ui (ps ! 1) of None \<Rightarrow> Usage (- 1)
           | Some minor \<Rightarrow> Returned (moocbt_transition_snapshot E K C oe minor (U_Str (ps ! 0)) (of_nat fallocated_space) s)))"

definition handle_reconfigure :: "sysenv \<Rightarrow> kernel \<Rightarrow> config \<Rightarrow> int option \<Rightarrow> string list \<Rightarrow> drv \<Rightarrow> moo_res" where
  "handle_reconfigure E K C oe args s =
     (case take_args ''c'' 1 args of None \<Rightarrow> Usage (- 1)
      | Some (cache_size, _, ps) \<Rightarrow>
          (case parse_ui (ps ! 0) of None \<Rightarrow> Usage (- 1) | Some minor \<Rightarrow> Returned (moocbt_reconfigure E K C oe minor (of_nat cache_size) s)))"

text \<open>The main function: \<open>loaded\<close> is whether the control device exists.\<close>

definition moo_main :: "sysenv \<Rightarrow> kernel \<Rightarrow> config \<Rightarrow> bool \<Rightarrow> int option \<Rightarrow> string list \<Rightarrow> drv \<Rightarrow> moo_res" where
  "moo_main E K C loaded oe argv s =
     (case argv of [] \<Rightarrow> Usage (- 1)
      | cmd # args \<Rightarrow>
          if \<not> loaded then Returned (Some (- 1, EINVAL, No_Reply, s))
          else if cmd = ''setup-snapshot'' then handle_setup_snap E K C oe args s
          else if cmd = ''reload-snapshot'' then handle_reload_snap E K C oe args s
          else if cmd = ''reload-incremental'' then handle_reload_inc E K C oe args s
          else if cmd = ''destroy'' then handle_destroy E K C oe args s
          else if cmd = ''transition-to-incremental'' then handle_transition_inc E K C oe args s
          else if cmd = ''transition-to-snapshot'' then handle_transition_snap E K C oe args s
          else if cmd = ''reconfigure'' then handle_reconfigure E K C oe args s
          else if cmd = ''help'' then Usage 0 else Usage (- 1))"

subsection \<open>Numbers that are read back\<close>

lemma takeWhile_digits: "list_all isdigit str \<Longrightarrow> takeWhile isdigit str = str"
  by (simp add: list_all_iff takeWhile_eq_all_conv)

lemma strtoll_decimal: "strtoll (decimal n) = (if n > LLONG_MAX then (LLONG_MAX, ERANGE) else (n, 0))"
proof (cases "n = 0")
  case True
  have "decimal 0 = ''0''" by (simp add: decimal.simps digit_def)
  then show ?thesis using True by (simp add: strtoll_def base_val_def digit_val_def)
next
  case False
  then have "hd (decimal n) \<noteq> CHR ''0''" using decimal_hd by simp
  moreover have "takeWhile isdigit (decimal n) = decimal n" using decimal_digits takeWhile_digits by blast
  then have "base_val 10 (takeWhile isdigit (decimal n)) = n" using decimal_digits[of n] by metis
  ultimately show ?thesis by (simp only: strtoll_def Let_def if_False simp_thms)
qed

lemma parse_decimal:
  "parse_ul (decimal n) = (if n < LLONG_MAX then Some n else None)"
  "parse_ui (decimal n) = (if n < LLONG_MAX then Some (n mod 2 ^ 32) else None)"
proof -
  have l: "list_all isdigit (decimal n)" "decimal n \<noteq> []" using decimal_digits by blast+
  show "parse_ul (decimal n) = (if n < LLONG_MAX then Some n else None)"
    unfolding parse_ul_def strtoll_decimal using l by (auto simp: Let_def)
  show "parse_ui (decimal n) = (if n < LLONG_MAX then Some (n mod 2 ^ 32) else None)"
    unfolding parse_ui_def strtoll_decimal using l by (auto simp: Let_def)
qed

subsection \<open>From the command line to the driver\<close>

text \<open>An argument that \<^verbatim>\<open>getopt\<close> takes for what it is, and that the driver can copy.\<close>

definition plain_arg :: "string \<Rightarrow> bool" where
  "plain_arg a \<longleftrightarrow> \<not> (2 \<le> length a \<and> hd a = CHR ''-'') \<and> length a < PAGE_SIZE"

lemma getopt_plain [simp]: "plain_arg a \<Longrightarrow> getopt os (a # as) = map_option (\<lambda>(xs, ps). (xs, a # ps)) (getopt os as)"
  by (auto simp: plain_arg_def)

lemma getopt_value [simp]:
  "c \<in> set os \<Longrightarrow> c \<noteq> CHR ''-'' \<Longrightarrow> getopt os ((CHR ''-'' # [c]) # v # as) = map_option (\<lambda>(xs, ps). ((c, v) # xs, ps)) (getopt os as)"
  by simp

lemma decimal_not_option: "\<not> (2 \<le> length (decimal n) \<and> hd (decimal n) = CHR ''-'')"
proof -
  have "isdigit (hd (decimal n))" using decimal_digits[of n] by (cases "decimal n") auto
  then show ?thesis by (auto simp: isdigit_def)
qed

lemma getopt_decimal: "getopt os [decimal n] = Some ([], [decimal n])"
  using decimal_not_option[of n] by auto

declare getopt.simps(2) [simp del]

text \<open>What the library makes of the answer of a handler.\<close>

definition lib_answer :: "(int \<times> drv) option \<Rightarrow> lib_res" where
  "lib_answer r = map_option (\<lambda>(ret, s). if - 4095 \<le> ret \<and> ret < 0 then (- 1, - ret, No_Reply, s) else (ret, 0, No_Reply, s)) r"

lemma ctl_call_no_reply: "ctrl_ioctl E K C cmd s = no_reply r \<Longrightarrow> ctl_call E K C None cmd s = lib_answer r"
  by (cases r) (auto simp: ctl_call_def no_reply_def lib_answer_def)



text \<open>
  C31. A minor that does not fit is taken modulo two to the 32. The tool accepts numbers from there up to the range of a long, and
  the command then acts on the device of another minor: destroying minor 4294967297 destroys minor 1.
\<close>

theorem moo_minor_wraps:
  assumes "n < LLONG_MAX"
  shows "moo_main E K C True oe [''destroy'', decimal n] s = Returned (moocbt_destroy E K C oe (n mod 2 ^ 32) s)"
  using assms by (simp add: moo_main_def handle_destroy_def parse_decimal)

theorem moo_minor_wraps_witness:
  "\<forall>E K C oe s. moo_main E K C True oe [''destroy'', decimal 4294967297] s = moo_main E K C True oe [''destroy'', decimal 1] s"
  using moo_minor_wraps[of 4294967297] moo_minor_wraps[of 1] by simp

lemma parse_ui_octal: "parse_ui ''010'' = Some 8" "parse_ui ''08'' = Some 0"
  by (simp_all add: parse_ui_def strtoll_def isdigit_def base_val_def digit_val_def Let_def)

end
