(* ===== verification/Proc.thy ===== *)
theory Proc
  imports Libmoocbt Drv_Destroy
begin

text \<open>
  The sequential file under \<^verbatim>\<open>/proc\<close> (\<^verbatim>\<open>src/src/proc_seq_file.c\<close>): the state of the driver as one JSON object. The names and
  values that the build fixes are a parameter.
\<close>

record proc_build =
  b_version :: string
  b_features :: "(string \<times> bool) list"
  b_symbols :: "(string \<times> bool) list"
  cpu_build_support :: bool
  cpu_runtime_support :: bool
  kernel_build_support :: bool
  kernel_runtime_support :: bool
  driver_support_force_on :: bool
  driver_support_force_off :: bool
  net_ibt_support_enabled :: bool

subsection \<open>The iterator\<close>

text \<open>What the iterator passes to \<^verbatim>\<open>moocbt_proc_show\<close>: the start token or a pointer to a slot.\<close>

datatype seq_ptr = SEQ_START_TOKEN | Slot_Ptr nat

definition moocbt_proc_get_idx :: "drv \<Rightarrow> nat \<Rightarrow> seq_ptr option" where
  "moocbt_proc_get_idx s pos = (if pos > highest_minor s then None else Some (Slot_Ptr pos))"

definition moocbt_proc_start :: "drv \<Rightarrow> nat \<Rightarrow> seq_ptr option" where
  "moocbt_proc_start s pos = (if pos = 0 then Some SEQ_START_TOKEN else moocbt_proc_get_idx s (pos - 1))"

definition moocbt_proc_next :: "drv \<Rightarrow> nat \<Rightarrow> seq_ptr option \<times> nat" where
  "moocbt_proc_next s pos = (moocbt_proc_get_idx s pos, Suc pos)"

subsection \<open>The text\<close>

abbreviation (input) TAB :: char where "TAB \<equiv> CHR 0x09"
abbreviation (input) NL :: char where "NL \<equiv> CHR 0x0A"
abbreviation (input) QUOTE :: char where "QUOTE \<equiv> CHR 0x22"

definition quoted :: "string \<Rightarrow> string" where
  "quoted str = QUOTE # str @ [QUOTE]"

definition entry :: "nat \<Rightarrow> string \<Rightarrow> string \<Rightarrow> string" where
  "entry n name v = replicate n TAB @ quoted name @ '': '' @ v"

text \<open>The kernel prints a NULL string as \<^verbatim>\<open>(null)\<close>.\<close>

definition show_str :: "string option \<Rightarrow> string" where
  "show_str p = (case p of None \<Rightarrow> ''(null)'' | Some str \<Rightarrow> str)"

definition show_int :: "int \<Rightarrow> string" where
  "show_int i = (if i < 0 then CHR ''-'' # decimal (nat (- i)) else decimal (nat i))"

definition hex2 :: "byte \<Rightarrow> string" where
  "hex2 b = [''0123456789abcdef'' ! (unat b div 16), ''0123456789abcdef'' ! (unat b mod 16)]"

fun status_list :: "nat \<Rightarrow> (string \<times> bool) list \<Rightarrow> string" where
  "status_list i [] = []"
| "status_list i ((name, present) # xs) =
     (if i \<noteq> 0 then '','' @ [NL] else []) @ entry 2 name (if present then ''true'' else ''false'') @ status_list (Suc i) xs"

definition status_block :: "string \<Rightarrow> (string \<times> bool) list \<Rightarrow> string" where
  "status_block name xs = entry 1 name ''{'' @ [NL] @ status_list 0 xs @ [NL, TAB] @ ''},'' @ [NL]"

definition moocbt_proc_ibt_show :: "proc_build \<Rightarrow> string" where
  "moocbt_proc_ibt_show P = status_block ''ibt_status''
     [(''cpu_build_support'', cpu_build_support P), (''cpu_runtime_support'', cpu_runtime_support P),
      (''kernel_build_support'', kernel_build_support P), (''kernel_runtime_support'', kernel_runtime_support P),
      (''driver_support_force_on'', driver_support_force_on P), (''driver_support_force_off'', driver_support_force_off P),
      (''net_ibt_support_enabled'', net_ibt_support_enabled P)]"

definition proc_header :: "proc_build \<Rightarrow> string" where
  "proc_header P = ''{'' @ [NL] @ entry 1 ''version'' (quoted (b_version P)) @ '','' @ [NL] @
     status_block ''build_features'' (b_features P) @ status_block ''build_symbols'' (b_symbols P) @
     moocbt_proc_ibt_show P @ entry 1 ''devices'' ''['' @ [NL]"

definition proc_footer :: string where
  "proc_footer = [NL, TAB] @ '']'' @ [NL] @ ''}'' @ [NL]"

text \<open>One device. A manager that the device points to but that was freed is \<open>None\<close>.\<close>

definition proc_cow :: "cow_manager \<Rightarrow> string" where
  "proc_cow cm = entry 3 ''cow_size_current'' (decimal (unat (file_size cm))) @ '','' @ [NL] @ entry 3 ''seq_id'' (decimal (unat (seqid cm))) @ '','' @ [NL] @
     entry 3 ''uuid'' (quoted (concat (map hex2 (uuid cm)))) @ '','' @ [NL] @
     (if version cm > 0 then entry 3 ''version'' (decimal (unat (version cm))) @ '','' @ [NL] @
        entry 3 ''nr_changed_blocks'' (decimal (unat (nr_changed_blocks cm))) @ '','' @ [NL] else [])"

definition proc_dev :: "sysenv \<Rightarrow> drv \<Rightarrow> snap_device \<Rightarrow> string option" where
  "proc_dev E s dev = do {
     cow \<leftarrow> (if test_bit UNVERIFIED (sd_state dev) then Some [] else case sd_cow dev of None \<Rightarrow> Some [] | Some c \<Rightarrow> map_option proc_cow (d_cows s c));
     Some ([TAB, TAB] @ ''{'' @ [NL] @ entry 3 ''minor'' (decimal (sd_minor dev)) @ '','' @ [NL] @
       entry 3 ''cow_file'' (quoted (show_str (sd_cow_path dev))) @ '','' @ [NL] @
       entry 3 ''block_device'' (quoted (show_str (sd_bdev_path dev))) @ '','' @ [NL] @
       entry 3 ''max_cache'' (decimal (unat (if sd_cache_size dev \<noteq> 0 then sd_cache_size dev else cow_max_memory_default E))) @ '','' @ [NL] @
       (if \<not> test_bit UNVERIFIED (sd_state dev)
        then entry 3 ''fallocate'' (decimal (unat (sd_falloc_size dev * 1024 * 1024))) @ '','' @ [NL] @ cow else []) @
       (if tracer_read_fail_state dev \<noteq> 0 then entry 3 ''error'' (show_int (tracer_read_fail_state dev)) @ '','' @ [NL] else []) @
       entry 3 ''state'' (decimal (unat (sd_state dev))) @ [NL, TAB, TAB] @ ''}'')
   }"

definition moocbt_proc_show :: "sysenv \<Rightarrow> proc_build \<Rightarrow> drv \<Rightarrow> seq_ptr \<Rightarrow> string option" where
  "moocbt_proc_show E P s v =
     (case v of
        SEQ_START_TOKEN \<Rightarrow> Some (proc_header P @ (if lowest_minor s > highest_minor s then proc_footer else []))
      | Slot_Ptr i \<Rightarrow>
          (case slot s i of None \<Rightarrow> Some []
           | Some a \<Rightarrow> do {
               dev \<leftarrow> d_devs s a;
               text \<leftarrow> proc_dev E s dev;
               Some ((if sd_minor dev \<noteq> lowest_minor s then '','' @ [NL] else []) @ text @
                 (if sd_minor dev = highest_minor s then proc_footer else []))
             }))"

text \<open>The loop of the sequential file: show what the iterator points to, until there is no next.\<close>

function seq_read :: "sysenv \<Rightarrow> proc_build \<Rightarrow> drv \<Rightarrow> seq_ptr \<Rightarrow> nat \<Rightarrow> string option" where
  "seq_read E P s v pos = do {
     out \<leftarrow> moocbt_proc_show E P s v;
     case moocbt_proc_next s pos of
       (None, _) \<Rightarrow> Some out
     | (Some v, pos) \<Rightarrow> do { rest \<leftarrow> seq_read E P s v pos; Some (out @ rest) }
   }"
  by pat_completeness auto
termination
  by (relation "measure (\<lambda>(E, P, s, v, pos). Suc (highest_minor s) - pos)")
    (auto simp: moocbt_proc_next_def moocbt_proc_get_idx_def split: if_splits)

declare seq_read.simps [simp del]

definition proc_read :: "sysenv \<Rightarrow> proc_build \<Rightarrow> drv \<Rightarrow> string option" where
  "proc_read E P s = (case moocbt_proc_start s 0 of None \<Rightarrow> Some [] | Some v \<Rightarrow> seq_read E P s v 0)"

subsection \<open>One object\<close>

text \<open>The minor range says exactly which slots are in use.\<close>

definition range_exact :: "sysenv \<Rightarrow> drv \<Rightarrow> bool" where
  "range_exact E s \<longleftrightarrow> (if \<forall>i. slot s i = None then lowest_minor s > highest_minor s
     else slot s (lowest_minor s) \<noteq> None \<and> slot s (highest_minor s) \<noteq> None)"

text \<open>The managers that verified devices point to exist.\<close>

definition cows_live :: "drv \<Rightarrow> bool" where
  "cows_live s \<longleftrightarrow> (\<forall>a dev c. d_devs s a = Some dev \<longrightarrow> sd_cow dev = Some c \<longrightarrow> d_cows s c \<noteq> None)"

definition used_minors :: "sysenv \<Rightarrow> drv \<Rightarrow> nat list" where
  "used_minors E s = filter (\<lambda>i. slot s i \<noteq> None) [0..<max_snap_devices E]"

definition dev_text :: "sysenv \<Rightarrow> drv \<Rightarrow> nat \<Rightarrow> string" where
  "dev_text E s i = the (proc_dev E s (the (d_devs s (the (slot s i)))))"

fun separated :: "string \<Rightarrow> string list \<Rightarrow> string" where
  "separated sep [] = []"
| "separated sep [x] = x"
| "separated sep (x # y # xs) = x @ sep @ separated sep (y # xs)"

definition piece :: "sysenv \<Rightarrow> drv \<Rightarrow> nat \<Rightarrow> string" where
  "piece E s i = (if slot s i = None then [] else
     (if i \<noteq> lowest_minor s then '','' @ [NL] else []) @ dev_text E s i @ (if i = highest_minor s then proc_footer else []))"

lemma show_slot:
  assumes "drv_ok E s" "cows_live s"
  shows "moocbt_proc_show E P s (Slot_Ptr i) = Some (piece E s i)"
proof (cases "slot s i")
  case (Some a)
  from drv_okD(2)[OF assms(1) Some] obtain dev where d: "d_devs s a = Some dev" "sd_minor dev = i" by blast
  have "\<exists>t. (case sd_cow dev of None \<Rightarrow> Some [] | Some c \<Rightarrow> map_option proc_cow (d_cows s c)) = Some t"
    using assms(2) d(1) by (force simp: cows_live_def split: option.splits)
  then have "\<exists>t. proc_dev E s dev = Some t" by (auto simp: proc_dev_def)
  then show ?thesis using Some d by (auto simp: moocbt_proc_show_def piece_def dev_text_def)
qed (simp add: moocbt_proc_show_def piece_def)

lemma seq_read_slots:
  assumes "drv_ok E s" "cows_live s" "moocbt_proc_show E P s v = Some out"
  shows "seq_read E P s v pos = Some (out @ concat (map (piece E s) [pos..<Suc (highest_minor s)]))"
  using assms(3)
proof (induction "Suc (highest_minor s) - pos" arbitrary: v pos out)
  case 0
  then show ?case by (subst seq_read.simps) (simp add: moocbt_proc_next_def moocbt_proc_get_idx_def)
next
  case (Suc n)
  then have "pos \<le> highest_minor s" by simp
  moreover have "seq_read E P s (Slot_Ptr pos) (Suc pos) = Some (piece E s pos @ concat (map (piece E s) [Suc pos..<Suc (highest_minor s)]))"
    by (rule Suc(1)) (use Suc(2) show_slot[OF assms(1,2)] in auto)
  ultimately show ?case using Suc(3)
    by (subst seq_read.simps) (simp add: moocbt_proc_next_def moocbt_proc_get_idx_def upt_conv_Cons del: upt_Suc)
qed

lemma separated_concat:
  assumes "distinct (x # xs)"
  shows "g x @ (if xs = [] then foot else []) @ concat (map (\<lambda>i. sep @ g i @ (if i = last xs then foot else [])) xs) = separated sep (map g (x # xs)) @ foot"
  using assms
proof (induction xs arbitrary: x)
  case (Cons y ys)
  then show ?case
  proof (cases "ys = []")
    case False
    then have "y \<noteq> last ys" using Cons.prems by auto
    then show ?thesis using Cons.IH[of y] Cons.prems False by auto
  qed simp
qed simp

lemma used_minors_ends:
  assumes "drv_ok E s" "range_exact E s" "slot s i \<noteq> None"
  shows "\<exists>xs. used_minors E s = lowest_minor s # xs \<and> last (used_minors E s) = highest_minor s \<and> distinct (lowest_minor s # xs) \<and>
    used_minors E s = filter (\<lambda>i. slot s i \<noteq> None) [0..<Suc (highest_minor s)] \<and> lowest_minor s \<le> highest_minor s"
proof -
  let ?l = "lowest_minor s" and ?h = "highest_minor s" and ?P = "\<lambda>i. slot s i \<noteq> None"
  have R: "?h < max_snap_devices E" "\<And>j. slot s j \<noteq> None \<Longrightarrow> ?l \<le> j \<and> j \<le> ?h" using drv_okD(1)[OF assms(1)] by (auto simp: ranged_def)
  have ends: "?P ?l" "?P ?h" using assms(2,3) by (auto simp: range_exact_def split: if_splits)
  have lh: "?l \<le> ?h" using R(2)[OF ends(1)] by simp
  have "[0..<max_snap_devices E] = [0..<Suc ?h] @ [Suc ?h..<max_snap_devices E]" using R(1) upt_add_eq_append[of 0 "Suc ?h" "max_snap_devices E - Suc ?h"] by simp
  moreover have "filter ?P [Suc ?h..<max_snap_devices E] = []" using R(2) by (fastforce simp: filter_empty_conv)
  ultimately have U: "used_minors E s = filter ?P [0..<Suc ?h]" by (simp add: used_minors_def)
  have "[0..<Suc ?h] = [0..<?l] @ ?l # [Suc ?l..<Suc ?h]" using lh upt_add_eq_append[of 0 ?l "Suc ?h - ?l"] by (simp add: upt_conv_Cons)
  moreover have "filter ?P [0..<?l] = []" using R(2) by (fastforce simp: filter_empty_conv)
  ultimately have "used_minors E s = ?l # filter ?P [Suc ?l..<Suc ?h]" using U ends(1) by simp
  moreover have "last (used_minors E s) = ?h" using U ends(2) by simp
  moreover have "distinct (used_minors E s)" by (simp add: U)
  ultimately show ?thesis using U lh by auto
qed



text \<open>
  C33. The footer can be missing. On a driver that was loaded for a single device, with no device set up, the empty minor
  range looks like a range of one, and the file ends after the header.
\<close>

theorem proc_read_unfinished:
  assumes "drv_ok E s" "max_snap_devices E = 1" "slot s 0 = None"
  shows "proc_read E P s = Some (proc_header P)"
proof -
  have lh: "lowest_minor s = 0" "highest_minor s = 0" using drv_okD(1)[OF assms(1)] assms(2) by (auto simp: ranged_def)
  have none: "slot s i = None" for i using drv_okD(1)[OF assms(1)] assms(3) lh by (auto simp: ranged_def)
  have "seq_read E P s (Slot_Ptr 0) 1 = Some []"
    by (subst seq_read.simps) (simp add: moocbt_proc_show_def none moocbt_proc_next_def moocbt_proc_get_idx_def lh)
  then have "seq_read E P s SEQ_START_TOKEN 0 = Some (proc_header P)"
    by (subst seq_read.simps) (simp add: moocbt_proc_show_def moocbt_proc_next_def moocbt_proc_get_idx_def lh)
  then show ?thesis by (simp add: proc_read_def moocbt_proc_start_def)
qed

theorem proc_read_unfinished_witness:
  "let s = (empty_drv ram_world)\<lparr>snap_devices := [None], lowest_minor := 0\<rparr>; E = plain_env\<lparr>max_snap_devices := 1\<rparr> in
   \<forall>P. proc_read E P s = Some (proc_header P)"
proof -
  let ?s = "(empty_drv ram_world)\<lparr>snap_devices := [None], lowest_minor := 0\<rparr>" and ?E = "plain_env\<lparr>max_snap_devices := 1\<rparr>"
  have none: "slot ?s i = None" for i by (simp add: slot_def)
  then have "drv_ok ?E ?s" by (simp add: drv_lent_def ranged_def) (simp add: empty_drv_def)
  from proc_read_unfinished[OF this] none show ?thesis by (simp add: Let_def)
qed

end
