(* ===== verification/Rethook.thy ===== *)
theory Rethook
  imports Prelude
begin

text \<open>
  Return hooks (\<^verbatim>\<open>src/src/preempt_rethook.c\<close>): a hook on the entry of a function replaces the return address on the stack by that of a
  trampoline and keeps the real one in a list of the task; the trampoline runs the post hooks and returns to where the function was
  called from.
\<close>

subsection \<open>Data\<close>

text \<open>
  The address of the trampoline, the segment selectors, and whether an allocation succeeds at a given time. A post hook is the address of its function; the
  data of a hook are the bytes the caller passes, none when their size is zero.
\<close>

record rh_env =
  trampoline :: u64
  KERNEL_CS :: u64
  KERNEL_DS :: u64
  rh_alloc :: "nat \<Rightarrow> bool"

record preempt_rethook =
  prh_post_hook :: "nat option"
  prh_data :: "byte list"

record preempt_rh_node =
  n_post_hook :: "nat option"
  n_ret_addr :: u64
  n_frame :: u64
  n_data :: "byte list option"

text \<open>
  The table of tasks with their lists, newest node first; the words of the stacks; the calls of post hooks made so far, each with its data and the address
  it was given; the number of objects allocated and not freed.
\<close>

record rh_state =
  task_nodes :: "nat \<Rightarrow> preempt_rh_node list option"
  stack_word :: "u64 \<Rightarrow> u64"
  post_ran :: "(nat \<times> byte list option \<times> u64) list"
  rh_live :: nat
  rh_clock :: nat

text \<open>What becomes of a return hook, for the callers that ask for one.\<close>

datatype rethook_outcome = Armed | Refused | Lost

text \<open>The registers saved by the trampoline, with the address they are saved at.\<close>

record pt_regs =
  r_at :: u64
  r_orig_ax :: u64
  r_ip :: u64
  r_cs :: u64
  r_flags :: u64
  r_sp :: u64
  r_ss :: u64

record cpu =
  c_ip :: u64
  c_sp :: u64
  c_flags :: u64

abbreviation (input) SIZEOF_PT_REGS :: u64 where "SIZEOF_PT_REGS \<equiv> 168"

definition rh_kmalloc :: "rh_env \<Rightarrow> rh_state \<Rightarrow> bool \<times> rh_state" where
  "rh_kmalloc E st =
     (let ok = rh_alloc E (rh_clock st) in
      (ok, st\<lparr>rh_clock := Suc (rh_clock st), rh_live := rh_live st + (if ok then 1 else 0)\<rparr>))"

definition rh_kfree :: "rh_state \<Rightarrow> rh_state" where
  "rh_kfree st = st\<lparr>rh_live := rh_live st - 1\<rparr>"

subsection \<open>Setting a return hook\<close>

definition preempt_rethook_try_get :: "rh_env \<Rightarrow> preempt_rethook \<Rightarrow> rh_state \<Rightarrow> preempt_rh_node option \<times> rh_state" where
  "preempt_rethook_try_get E prh st =
     (let (ok, st) = rh_kmalloc E st;
          node = (\<lambda>d. \<lparr>n_post_hook = prh_post_hook prh, n_ret_addr = 0, n_frame = 0, n_data = d\<rparr>)
      in if \<not> ok then (None, st)
         else if prh_data prh \<noteq> [] then
           let (ok, st) = rh_kmalloc E st in
           if \<not> ok then (None, rh_kfree st) else (Some (node (Some (prh_data prh))), st)
         else (Some (node None), st))"

definition preempt_rethook_prepare :: "rh_env \<Rightarrow> preempt_rh_node \<Rightarrow> u64 \<Rightarrow> rh_state \<Rightarrow> preempt_rh_node \<times> rh_state" where
  "preempt_rethook_prepare E node sp st =
     (node\<lparr>n_ret_addr := stack_word st sp, n_frame := sp\<rparr>, st\<lparr>stack_word := (stack_word st)(sp := trampoline E)\<rparr>)"

text \<open>\<^verbatim>\<open>preempt_rethook_hook\<close> returns nothing: without memory for the list of the task it gives up silently.\<close>

definition preempt_rethook_hook :: "rh_env \<Rightarrow> nat \<Rightarrow> preempt_rh_node \<Rightarrow> u64 \<Rightarrow> rh_state \<Rightarrow> rh_state" where
  "preempt_rethook_hook E tsk node sp st =
     (let (ok, st) = (case task_nodes st tsk of
          Some _ \<Rightarrow> (True, st)
        | None \<Rightarrow>
            let (ok, st) = rh_kmalloc E st in
            if \<not> ok then (False, st) else (True, st\<lparr>task_nodes := (task_nodes st)(tsk \<mapsto> [])\<rparr>))
      in if \<not> ok then st
         else
           let (node, st) = preempt_rethook_prepare E node sp st in
           st\<lparr>task_nodes := (task_nodes st)(tsk \<mapsto> node # the (task_nodes st tsk))\<rparr>)"

definition pre_handler_preempt_rethook :: "rh_env \<Rightarrow> preempt_rethook \<Rightarrow> nat \<Rightarrow> u64 \<Rightarrow> rh_state \<Rightarrow> int \<times> rh_state" where
  "pre_handler_preempt_rethook E prh tsk sp st =
     (let (prhn, st) = preempt_rethook_try_get E prh st in
      case prhn of None \<Rightarrow> (- ENOMEM, st) | Some node \<Rightarrow> (0, preempt_rethook_hook E tsk node sp st))"

subsection \<open>Returning\<close>

text \<open>
  The position of the next node, after \<open>cur\<close> if there is one, that holds a real return address; the address is zero when there is none.
\<close>

fun find_real :: "u64 \<Rightarrow> preempt_rh_node list \<Rightarrow> nat \<Rightarrow> (nat \<times> u64) option" where
  "find_real tr [] i = None"
| "find_real tr (n # ns) i = (if n_ret_addr n \<noteq> tr then Some (i, n_ret_addr n) else find_real tr ns (Suc i))"

definition preempt_rethook_find_ret_addr :: "rh_env \<Rightarrow> nat \<Rightarrow> nat option \<Rightarrow> rh_state \<Rightarrow> u64 \<times> nat option" where
  "preempt_rethook_find_ret_addr E tsk cur st =
     (let start = (case cur of None \<Rightarrow> 0 | Some i \<Rightarrow> Suc i);
          nodes = (case task_nodes st tsk of None \<Rightarrow> [] | Some ns \<Rightarrow> drop start ns)
      in case find_real (trampoline E) nodes start of None \<Rightarrow> (0, cur) | Some (i, ra) \<Rightarrow> (ra, Some i))"

text \<open>The post hooks of the nodes up to position \<open>k\<close>, as long as they belong to the frame.\<close>

fun run_post_hooks :: "u64 \<Rightarrow> u64 \<Rightarrow> preempt_rh_node list \<Rightarrow> nat \<Rightarrow> rh_state \<Rightarrow> rh_state" where
  "run_post_hooks frame ra [] k st = st"
| "run_post_hooks frame ra (n # ns) k st =
     (if n_frame n \<noteq> frame then st
      else
        let st = (case n_post_hook n of None \<Rightarrow> st | Some f \<Rightarrow> st\<lparr>post_ran := post_ran st @ [(f, n_data n, ra)]\<rparr>)
        in if k = 0 then st else run_post_hooks frame ra ns (k - 1) st)"

definition preempt_rethook_recycle :: "preempt_rh_node \<Rightarrow> rh_state \<Rightarrow> rh_state" where
  "preempt_rethook_recycle node st = rh_kfree (if n_data node \<noteq> None then rh_kfree st else st)"

definition preempt_rethook_fixup_return :: "pt_regs \<Rightarrow> u64 \<Rightarrow> rh_state \<Rightarrow> rh_state" where
  "preempt_rethook_fixup_return regs ra st = st\<lparr>stack_word := (stack_word st)(r_at regs + SIZEOF_PT_REGS := ra)\<rparr>"

definition preempt_rethook_trampoline_handler :: "rh_env \<Rightarrow> nat \<Rightarrow> pt_regs \<Rightarrow> u64 \<Rightarrow> rh_state \<Rightarrow> (u64 \<times> pt_regs \<times> rh_state) option" where
  "preempt_rethook_trampoline_handler E tsk regs frame st =
     (let (ra, node) = preempt_rethook_find_ret_addr E tsk None st in
      if ra = 0 then None
      else do {
        let regs = regs\<lparr>r_ip := ra\<rparr>;
        first \<leftarrow> task_nodes st tsk;
        k \<leftarrow> node;
        let st = run_post_hooks frame ra first k st;
        let st = preempt_rethook_fixup_return regs ra st;
        let rest = drop (Suc k) first;
        let st = st\<lparr>task_nodes := (task_nodes st)(tsk \<mapsto> rest)\<rparr>;
        let st = fold preempt_rethook_recycle (take (Suc k) first) st;
        let st = (if rest = [] then rh_kfree (st\<lparr>task_nodes := (task_nodes st)(tsk := None)\<rparr>) else st);
        Some (ra, regs, st)
      })"

definition preempt_rethook_trampoline_callback :: "rh_env \<Rightarrow> nat \<Rightarrow> pt_regs \<Rightarrow> rh_state \<Rightarrow> (pt_regs \<times> rh_state) option" where
  "preempt_rethook_trampoline_callback E tsk regs st = do {
     let regs = regs\<lparr>r_cs := KERNEL_CS E, r_ip := trampoline E, r_orig_ax := - 1, r_sp := r_sp regs + 16\<rparr>;
     (_, regs, st) \<leftarrow> preempt_rethook_trampoline_handler E tsk regs (r_at regs + SIZEOF_PT_REGS) st;
     Some (regs\<lparr>r_ss := r_flags regs\<rparr>, st)
   }"

text \<open>
  The trampoline, entered by the return from the frame \<open>sp\<close>: it pushes its own address where the return address was and the registers below, and ends by
  taking the flags from the place of the stack segment and returning.
\<close>

definition preempt_rethook_trampoline :: "rh_env \<Rightarrow> nat \<Rightarrow> u64 \<Rightarrow> u64 \<Rightarrow> rh_state \<Rightarrow> (cpu \<times> rh_state) option" where
  "preempt_rethook_trampoline E tsk sp fl st = do {
     let st = st\<lparr>stack_word := (stack_word st)(sp := trampoline E)\<rparr>;
     let regs = \<lparr>r_at = sp - SIZEOF_PT_REGS, r_orig_ax = 0, r_ip = 0, r_cs = 0, r_flags = fl, r_sp = sp - 8, r_ss = KERNEL_DS E\<rparr>;
     (regs, st) \<leftarrow> preempt_rethook_trampoline_callback E tsk regs st;
     let sp = r_at regs + SIZEOF_PT_REGS;
     Some (\<lparr>c_ip = stack_word st sp, c_sp = sp + 8, c_flags = r_ss regs\<rparr>, st)
   }"

text \<open>The return instruction of a function with frame \<open>sp\<close>.\<close>

definition return_from :: "rh_env \<Rightarrow> nat \<Rightarrow> u64 \<Rightarrow> u64 \<Rightarrow> rh_state \<Rightarrow> (cpu \<times> rh_state) option" where
  "return_from E tsk sp fl st =
     (if stack_word st sp = trampoline E then preempt_rethook_trampoline E tsk sp fl st
      else Some (\<lparr>c_ip = stack_word st sp, c_sp = sp + 8, c_flags = fl\<rparr>, st))"

subsection \<open>Calls\<close>

text \<open>
  The calls a task is in, innermost first: the place of the return address, the return address itself, and the hooks that were armed on the
  return, newest first.
\<close>

record rh_call =
  rc_frame :: u64
  rc_ret :: u64
  rc_hooks :: "(nat option \<times> byte list option) list"

record rh_sys =
  rs_state :: rh_state
  rs_calls :: "nat \<Rightarrow> rh_call list"

definition rc_frames :: "rh_sys \<Rightarrow> u64 set" where
  "rc_frames s = (\<Union>t. rc_frame ` set (rs_calls s t))"

text \<open>
  A task calls a function; a hook on the entry of the innermost function asks for a return hook, and it is armed when it is in the list of the task; the kernel
  writes to any word that is not a return address of a call; a function returns.
\<close>

inductive rh_step :: "rh_env \<Rightarrow> rh_sys \<Rightarrow> rh_sys \<Rightarrow> bool" for E where
  call: "sp \<notin> rc_frames s \<Longrightarrow> ra \<noteq> 0 \<Longrightarrow> ra \<noteq> trampoline E \<Longrightarrow>
    rh_step E s (s\<lparr>rs_state := (rs_state s)\<lparr>stack_word := (stack_word (rs_state s))(sp := ra)\<rparr>,
      rs_calls := (rs_calls s)(t := \<lparr>rc_frame = sp, rc_ret = ra, rc_hooks = []\<rparr> # rs_calls s t)\<rparr>)"
| hook: "rs_calls s t = c # cs \<Longrightarrow> pre_handler_preempt_rethook E prh t (rc_frame c) (rs_state s) = (r, st) \<Longrightarrow>
    d = (if prh_data prh = [] then None else Some (prh_data prh)) \<Longrightarrow>
    hs = (if task_nodes st t = task_nodes (rs_state s) t then rc_hooks c else (prh_post_hook prh, d) # rc_hooks c) \<Longrightarrow>
    rh_step E s (s\<lparr>rs_state := st, rs_calls := (rs_calls s)(t := c\<lparr>rc_hooks := hs\<rparr> # cs)\<rparr>)"
| store: "a \<notin> rc_frames s \<Longrightarrow> rh_step E s (s\<lparr>rs_state := (rs_state s)\<lparr>stack_word := (stack_word (rs_state s))(a := v)\<rparr>\<rparr>)"
| leave: "rs_calls s t = c # cs \<Longrightarrow> return_from E t (rc_frame c) fl (rs_state s) = Some (cp, st) \<Longrightarrow>
    rh_step E s (s\<lparr>rs_state := st, rs_calls := (rs_calls s)(t := cs)\<rparr>)"

definition rh_init :: "rh_sys \<Rightarrow> bool" where
  "rh_init s \<longleftrightarrow> rs_calls s = (\<lambda>_. []) \<and> task_nodes (rs_state s) = Map.empty"

text \<open>The nodes of a call: the oldest has the real return address, the others that of the trampoline.\<close>

fun armed :: "u64 \<Rightarrow> u64 \<Rightarrow> u64 \<Rightarrow> (nat option \<times> byte list option) list \<Rightarrow> preempt_rh_node list" where
  "armed tr fr ra [] = []"
| "armed tr fr ra (h # hs) =
     \<lparr>n_post_hook = fst h, n_ret_addr = (if hs = [] then ra else tr), n_frame = fr, n_data = snd h\<rparr> # armed tr fr ra hs"

definition call_nodes :: "u64 \<Rightarrow> rh_call \<Rightarrow> preempt_rh_node list" where
  "call_nodes tr c = armed tr (rc_frame c) (rc_ret c) (rc_hooks c)"

definition nodes_of :: "u64 \<Rightarrow> rh_call list \<Rightarrow> preempt_rh_node list" where
  "nodes_of tr cs = concat (map (call_nodes tr) cs)"

definition some_nodes :: "'a list \<Rightarrow> 'a list option" where
  "some_nodes ns = (if ns = [] then None else Some ns)"

definition call_ok :: "u64 \<Rightarrow> (u64 \<Rightarrow> u64) \<Rightarrow> rh_call \<Rightarrow> bool" where
  "call_ok tr m c \<longleftrightarrow> rc_ret c \<noteq> 0 \<and> rc_ret c \<noteq> tr \<and> m (rc_frame c) = (if rc_hooks c = [] then rc_ret c else tr)"

definition rh_inv :: "rh_env \<Rightarrow> rh_sys \<Rightarrow> bool" where
  "rh_inv E s \<longleftrightarrow>
     (\<forall>t. task_nodes (rs_state s) t = some_nodes (nodes_of (trampoline E) (rs_calls s t))) \<and>
     (\<forall>t. \<forall>c \<in> set (rs_calls s t). call_ok (trampoline E) (stack_word (rs_state s)) c) \<and>
     (\<forall>t. distinct (map rc_frame (rs_calls s t))) \<and>
     (\<forall>t u. t \<noteq> u \<longrightarrow> rc_frame ` set (rs_calls s t) \<inter> rc_frame ` set (rs_calls s u) = {})"

lemma nodes_of_simps [simp]: "nodes_of tr [] = []" "nodes_of tr (c # cs) = call_nodes tr c @ nodes_of tr cs"
  by (simp_all add: nodes_of_def)

lemma armed_Nil_iff [simp]: "armed tr fr ra hs = [] \<longleftrightarrow> hs = []"
  by (cases hs) auto

lemma length_armed [simp]: "length (armed tr fr ra hs) = length hs"
  by (induction hs) auto

lemma find_armed: "hs \<noteq> [] \<Longrightarrow> ra \<noteq> tr \<Longrightarrow> find_real tr (armed tr fr ra hs @ ns) i = Some (i + (length hs - 1), ra)"
  by (induction hs arbitrary: i) auto

text \<open>What the post hooks of a call leave in the log.\<close>

definition runs :: "u64 \<Rightarrow> (nat option \<times> byte list option) list \<Rightarrow> (nat \<times> byte list option \<times> u64) list" where
  "runs ra hs = concat (map (\<lambda>(f, d). case f of None \<Rightarrow> [] | Some f \<Rightarrow> [(f, d, ra)]) hs)"

lemma run_armed:
  "hs \<noteq> [] \<Longrightarrow> run_post_hooks fr ra (armed tr fr ra hs @ ns) (length hs - 1) st = st\<lparr>post_ran := post_ran st @ runs ra hs\<rparr>"
proof (induction hs arbitrary: st)
  case (Cons h hs)
  let ?st = "case fst h of None \<Rightarrow> st | Some f \<Rightarrow> st\<lparr>post_ran := post_ran st @ [(f, snd h, ra)]\<rparr>"
  show ?case
  proof (cases "hs = []")
    case True
    then show ?thesis by (cases h) (auto simp: runs_def split: option.split)
  next
    case False
    then have "length hs = Suc (length hs - 1)" by (cases hs) auto
    then show ?thesis using Cons.IH[OF False, of ?st] False by (cases h) (auto simp: runs_def split: option.split)
  qed
qed simp

lemma recycle_keeps [simp]:
  "stack_word (fold preempt_rethook_recycle ns st) = stack_word st" "task_nodes (fold preempt_rethook_recycle ns st) = task_nodes st"
  "post_ran (fold preempt_rethook_recycle ns st) = post_ran st"
  by (induction ns arbitrary: st) (simp_all add: preempt_rethook_recycle_def rh_kfree_def)

text \<open>The return from a function with armed hooks.\<close>

lemma trampoline_ok:
  assumes "task_nodes st t = Some (call_nodes (trampoline E) c @ ns)" "rc_hooks c \<noteq> []" "rc_ret c \<noteq> 0" "rc_ret c \<noteq> trampoline E"
  shows "\<exists>st'. preempt_rethook_trampoline E t (rc_frame c) fl st = Some (\<lparr>c_ip = rc_ret c, c_sp = rc_frame c + 8, c_flags = fl\<rparr>, st') \<and>
    stack_word st' = (stack_word st)(rc_frame c := rc_ret c) \<and> task_nodes st' = (task_nodes st)(t := some_nodes ns) \<and>
    post_ran st' = post_ran st @ runs (rc_ret c) (rc_hooks c)"
proof -
  define n where "n = call_nodes (trampoline E) c @ ns"
  define k where "k = length (rc_hooks c) - 1"
  have k: "Suc k = length (call_nodes (trampoline E) c)" using assms(2) by (simp add: call_nodes_def k_def)
  have f: "find_real (trampoline E) n 0 = Some (k, rc_ret c)" using find_armed[OF assms(2,4)] by (simp add: call_nodes_def n_def k_def)
  have r: "run_post_hooks (rc_frame c) (rc_ret c) n k st' = st'\<lparr>post_ran := post_ran st' @ runs (rc_ret c) (rc_hooks c)\<rparr>" for st'
    using run_armed[OF assms(2)] by (simp add: call_nodes_def n_def k_def)
  have d: "drop (Suc k) n = ns" unfolding k n_def by simp
  have l: "length n \<le> Suc k \<longleftrightarrow> ns = []" unfolding k n_def by simp
  have t: "task_nodes st t = Some n" using assms(1) by (simp add: n_def)
  show ?thesis using assms(3)
    by (simp add: preempt_rethook_trampoline_def preempt_rethook_trampoline_callback_def preempt_rethook_trampoline_handler_def
        preempt_rethook_find_ret_addr_def preempt_rethook_fixup_return_def t f r d l some_nodes_def rh_kfree_def Let_def)
qed

lemma return_from_ok:
  assumes "call_ok (trampoline E) (stack_word st) c" "task_nodes st t = some_nodes (nodes_of (trampoline E) (c # cs))"
  shows "\<exists>st'. return_from E t (rc_frame c) fl st = Some (\<lparr>c_ip = rc_ret c, c_sp = rc_frame c + 8, c_flags = fl\<rparr>, st') \<and>
    stack_word st' = (stack_word st)(rc_frame c := rc_ret c) \<and> task_nodes st' = (task_nodes st)(t := some_nodes (nodes_of (trampoline E) cs)) \<and>
    post_ran st' = post_ran st @ runs (rc_ret c) (rc_hooks c)"
proof (cases "rc_hooks c = []")
  case True
  then show ?thesis using assms by (auto simp: call_ok_def return_from_def call_nodes_def runs_def fun_upd_idem)
next
  case False
  then have "task_nodes st t = Some (call_nodes (trampoline E) c @ nodes_of (trampoline E) cs)"
    using assms(2) by (simp add: some_nodes_def call_nodes_def)
  from trampoline_ok[OF this False, of fl] assms(1) False show ?thesis by (simp add: call_ok_def return_from_def)
qed

text \<open>
  The three outcomes (\<open>Refused\<close>, \<open>Armed\<close>, \<open>Lost\<close>) of asking for a return hook: it is refused with an error; it is armed; or the answer is zero although
  there was no memory for the list of the task, and nothing is armed.
\<close>

lemma pre_handler_cases:
  assumes "pre_handler_preempt_rethook E prh t sp st = (r, st')"
  obtains (refused) "r = - ENOMEM" "task_nodes st' = task_nodes st" "stack_word st' = stack_word st" "rh_live st' = rh_live st"
  | (armed) "r = 0" "task_nodes st' = (task_nodes st)(t \<mapsto> \<lparr>n_post_hook = prh_post_hook prh, n_ret_addr = stack_word st sp, n_frame = sp,
        n_data = (if prh_data prh = [] then None else Some (prh_data prh))\<rparr> # (case task_nodes st t of None \<Rightarrow> [] | Some ns \<Rightarrow> ns))"
      "stack_word st' = (stack_word st)(sp := trampoline E)"
  | (lost) "r = 0" "task_nodes st t = None" "task_nodes st' = task_nodes st" "stack_word st' = stack_word st" "rh_live st < rh_live st'"
  using assms
  by (auto simp: pre_handler_preempt_rethook_def preempt_rethook_try_get_def preempt_rethook_hook_def preempt_rethook_prepare_def rh_kmalloc_def rh_kfree_def Let_def
      split: option.splits if_splits prod.splits)

lemma rh_invD:
  assumes "rh_inv E s"
  shows "task_nodes (rs_state s) t = some_nodes (nodes_of (trampoline E) (rs_calls s t))"
    "c \<in> set (rs_calls s t) \<Longrightarrow> call_ok (trampoline E) (stack_word (rs_state s)) c"
    "distinct (map rc_frame (rs_calls s t))"
    "t \<noteq> u \<Longrightarrow> rc_frame ` set (rs_calls s t) \<inter> rc_frame ` set (rs_calls s u) = {}"
  using assms unfolding rh_inv_def by blast+

lemma call_ok_other: "a \<noteq> rc_frame c \<Longrightarrow> call_ok tr (m(a := v)) c \<longleftrightarrow> call_ok tr m c"
  by (simp add: call_ok_def)

lemma rh_init_inv: "rh_init s \<Longrightarrow> rh_inv E s"
  by (simp add: rh_init_def rh_inv_def some_nodes_def)

lemma call_inv:
  assumes k: "rh_inv E s" and a: "sp \<notin> rc_frames s" "ra \<noteq> 0" "ra \<noteq> trampoline E"
  shows "rh_inv E (s\<lparr>rs_state := (rs_state s)\<lparr>stack_word := (stack_word (rs_state s))(sp := ra)\<rparr>,
      rs_calls := (rs_calls s)(t := \<lparr>rc_frame = sp, rc_ret = ra, rc_hooks = []\<rparr> # rs_calls s t)\<rparr>)"
proof -
  have n: "sp \<noteq> rc_frame c" if "c \<in> set (rs_calls s u)" for c u using a(1) that by (auto simp: rc_frames_def)
  have "call_ok (trampoline E) ((stack_word (rs_state s))(sp := ra)) c" if "c \<in> set (rs_calls s u)" for c u
    using rh_invD(2)[OF k that] n[OF that] by (simp add: call_ok_other)
  then show ?thesis using rh_invD[OF k] a n by (fastforce simp: rh_inv_def call_ok_def call_nodes_def)
qed

lemma hook_inv:
  assumes k: "rh_inv E s" and t: "rs_calls s t = c # cs" and p: "pre_handler_preempt_rethook E prh t (rc_frame c) (rs_state s) = (r, st)"
    and h: "d = (if prh_data prh = [] then None else Some (prh_data prh))"
      "hs = (if task_nodes st t = task_nodes (rs_state s) t then rc_hooks c else (prh_post_hook prh, d) # rc_hooks c)"
  shows "rh_inv E (s\<lparr>rs_state := st, rs_calls := (rs_calls s)(t := c\<lparr>rc_hooks := hs\<rparr> # cs)\<rparr>)"
  using p
proof (cases rule: pre_handler_cases)
  case armed
  have c: "call_ok (trampoline E) (stack_word (rs_state s)) c" using rh_invD(2)[OF k, of c t] t by simp
  have hs: "hs = (prh_post_hook prh, d) # rc_hooks c" using h(2) armed(2) by (auto split: option.splits)
  have n: "rc_frame c \<noteq> rc_frame c'" if "c' \<in> set (rs_calls s u)" "u \<noteq> t \<or> c' \<in> set cs" for c' u
  proof (cases "u = t")
    case True
    then show ?thesis using rh_invD(3)[OF k, of t] t that(2) by auto
  next
    case False
    then show ?thesis using rh_invD(4)[OF k False] t that(1) by auto
  qed
  let ?c = "c\<lparr>rc_hooks := hs\<rparr>" and ?m = "(stack_word (rs_state s))(rc_frame c := trampoline E)"
  have nodes: "task_nodes st t = some_nodes (nodes_of (trampoline E) (?c # cs))"
    using armed(2) rh_invD(1)[OF k, of t] t c h(1) by (auto simp: hs some_nodes_def call_nodes_def call_ok_def)
  have oks: "call_ok (trampoline E) ?m c'" if "c' \<in> set (((rs_calls s)(t := ?c # cs)) u)" for c' u
  proof (cases "u = t \<and> c' = ?c")
    case True
    then show ?thesis using c by (simp add: call_ok_def hs)
  next
    case False
    then have "c' \<in> set (rs_calls s u)" "u \<noteq> t \<or> c' \<in> set cs" using that t by (auto split: if_splits)
    then show ?thesis using n rh_invD(2)[OF k] by (simp add: call_ok_other)
  qed
  have fr: "map rc_frame (((rs_calls s)(t := ?c # cs)) u) = map rc_frame (rs_calls s u)" for u using t by simp
  then have fs: "rc_frame ` set (((rs_calls s)(t := ?c # cs)) u) = rc_frame ` set (rs_calls s u)" for u by (metis list.set_map)
  show ?thesis unfolding rh_inv_def using nodes oks rh_invD(1,3,4)[OF k] armed(2,3) fr fs by (auto split: if_splits)
qed (use k h t in \<open>simp_all add: rh_inv_def fun_upd_idem\<close>)

lemma leave_inv:
  assumes k: "rh_inv E s" and t: "rs_calls s t = c # cs" and r: "return_from E t (rc_frame c) fl (rs_state s) = Some (cp, st)"
  shows "rh_inv E (s\<lparr>rs_state := st, rs_calls := (rs_calls s)(t := cs)\<rparr>)"
proof -
  have c: "call_ok (trampoline E) (stack_word (rs_state s)) c" using rh_invD(2)[OF k, of c t] t by simp
  have st: "stack_word st = (stack_word (rs_state s))(rc_frame c := rc_ret c)"
    "task_nodes st = (task_nodes (rs_state s))(t := some_nodes (nodes_of (trampoline E) cs))"
    using return_from_ok[OF c, of t cs fl] rh_invD(1)[OF k, of t] t r by auto
  have n: "rc_frame c \<noteq> rc_frame c'" if "c' \<in> set (((rs_calls s)(t := cs)) u)" for c' u
  proof (cases "u = t")
    case True
    then show ?thesis using rh_invD(3)[OF k, of t] t that by auto
  next
    case False
    then show ?thesis using rh_invD(4)[OF k False] t that by auto
  qed
  have oks: "call_ok (trampoline E) (stack_word st) c'" if "c' \<in> set (((rs_calls s)(t := cs)) u)" for c' u
    using n[OF that] rh_invD(2)[OF k, of c' u] that t by (auto simp: st call_ok_other split: if_splits)
  have fs: "rc_frame ` set (((rs_calls s)(t := cs)) u) \<subseteq> rc_frame ` set (rs_calls s u)" for u using t by auto
  have ds: "distinct (map rc_frame (((rs_calls s)(t := cs)) u))" for u using rh_invD(3)[OF k, of u] t by auto
  have ix: "rc_frame ` set (((rs_calls s)(t := cs)) v) \<inter> rc_frame ` set (((rs_calls s)(t := cs)) u) = {}" if "v \<noteq> u" for u v
    using fs[of u] fs[of v] rh_invD(4)[OF k that] by blast
  have ns: "task_nodes st u = some_nodes (nodes_of (trampoline E) (((rs_calls s)(t := cs)) u))" for u
    using rh_invD(1)[OF k, of u] by (simp add: st(2))
  have sel: "rs_calls (s\<lparr>rs_state := st, rs_calls := f\<rparr>) = f" "rs_state (s\<lparr>rs_state := st, rs_calls := f\<rparr>) = st" for f by simp_all
  show ?thesis unfolding rh_inv_def sel
    by (intro conjI allI ballI impI) (rule ns, erule oks, rule ds, erule ix)
qed

lemma store_inv:
  assumes "rh_inv E s" "a \<notin> rc_frames s"
  shows "rh_inv E (s\<lparr>rs_state := (rs_state s)\<lparr>stack_word := (stack_word (rs_state s))(a := v)\<rparr>\<rparr>)"
  using assms by (auto simp: rh_inv_def rc_frames_def call_ok_def)

lemma rh_step_inv:
  assumes "rh_inv E s" "rh_step E s s'"
  shows "rh_inv E s'"
  using assms(2)
proof cases
  case call
  then show ?thesis using call_inv[OF assms(1) call(2-4)] by simp
next
  case (hook t c cs)
  show ?thesis unfolding hook(1) by (rule hook_inv[OF assms(1) hook(2-5)])
next
  case store
  then show ?thesis using store_inv[OF assms(1)] by simp
next
  case leave
  then show ?thesis using leave_inv[OF assms(1) leave(2,3)] by simp
qed

interpretation rethook: state_machine rh_init "rh_step E" "rh_inv E" for E
  by unfold_locales (use rh_init_inv rh_step_inv in blast)+

subsection \<open>Properties\<close>

text \<open>
  C14. A hooked function returns where it was called from. Let any number of tasks call functions, arm return hooks on them, several on one
  call too, write to their stacks and return, in any order. Then the innermost call of a task always returns: to the address it was called from, with the stack
  pointer just above that address and the flags it had; the post hooks armed on the call have run, newest first, each with its data and the return address,
  and no other; the lists of the other tasks are as they were, and that of the task holds what its other calls need.
\<close>

theorem hooked_call_returns_home:
  assumes "rh_init s0" "(rh_step E)\<^sup>*\<^sup>* s0 s" "rs_calls s t = c # cs"
  shows "\<exists>st'. return_from E t (rc_frame c) fl (rs_state s) = Some (\<lparr>c_ip = rc_ret c, c_sp = rc_frame c + 8, c_flags = fl\<rparr>, st') \<and>
    post_ran st' = post_ran (rs_state s) @ runs (rc_ret c) (rc_hooks c) \<and>
    task_nodes st' = (task_nodes (rs_state s))(t := some_nodes (nodes_of (trampoline E) cs))"
proof -
  have k: "rh_inv E s" by (rule rethook.run_inv[OF assms(1,2)])
  have "call_ok (trampoline E) (stack_word (rs_state s)) c" "task_nodes (rs_state s) t = some_nodes (nodes_of (trampoline E) (c # cs))"
    using rh_invD(1)[OF k, of t] rh_invD(2)[OF k, of c t] assms(3) by simp_all
  from return_from_ok[OF this] show ?thesis by blast
qed

text \<open>Task 3 calls a function from address 5 with its return address at 64, and a hook with handler 9 is armed on it.\<close>

definition sample_rh :: rh_env where
  "sample_rh = \<lparr>trampoline = 1000, KERNEL_CS = 16, KERNEL_DS = 24, rh_alloc = (\<lambda>_. True)\<rparr>"

definition idle_rh :: rh_sys where
  "idle_rh = \<lparr>rs_state = \<lparr>task_nodes = Map.empty, stack_word = (\<lambda>_. 0), post_ran = [], rh_live = 0, rh_clock = 0\<rparr>, rs_calls = (\<lambda>_. [])\<rparr>"

definition called_rh :: rh_sys where
  "called_rh = idle_rh\<lparr>rs_state := (rs_state idle_rh)\<lparr>stack_word := (stack_word (rs_state idle_rh))(64 := 5)\<rparr>,
     rs_calls := (rs_calls idle_rh)(3 := \<lparr>rc_frame = 64, rc_ret = 5, rc_hooks = []\<rparr> # rs_calls idle_rh 3)\<rparr>"

definition hooked_rh :: rh_sys where
  "hooked_rh = called_rh\<lparr>rs_state := snd (pre_handler_preempt_rethook sample_rh \<lparr>prh_post_hook = Some 9, prh_data = [1]\<rparr> 3 64 (rs_state called_rh)),
     rs_calls := (rs_calls called_rh)(3 := [\<lparr>rc_frame = 64, rc_ret = 5, rc_hooks = [(Some 9, Some [1])]\<rparr>])\<rparr>"

lemma hooked_rh_reached: "(rh_step sample_rh)\<^sup>*\<^sup>* idle_rh hooked_rh"
proof -
  have 1: "rh_step sample_rh idle_rh called_rh"
    unfolding called_rh_def by (rule rh_step.call) (simp_all add: rc_frames_def idle_rh_def sample_rh_def)
  let ?prh = "\<lparr>prh_post_hook = Some 9, prh_data = [1]\<rparr>" and ?c = "\<lparr>rc_frame = 64, rc_ret = 5, rc_hooks = []\<rparr>"
  have c: "rs_calls called_rh 3 = [?c]" by (simp add: called_rh_def idle_rh_def)
  obtain st where p: "pre_handler_preempt_rethook sample_rh ?prh 3 (rc_frame ?c) (rs_state called_rh) = (0, st)" "task_nodes st 3 \<noteq> None"
    by (simp add: pre_handler_preempt_rethook_def preempt_rethook_try_get_def preempt_rethook_hook_def preempt_rethook_prepare_def rh_kmalloc_def
      called_rh_def idle_rh_def sample_rh_def Let_def)
  have "task_nodes (rs_state called_rh) 3 = None" by (simp add: called_rh_def idle_rh_def)
  then have "rh_step sample_rh called_rh hooked_rh"
    using rh_step.hook[OF c p(1) refl refl] p by (simp add: hooked_rh_def)
  with 1 show ?thesis by (meson rtranclp.rtrancl_into_rtrancl rtranclp.rtrancl_refl)
qed

theorem hooked_call_returns_home_witness:
  "\<exists>st'. return_from sample_rh 3 64 2 (rs_state hooked_rh) = Some (\<lparr>c_ip = 5, c_sp = 72, c_flags = 2\<rparr>, st') \<and>
    post_ran st' = post_ran (rs_state hooked_rh) @ [(9, Some [1], 5)] \<and> task_nodes st' 3 = None"
proof -
  have "rh_init idle_rh" "rs_calls hooked_rh 3 = [\<lparr>rc_frame = 64, rc_ret = 5, rc_hooks = [(Some 9, Some [1])]\<rparr>]"
    by (simp_all add: rh_init_def idle_rh_def hooked_rh_def)
  from hooked_call_returns_home[OF this(1) hooked_rh_reached this(2), of 2] obtain st' where
    "return_from sample_rh 3 64 2 (rs_state hooked_rh) = Some (\<lparr>c_ip = 5, c_sp = 72, c_flags = 2\<rparr>, st')"
    "post_ran st' = post_ran (rs_state hooked_rh) @ [(9, Some [1], 5)]" "task_nodes st' 3 = None"
    by (auto simp: runs_def some_nodes_def)
  then show ?thesis by blast
qed

text \<open>
  Without memory for the list of the task the hook reports success, yet the return address stays in place: the function returns and no post hook
  runs, and what was allocated for it is lost.
\<close>

lemma lost_return_hook:
  assumes "task_nodes st t = None" "prh_data prh = []" "rh_alloc E (rh_clock st)" "\<not> rh_alloc E (Suc (rh_clock st))" "stack_word st sp \<noteq> trampoline E"
  shows "\<exists>st'. pre_handler_preempt_rethook E prh t sp st = (0, st') \<and> rh_live st' = rh_live st + 1 \<and>
    return_from E t sp fl st' = Some (\<lparr>c_ip = stack_word st sp, c_sp = sp + 8, c_flags = fl\<rparr>, st') \<and> post_ran st' = post_ran st"
  using assms
  by (simp add: pre_handler_preempt_rethook_def preempt_rethook_try_get_def preempt_rethook_hook_def rh_kmalloc_def return_from_def Let_def)

end
