(* ===== verification/Hooks.thy ===== *)
theory Hooks
  imports Driver Tracing_Fn Rethook
begin

text \<open>
  The hooks of the mount system calls and of the submission of a bio (\<^verbatim>\<open>src/src/ftrace_hooking.c\<close>). Depending on the kernel the driver
  hooks one function for mounting and one for unmounting; all of them are here.
\<close>

subsection \<open>Hooked calls\<close>

text \<open>
  The hooked call itself: \<open>orig\<close> performs it, with the result and the driver after it. \<open>look\<close> is the lookup of a
  directory, \<open>d_path\<close> the name of the path that is mounted or unmounted, \<open>kmalloc_ok\<close> whether the buffer for it can be allocated.
\<close>

type_synonym orig_call = "drv \<Rightarrow> int \<times> drv"
type_synonym lookup_fn = "drv \<Rightarrow> string \<Rightarrow> int + bool \<times> bool \<times> vfsmount"

record mount_sys =
  ms_orig :: orig_call
  ms_look :: lookup_fn
  ms_d_path :: "drv \<Rightarrow> string"
  ms_kmalloc :: bool
  ms_rethook :: rethook_outcome

abbreviation (input) MS_RDONLY :: nat where "MS_RDONLY \<equiv> 0"
abbreviation (input) MS_REMOUNT :: nat where "MS_REMOUNT \<equiv> 5"
abbreviation (input) MS_BIND :: nat where "MS_BIND \<equiv> 12"
abbreviation (input) MS_MOVE :: nat where "MS_MOVE \<equiv> 13"
abbreviation (input) MS_UNBINDABLE :: nat where "MS_UNBINDABLE \<equiv> 17"
abbreviation (input) MS_PRIVATE :: nat where "MS_PRIVATE \<equiv> 18"
abbreviation (input) MS_SLAVE :: nat where "MS_SLAVE \<equiv> 19"
abbreviation (input) MS_SHARED :: nat where "MS_SHARED \<equiv> 20"
abbreviation (input) MS_MGC_VAL :: u64 where "MS_MGC_VAL \<equiv> 0xC0ED0000"
abbreviation (input) MS_MGC_MSK :: u64 where "MS_MGC_MSK \<equiv> 0xFFFF0000"

unbundle bit_operations_syntax

definition real_flags :: "u64 \<Rightarrow> u64" where
  "real_flags fl = (if fl AND MS_MGC_MSK = MS_MGC_VAL then fl AND NOT MS_MGC_MSK else fl)"

datatype mount_kind = No_Effect | Remount_Ro | Mount_Rw

definition mount_kind :: "u64 \<Rightarrow> mount_kind" where
  "mount_kind fl =
     (let f = real_flags fl in
      if list_ex (\<lambda>n. bit f n) [MS_BIND, MS_SHARED, MS_PRIVATE, MS_SLAVE, MS_UNBINDABLE, MS_MOVE] \<or> bit f MS_RDONLY \<and> \<not> bit f MS_REMOUNT
      then No_Effect
      else if bit f MS_RDONLY \<and> bit f MS_REMOUNT then Remount_Ro else Mount_Rw)"

text \<open>A call that ends the writability of a mount: the device goes dormant, the call is made, and its result is checked.\<close>

definition around_nowrite :: "sysenv \<Rightarrow> kernel \<Rightarrow> config \<Rightarrow> mount_sys \<Rightarrow> string \<Rightarrow> (drv \<Rightarrow> string) \<Rightarrow> drv \<Rightarrow> (int \<times> drv) option" where
  "around_nowrite E K C M dir_name post_name s = do {
     (ret, idx, s) \<leftarrow> handle_bdev_mount_event E K C (ms_look M s dir_name) dir_name False s;
     let (sys_ret, s) = ms_orig M s;
     s \<leftarrow> post_umount_check E K C ret sys_ret idx (post_name s) s;
     Some (sys_ret, s)
   }"

text \<open>A call that may make a mount writable: when it succeeds the event is handled.\<close>

definition then_writable :: "sysenv \<Rightarrow> kernel \<Rightarrow> config \<Rightarrow> mount_sys \<Rightarrow> (drv \<Rightarrow> string) \<Rightarrow> drv \<Rightarrow> (int \<times> drv) option" where
  "then_writable E K C M name s =
     (let (sys_ret, s) = ms_orig M s in
      if sys_ret \<noteq> 0 then Some (sys_ret, s)
      else do { (_, _, s) \<leftarrow> handle_bdev_mount_event E K C (ms_look M s (name s)) (name s) True s; Some (sys_ret, s) })"

definition ftrace_do_mount :: "sysenv \<Rightarrow> kernel \<Rightarrow> config \<Rightarrow> mount_sys \<Rightarrow> string \<Rightarrow> u64 \<Rightarrow> drv \<Rightarrow> (int \<times> drv) option" where
  "ftrace_do_mount E K C M dir_name fl s =
     (case mount_kind fl of
        No_Effect \<Rightarrow> Some (ms_orig M s)
      | Remount_Ro \<Rightarrow> around_nowrite E K C M dir_name (\<lambda>_. dir_name) s
      | Mount_Rw \<Rightarrow> then_writable E K C M (\<lambda>_. dir_name) s)"

definition ftrace_ksys_mount :: "sysenv \<Rightarrow> kernel \<Rightarrow> config \<Rightarrow> mount_sys \<Rightarrow> string \<Rightarrow> u64 \<Rightarrow> drv \<Rightarrow> (int \<times> drv) option" where
  "ftrace_ksys_mount E K C M dir_name fl s =
     (case mount_kind fl of
        No_Effect \<Rightarrow> Some (ms_orig M s)
      | Remount_Ro \<Rightarrow> around_nowrite E K C M dir_name (\<lambda>_. dir_name) s
      | Mount_Rw \<Rightarrow> then_writable E K C M (\<lambda>_. dir_name) s)"

definition ftrace_sys_mount :: "sysenv \<Rightarrow> kernel \<Rightarrow> config \<Rightarrow> mount_sys \<Rightarrow> string \<Rightarrow> u64 \<Rightarrow> drv \<Rightarrow> (int \<times> drv) option" where
  "ftrace_sys_mount E K C M dir_name fl s =
     (case mount_kind fl of
        No_Effect \<Rightarrow> Some (ms_orig M s)
      | Remount_Ro \<Rightarrow> around_nowrite E K C M dir_name (\<lambda>_. dir_name) s
      | Mount_Rw \<Rightarrow> then_writable E K C M (\<lambda>_. dir_name) s)"

text \<open>On newer kernels the hook has a path instead of a name; without memory for the name the call is refused.\<close>

definition ftrace_path_mount :: "sysenv \<Rightarrow> kernel \<Rightarrow> config \<Rightarrow> mount_sys \<Rightarrow> u64 \<Rightarrow> drv \<Rightarrow> (int \<times> drv) option" where
  "ftrace_path_mount E K C M fl s =
     (if \<not> ms_kmalloc M then Some (- ENOMEM, s)
      else case mount_kind fl of
        No_Effect \<Rightarrow> Some (ms_orig M s)
      | Remount_Ro \<Rightarrow> (let dir_name = ms_d_path M s in around_nowrite E K C M dir_name (\<lambda>_. dir_name) s)
      | Mount_Rw \<Rightarrow> then_writable E K C M (ms_d_path M) s)"

text \<open>
  With the return hook the call is made by the kernel after the hook; when the return hook is refused the check is made
  at once, as if the call had failed, and without memory for the name nothing is done. A return hook that is lost (theory \<open>Rethook\<close>)
  looks like one that is armed, but no check follows the call.
\<close>

definition around_rethook :: "sysenv \<Rightarrow> kernel \<Rightarrow> config \<Rightarrow> mount_sys \<Rightarrow> (string \<Rightarrow> drv \<Rightarrow> string) \<Rightarrow> drv \<Rightarrow> (int \<times> drv) option" where
  "around_rethook E K C M post_name s =
     (let dir_name = ms_d_path M s in
      case ms_rethook M of
        Armed \<Rightarrow> around_nowrite E K C M dir_name (post_name dir_name) s
      | Refused \<Rightarrow> do {
          (ret, idx, s) \<leftarrow> handle_bdev_mount_event E K C (ms_look M s dir_name) dir_name False s;
          s \<leftarrow> post_umount_check E K C ret 1 idx dir_name s;
          Some (ms_orig M s)
        }
      | Lost \<Rightarrow> do {
          (_, _, s) \<leftarrow> handle_bdev_mount_event E K C (ms_look M s dir_name) dir_name False s;
          Some (ms_orig M s)
        })"

definition ftrace_path_mount_preempt_rh :: "sysenv \<Rightarrow> kernel \<Rightarrow> config \<Rightarrow> mount_sys \<Rightarrow> u64 \<Rightarrow> drv \<Rightarrow> (int \<times> drv) option" where
  "ftrace_path_mount_preempt_rh E K C M fl s =
     (if \<not> ms_kmalloc M then Some (ms_orig M s)
      else case mount_kind fl of
        No_Effect \<Rightarrow> Some (ms_orig M s)
      | Remount_Ro \<Rightarrow> around_rethook E K C M (\<lambda>dir_name _. dir_name) s
      | Mount_Rw \<Rightarrow> if ms_rethook M = Armed then then_writable E K C M (ms_d_path M) s else Some (ms_orig M s))"

definition ftrace_path_umount :: "sysenv \<Rightarrow> kernel \<Rightarrow> config \<Rightarrow> mount_sys \<Rightarrow> drv \<Rightarrow> (int \<times> drv) option" where
  "ftrace_path_umount E K C M s =
     (if \<not> ms_kmalloc M then Some (- ENOMEM, s) else around_nowrite E K C M (ms_d_path M s) (ms_d_path M) s)"

definition ftrace_path_umount_preempt_rh :: "sysenv \<Rightarrow> kernel \<Rightarrow> config \<Rightarrow> mount_sys \<Rightarrow> drv \<Rightarrow> (int \<times> drv) option" where
  "ftrace_path_umount_preempt_rh E K C M s =
     (if \<not> ms_kmalloc M then Some (ms_orig M s) else around_rethook E K C M (\<lambda>_. ms_d_path M) s)"

definition ftrace_ksys_umount :: "sysenv \<Rightarrow> kernel \<Rightarrow> config \<Rightarrow> mount_sys \<Rightarrow> string \<Rightarrow> drv \<Rightarrow> (int \<times> drv) option" where
  "ftrace_ksys_umount E K C M name s = around_nowrite E K C M name (\<lambda>_. name) s"

definition ftrace_sys_umount :: "sysenv \<Rightarrow> kernel \<Rightarrow> config \<Rightarrow> mount_sys \<Rightarrow> string \<Rightarrow> drv \<Rightarrow> (int \<times> drv) option" where
  "ftrace_sys_umount E K C M name s = around_nowrite E K C M name (\<lambda>_. name) s"

definition ftrace_sys_oldumount :: "sysenv \<Rightarrow> kernel \<Rightarrow> config \<Rightarrow> mount_sys \<Rightarrow> string \<Rightarrow> drv \<Rightarrow> (int \<times> drv) option" where
  "ftrace_sys_oldumount E K C M name s = around_nowrite E K C M name (\<lambda>_. name) s"

text \<open>
  A mount that is attached by \<^verbatim>\<open>move_mount\<close>. \<open>target\<close> is the lookup of the target after the call: \<open>None\<close> when it fails; otherwise
  whether the mount or its super block is read-only, and the name, if there is memory for it and it can be formed.
\<close>

abbreviation (input) MOVE_MOUNT_F_EMPTY_PATH :: nat where "MOVE_MOUNT_F_EMPTY_PATH \<equiv> 2"
abbreviation (input) MOVE_MOUNT_BENEATH :: nat where "MOVE_MOUNT_BENEATH \<equiv> 9"

definition move_mount_post ::
  "sysenv \<Rightarrow> kernel \<Rightarrow> config \<Rightarrow> mount_sys \<Rightarrow> (drv \<Rightarrow> (bool \<times> string option) option) \<Rightarrow> u32 \<Rightarrow> int \<Rightarrow> drv \<Rightarrow> drv option" where
  "move_mount_post E K C M target fl sys_ret s =
     (if sys_ret \<noteq> 0 \<or> \<not> bit fl MOVE_MOUNT_F_EMPTY_PATH \<or> bit fl MOVE_MOUNT_BENEATH then Some s
      else case target s of
        Some (False, Some dir_name) \<Rightarrow> do {
          (_, _, s) \<leftarrow> handle_bdev_mount_event E K C (ms_look M s dir_name) dir_name True s; Some s
        }
      | _ \<Rightarrow> Some s)"

definition ftrace_sys_move_mount ::
  "sysenv \<Rightarrow> kernel \<Rightarrow> config \<Rightarrow> mount_sys \<Rightarrow> (drv \<Rightarrow> (bool \<times> string option) option) \<Rightarrow> u32 \<Rightarrow> drv \<Rightarrow> (int \<times> drv) option" where
  "ftrace_sys_move_mount E K C M target fl s =
     (let (sys_ret, s) = ms_orig M s in
      do { s \<leftarrow> move_mount_post E K C M target fl sys_ret s; Some (sys_ret, s) })"

definition ftrace_move_mount_preempt_rh ::
  "sysenv \<Rightarrow> kernel \<Rightarrow> config \<Rightarrow> mount_sys \<Rightarrow> (drv \<Rightarrow> (bool \<times> string option) option) \<Rightarrow> u32 \<Rightarrow> drv \<Rightarrow> (int \<times> drv) option" where
  "ftrace_move_mount_preempt_rh E K C M target fl s =
     (let (sys_ret, s) = ms_orig M s in
      if ms_rethook M \<noteq> Armed then Some (sys_ret, s)
      else do { s \<leftarrow> move_mount_post E K C M target fl sys_ret s; Some (sys_ret, s) })"

text \<open>The hook of \<^verbatim>\<open>__submit_bio\<close>: a bio that is deferred is not submitted.\<close>

definition ftrace_submit_bio ::
  "config \<Rightarrow> blk \<Rightarrow> addr \<Rightarrow> snap_device option list \<Rightarrow> bheap \<Rightarrow> (snap_device option list \<times> bheap) option" where
  "ftrace_submit_bio C B bio ds h = do {
     (ret, ds, h) \<leftarrow> moocbt_trace_bio C B bio ds h;
     Some (ds, if ret \<noteq> 0 then h else submit_real bio h)
   }"

subsection \<open>The hooks keep the driver consistent\<close>

text \<open>The kernel's own mount code leaves the state of the driver alone, and a failed lookup has an error number.\<close>

definition mount_ok :: "mount_sys \<Rightarrow> bool" where
  "mount_ok M \<longleftrightarrow> (\<forall>s. \<exists>r w. ms_orig M s = (r, s\<lparr>d_world := w\<rparr>)) \<and> (\<forall>s dir. ms_look M s dir \<noteq> Inl 0)"

lemma active_to_dormant_verified:
  assumes "tracer_active_to_dormant E K a s = Some s'" "d_devs s a = Some dev" "\<not> test_bit UNVERIFIED (sd_state dev)"
  shows "snap_devices s' = snap_devices s" "\<exists>dev'. d_devs s' a = Some dev' \<and> \<not> test_bit UNVERIFIED (sd_state dev')"
proof -
  from assms(1) obtain s1 r s2 f where st: "tracer_destroy_cow_thread E K a s = Some s1" "tracer_destroy_cow K a 2 s1 = Some (r, s2)"
    "upd_dev a f s2 = Some s'" and f: "f = tracer_set_fail_state r \<or> f = (\<lambda>dev. dev\<lparr>sd_state := clear_state_bit ACTIVE (sd_state dev)\<rparr>)"
    by (auto simp: tracer_active_to_dormant_def split: bind_splits if_splits)
  have R: "rooted E a s s2"
    by (rule rooted_trans[OF quiet_rooted[OF tracer_destroy_cow_thread_quiet[OF st(1)]] tracer_destroy_cow_rooted[OF st(2)]])
  with assms(2) obtain dev2 where d2: "d_devs s2 a = Some dev2" "core dev2 = core dev" by (auto simp: rooted_def keeps_def)
  have s': "s' = s2\<lparr>d_devs := (d_devs s2)(a \<mapsto> f dev2)\<rparr>" using st(3) d2(1) by (simp add: upd_dev_def)
  show "snap_devices s' = snap_devices s" using rooted_refs(2)[OF R] by (simp add: s')
  show "\<exists>dev'. d_devs s' a = Some dev' \<and> \<not> test_bit UNVERIFIED (sd_state dev')" using f d2(2) assms(3) by (auto simp: s' core_def)
qed

lemma nowrite_event_verified:
  assumes "drv_ok E s" "handle_bdev_mount_event E K C l dir False s = Some (0, i, s')" "l \<noteq> Inl 0"
  shows "\<exists>a dev. slot s' i = Some a \<and> d_devs s' a = Some dev \<and> wakeable dev"
proof -
  from assms(2,3) obtain mnt where "handle_bdev_mount_nowrite E K mnt s = Some (0, i, s')"
    by (auto simp: handle_bdev_mount_event_def split: sum.splits if_splits bind_splits)
  then obtain a dev where n: "slot s i = Some a" "d_devs s a = Some dev" "test_bit ACTIVE (sd_state dev)" "sd_fail_code dev = 0"
    "tracer_active_to_dormant E K a s = Some s'"
    by (auto simp: handle_bdev_mount_nowrite_def auto_transition_dormant_def tracer_read_fail_state_def split: bind_splits option.splits dest!: find_idx_found)
  have "\<not> test_bit UNVERIFIED (sd_state dev)" using drv_okD(8)[OF assms(1) n(2)] n(3,4) by (auto simp: idle_def stray_def)
  from active_to_dormant_verified[OF n(5,2) this] n(1) show ?thesis using slot_cong[of s' s i] by (auto simp: wakeable_def)
qed

lemma slot_world [simp]: "slot (s\<lparr>d_world := w\<rparr>) i = slot s i"
  by (simp add: slot_def)

lemma checked_drv_ok:
  assumes "drv_ok E s" "handle_bdev_mount_event E K C l dir False s = Some (ret, i, s1)" "l \<noteq> Inl 0"
    and "post_umount_check E K C ret ur i name (s1\<lparr>d_world := w\<rparr>) = Some s'"
  shows "drv_ok E s'"
proof (rule post_umount_check_drv_ok[OF _ assms(4)])
  show "drv_ok E (s1\<lparr>d_world := w\<rparr>)" using handle_bdev_mount_event_drv_ok[OF assms(1,2)] by (simp add: drv_ok_world)
  show "wakeable dev" if "ret = 0" "slot (s1\<lparr>d_world := w\<rparr>) i = Some a" "d_devs (s1\<lparr>d_world := w\<rparr>) a = Some dev" for a dev
    using nowrite_event_verified[OF assms(1) assms(2)[unfolded that(1)] assms(3)] that(2,3) by auto
qed

lemma orig_drv_ok: "mount_ok M \<Longrightarrow> drv_ok E s \<Longrightarrow> ms_orig M s = (r, s') \<Longrightarrow> drv_ok E s'"
  by (auto simp: mount_ok_def drv_ok_world dest!: spec[of _ s])

lemma around_nowrite_drv_ok:
  assumes "around_nowrite E K C M dir post_name s = Some (r, s')" "drv_ok E s" "mount_ok M"
  shows "drv_ok E s'"
proof -
  from assms(1) obtain ret i s1 sr s2 where e: "handle_bdev_mount_event E K C (ms_look M s dir) dir False s = Some (ret, i, s1)"
    "ms_orig M s1 = (sr, s2)" "post_umount_check E K C ret sr i (post_name s2) s2 = Some s'"
    by (auto simp: around_nowrite_def split: bind_splits prod.splits)
  from assms(3) e(2) obtain w where "s2 = s1\<lparr>d_world := w\<rparr>" by (auto simp: mount_ok_def dest!: spec[of _ s1])
  with e(3) have p: "post_umount_check E K C ret sr i (post_name s2) (s1\<lparr>d_world := w\<rparr>) = Some s'" by simp
  have l: "ms_look M s dir \<noteq> Inl 0" using assms(3) by (simp add: mount_ok_def)
  show ?thesis by (rule checked_drv_ok[OF assms(2) e(1) l p])
qed

lemma then_writable_drv_ok:
  assumes "then_writable E K C M name s = Some (r, s')" "drv_ok E s" "mount_ok M"
  shows "drv_ok E s'"
proof -
  obtain sr s1 where o: "ms_orig M s = (sr, s1)" by (cases "ms_orig M s")
  note ok = orig_drv_ok[OF assms(3,2) o]
  from assms(1) o consider "s' = s1" | ret i where "handle_bdev_mount_event E K C (ms_look M s1 (name s1)) (name s1) True s1 = Some (ret, i, s')"
    by (auto simp: then_writable_def split: if_splits bind_splits)
  then show ?thesis
  proof cases
    case 2
    then show ?thesis by (rule handle_bdev_mount_event_drv_ok[OF ok])
  qed (use ok in simp)
qed

lemma around_rethook_drv_ok:
  assumes "around_rethook E K C M post_name s = Some (r, s')" "drv_ok E s" "mount_ok M"
  shows "drv_ok E s'"
proof (cases "ms_rethook M")
  case Armed
  then show ?thesis using assms(1) by (intro around_nowrite_drv_ok[OF _ assms(2,3)]) (simp add: around_rethook_def Let_def)
next
  case Refused
  let ?d = "ms_d_path M s"
  from assms(1) Refused obtain ret i s1 s2 where e: "handle_bdev_mount_event E K C (ms_look M s ?d) ?d False s = Some (ret, i, s1)"
    "post_umount_check E K C ret 1 i ?d s1 = Some s2" "ms_orig M s2 = (r, s')"
    by (auto simp: around_rethook_def Let_def split: bind_splits)
  have p: "post_umount_check E K C ret 1 i ?d (s1\<lparr>d_world := d_world s1\<rparr>) = Some s2" using e(2) by simp
  have l: "ms_look M s ?d \<noteq> Inl 0" using assms(3) by (simp add: mount_ok_def)
  show ?thesis by (rule orig_drv_ok[OF assms(3) checked_drv_ok[OF assms(2) e(1) l p] e(3)])
next
  case Lost
  let ?d = "ms_d_path M s"
  from assms(1) Lost obtain ret i s1 where e: "handle_bdev_mount_event E K C (ms_look M s ?d) ?d False s = Some (ret, i, s1)" "ms_orig M s1 = (r, s')"
    by (auto simp: around_rethook_def Let_def split: bind_splits)
  show ?thesis by (rule orig_drv_ok[OF assms(3) handle_bdev_mount_event_drv_ok[OF assms(2) e(1)] e(2)])
qed

lemma move_mount_post_drv_ok:
  assumes "move_mount_post E K C M target fl sr s = Some s'" "drv_ok E s"
  shows "drv_ok E s'"
proof -
  from assms(1) consider "s' = s" | l d ret i where "handle_bdev_mount_event E K C l d True s = Some (ret, i, s')"
    by (auto simp: move_mount_post_def split: if_splits option.splits bool.splits bind_splits)
  then show ?thesis
  proof cases
    case 2
    then show ?thesis by (rule handle_bdev_mount_event_drv_ok[OF assms(2)])
  qed (use assms(2) in simp)
qed

text \<open>Any of the hooked calls, with its result.\<close>

inductive hooked :: "sysenv \<Rightarrow> kernel \<Rightarrow> config \<Rightarrow> mount_sys \<Rightarrow> drv \<Rightarrow> int \<Rightarrow> drv \<Rightarrow> bool" for E K C M where
  do_mount: "ftrace_do_mount E K C M dir fl s = Some (r, s') \<Longrightarrow> hooked E K C M s r s'"
| ksys_mount: "ftrace_ksys_mount E K C M dir fl s = Some (r, s') \<Longrightarrow> hooked E K C M s r s'"
| sys_mount: "ftrace_sys_mount E K C M dir fl s = Some (r, s') \<Longrightarrow> hooked E K C M s r s'"
| path_mount: "ftrace_path_mount E K C M fl s = Some (r, s') \<Longrightarrow> hooked E K C M s r s'"
| path_mount_rh: "ftrace_path_mount_preempt_rh E K C M fl s = Some (r, s') \<Longrightarrow> hooked E K C M s r s'"
| path_umount: "ftrace_path_umount E K C M s = Some (r, s') \<Longrightarrow> hooked E K C M s r s'"
| path_umount_rh: "ftrace_path_umount_preempt_rh E K C M s = Some (r, s') \<Longrightarrow> hooked E K C M s r s'"
| ksys_umount: "ftrace_ksys_umount E K C M name s = Some (r, s') \<Longrightarrow> hooked E K C M s r s'"
| sys_umount: "ftrace_sys_umount E K C M name s = Some (r, s') \<Longrightarrow> hooked E K C M s r s'"
| sys_oldumount: "ftrace_sys_oldumount E K C M name s = Some (r, s') \<Longrightarrow> hooked E K C M s r s'"
| move_mount: "ftrace_sys_move_mount E K C M target mf s = Some (r, s') \<Longrightarrow> hooked E K C M s r s'"
| move_mount_rh: "ftrace_move_mount_preempt_rh E K C M target mf s = Some (r, s') \<Longrightarrow> hooked E K C M s r s'"

lemma hooked_drv_ok:
  assumes "hooked E K C M s r s'" "drv_ok E s" "mount_ok M"
  shows "drv_ok E s'"
  using assms(1)
proof cases
  case move_mount
  then show ?thesis using orig_drv_ok[OF assms(3,2)] move_mount_post_drv_ok by (auto simp: ftrace_sys_move_mount_def split: prod.splits bind_splits)
next
  case move_mount_rh
  then show ?thesis using orig_drv_ok[OF assms(3,2)] move_mount_post_drv_ok
    by (auto simp: ftrace_move_mount_preempt_rh_def split: prod.splits bind_splits if_splits)
qed (use assms(2) orig_drv_ok[OF assms(3,2)] around_nowrite_drv_ok[OF _ assms(2,3)] then_writable_drv_ok[OF _ assms(2,3)] around_rethook_drv_ok[OF _ assms(2,3)] in
  \<open>auto simp: ftrace_do_mount_def ftrace_ksys_mount_def ftrace_sys_mount_def ftrace_path_mount_def ftrace_path_mount_preempt_rh_def ftrace_path_umount_def
     ftrace_path_umount_preempt_rh_def ftrace_ksys_umount_def ftrace_sys_umount_def ftrace_sys_oldumount_def Let_def split: mount_kind.splits if_splits\<close>)


definition sample_mount :: mount_sys where
  "sample_mount = \<lparr>ms_orig = (\<lambda>s. (0, etick s)), ms_look = (\<lambda>_ _. Inr (True, True, \<lparr>m_id = 0, m_bdev = 0\<rparr>)), ms_d_path = (\<lambda>_. ''/mnt''), ms_kmalloc = True, ms_rethook = Armed\<rparr>"

lemma sample_mount_ok: "mount_ok sample_mount"
  by (auto simp: mount_ok_def sample_mount_def etick_def)


subsection \<open>Installing the hooks\<close>

text \<open>
  What the kernel answers for hook \<open>i\<close>: the address of its symbol, 0 when it has none, and the codes of setting the filter, registering,
  unregistering and clearing the filter. The state: which filters are set and which hooks are registered.
\<close>

record ftrace_env =
  f_lookup :: "nat \<Rightarrow> nat"
  f_set :: "nat \<Rightarrow> int"
  f_register :: "nat \<Rightarrow> int"
  f_unregister :: "nat \<Rightarrow> int"
  f_clear :: "nat \<Rightarrow> int"

record ftrace_state =
  filtered :: "nat \<Rightarrow> bool"
  registered :: "nat \<Rightarrow> bool"

definition resolve_hook_address :: "ftrace_env \<Rightarrow> nat \<Rightarrow> int" where
  "resolve_hook_address F i = (if f_lookup F i = 0 then - ENOENT else 0)"

definition register_hook :: "ftrace_env \<Rightarrow> nat \<Rightarrow> ftrace_state \<Rightarrow> int \<times> ftrace_state" where
  "register_hook F i st =
     (let ret = resolve_hook_address F i in
      if ret \<noteq> 0 then (ret, st)
      else if f_set F i \<noteq> 0 then (f_set F i, st)
      else let st = st\<lparr>filtered := (filtered st)(i := True)\<rparr> in
        if f_register F i \<noteq> 0 then (f_register F i, if f_clear F i = 0 then st\<lparr>filtered := (filtered st)(i := False)\<rparr> else st)
        else (0, st\<lparr>registered := (registered st)(i := True)\<rparr>))"

definition unregister_hook :: "ftrace_env \<Rightarrow> nat \<Rightarrow> ftrace_state \<Rightarrow> int \<times> ftrace_state" where
  "unregister_hook F i st =
     (let st = (if f_unregister F i = 0 then st\<lparr>registered := (registered st)(i := False)\<rparr> else st);
          st = (if f_clear F i = 0 then st\<lparr>filtered := (filtered st)(i := False)\<rparr> else st)
      in (f_clear F i, st))"

text \<open>
  What a hooked function does when it is entered. With \<^verbatim>\<open>USE_FENTRY_OFFSET\<close> the original is called past its entry, otherwise calls that come from the
  module itself run the original. A hook that is not called in place of the function runs before it.
\<close>

record ftrace_hook =
  fh_address :: u64
  fh_function :: u64
  fh_direct_hook_call :: bool
  fh_ipmodify :: bool

datatype ftrace_entry = Original | Replaced u64 | Before u64

abbreviation (input) MCOUNT_INSN_SIZE :: u64 where "MCOUNT_INSN_SIZE \<equiv> 5"

definition hook_original :: "bool \<Rightarrow> ftrace_hook \<Rightarrow> u64" where
  "hook_original USE_FENTRY_OFFSET hook = (if USE_FENTRY_OFFSET then fh_address hook + MCOUNT_INSN_SIZE else fh_address hook)"

definition ftrace_callback_handler :: "bool \<Rightarrow> (u64 \<Rightarrow> bool) \<Rightarrow> u64 \<Rightarrow> ftrace_hook \<Rightarrow> ftrace_entry" where
  "ftrace_callback_handler USE_FENTRY_OFFSET within_module parent_ip hook =
     (if fh_direct_hook_call hook \<and> fh_ipmodify hook then
        (if USE_FENTRY_OFFSET \<or> \<not> within_module parent_ip then Replaced (fh_function hook) else Original)
      else if \<not> within_module parent_ip then Before (fh_function hook) else Original)"

text \<open>A call of the original by the module, at the entry or past it, never runs the hook again.\<close>

lemma original_is_not_hooked:
  assumes "within_module parent_ip" "hook_original USE_FENTRY_OFFSET hook = fh_address hook"
  shows "ftrace_callback_handler USE_FENTRY_OFFSET within_module parent_ip hook = Original"
  using assms by (auto simp: hook_original_def ftrace_callback_handler_def)

text \<open>The rollback, from the hook before the one that failed down to the first.\<close>

fun rollback_hooks :: "ftrace_env \<Rightarrow> nat \<Rightarrow> ftrace_state \<Rightarrow> ftrace_state" where
  "rollback_hooks F 0 st = st"
| "rollback_hooks F (Suc i) st = rollback_hooks F i (snd (unregister_hook F i st))"

fun register_from :: "ftrace_env \<Rightarrow> nat \<Rightarrow> nat \<Rightarrow> ftrace_state \<Rightarrow> int \<times> ftrace_state" where
  "register_from F i 0 st = (0, st)"
| "register_from F i (Suc n) st =
     (let (ret, st) = register_hook F i st in
      if ret \<noteq> 0 then (ret, rollback_hooks F i st) else register_from F (Suc i) n st)"

definition register_ftrace_hooks :: "ftrace_env \<Rightarrow> nat \<Rightarrow> ftrace_state \<Rightarrow> int \<times> ftrace_state" where
  "register_ftrace_hooks F count st = register_from F 0 count st"

definition unregister_ftrace_hooks :: "ftrace_env \<Rightarrow> nat \<Rightarrow> ftrace_state \<Rightarrow> int \<times> ftrace_state" where
  "unregister_ftrace_hooks F count st = (0, fold (\<lambda>i st. snd (unregister_hook F i st)) [0..<count] st)"

lemma rollback_hooks_state:
  assumes "\<And>j. f_unregister F j = 0" "\<And>j. f_clear F j = 0"
  shows "registered (rollback_hooks F i st) j = (registered st j \<and> i \<le> j)" "filtered (rollback_hooks F i st) j = (filtered st j \<and> i \<le> j)"
  by (induction i arbitrary: st) (auto simp: unregister_hook_def assms Let_def less_Suc_eq_le Suc_le_eq)

lemma register_from_state:
  assumes "register_from F i n st = (ret, st')" "\<And>j. f_unregister F j = 0" "\<And>j. f_clear F j = 0"
    and "\<And>j. registered st j = (j < i)" "\<And>j. filtered st j = (j < i)"
  shows "if ret = 0 then (\<forall>j. registered st' j = (j < i + n) \<and> filtered st' j = (j < i + n)) else (\<forall>j. \<not> registered st' j \<and> \<not> filtered st' j)"
  using assms
proof (induction n arbitrary: i st)
  case (Suc n)
  obtain r st1 where h: "register_hook F i st = (r, st1)" by (cases "register_hook F i st")
  show ?case
  proof (cases "r = 0")
    case True
    have s1: "registered st1 j = (j < Suc i)" "filtered st1 j = (j < Suc i)" for j
      using h True Suc.prems(4)[of j] Suc.prems(5)[of j] by (auto simp: register_hook_def Let_def less_Suc_eq split: if_splits)
    have "register_from F (Suc i) n st1 = (ret, st')" using Suc.prems(1) h True by simp
    from Suc.IH[OF this Suc.prems(2,3) s1] show ?thesis by (simp only: add_Suc_right add_Suc)
  next
    case False
    have s1: "registered st1 j = (j < i)" "filtered st1 j = (j < i)" for j
      using h False Suc.prems(3)[of i] Suc.prems(4)[of j] Suc.prems(5)[of j] by (auto simp: register_hook_def Let_def split: if_splits)
    show ?thesis using Suc.prems(1) h False rollback_hooks_state[OF Suc.prems(2,3), of i st1] s1 by auto
  qed
qed auto

text \<open>
  C35. The hooks are installed all or none. When the kernel can remove the hooks it has accepted, installing them returns zero with every hook registered and
  its filter set, or the error of the first hook that failed with no hook registered and no filter set.
\<close>

theorem register_ftrace_hooks_all_or_none:
  assumes "register_ftrace_hooks F n st = (ret, st')" "\<And>j. f_unregister F j = 0" "\<And>j. f_clear F j = 0"
    and "\<And>j. \<not> registered st j" "\<And>j. \<not> filtered st j"
  shows "if ret = 0 then (\<forall>j. registered st' j = (j < n) \<and> filtered st' j = (j < n)) else (\<forall>j. \<not> registered st' j \<and> \<not> filtered st' j)"
  by (rule register_from_state[OF assms(1)[unfolded register_ftrace_hooks_def] assms(2,3), unfolded add_0]) (simp_all add: assms(4,5))

theorem register_ftrace_hooks_all_or_none_witness:
  "\<exists>ret st'. register_ftrace_hooks \<lparr>f_lookup = (\<lambda>i. if i = 2 then 0 else 7), f_set = (\<lambda>_. 0), f_register = (\<lambda>_. 0), f_unregister = (\<lambda>_. 0), f_clear = (\<lambda>_. 0)\<rparr> 3
     \<lparr>filtered = (\<lambda>_. False), registered = (\<lambda>_. False)\<rparr> = (ret, st') \<and> ret = - ENOENT \<and> \<not> registered st' 0 \<and> \<not> registered st' 1"
proof -
  let ?F = "\<lparr>f_lookup = (\<lambda>i. if i = 2 then 0 else 7), f_set = (\<lambda>_. 0), f_register = (\<lambda>_. 0), f_unregister = (\<lambda>_. 0), f_clear = (\<lambda>_. 0)\<rparr>"
  let ?st = "\<lparr>filtered = (\<lambda>_. False), registered = (\<lambda>_. False)\<rparr>"
  obtain ret st' where e: "register_ftrace_hooks ?F 3 ?st = (ret, st')" by (cases "register_ftrace_hooks ?F 3 ?st")
  moreover have "ret = - ENOENT" using e by (auto simp: register_ftrace_hooks_def numeral_3_eq_3 register_hook_def resolve_hook_address_def Let_def)
  moreover have "if ret = 0 then (\<forall>j. registered st' j = (j < 3) \<and> filtered st' j = (j < 3)) else (\<forall>j. \<not> registered st' j \<and> \<not> filtered st' j)"
    by (rule register_ftrace_hooks_all_or_none[OF e]) simp_all
  ultimately show ?thesis by auto
qed

end
