(* ===== verification/Point_In_Time.thy ===== *)
theory Point_In_Time
  imports Tracing_Lemmas
begin

text \<open>
  A snapshot at work: writes to the base device arrive and are captured, the layer below reads the clones and performs the
  writes it was given, the threads take their turns, and reads of the snapshot disk arrive, in any order. The functions of the
  driver are those of theory \<open>Tracing\<close>; what surrounds them is the step relation of this theory. The invariant
  says that the saved blocks, the captures still queued and the base device together are the base device as it was when the
  snapshot was taken.
\<close>

subsection \<open>The system\<close>

text \<open>
  The device, the memory of the block layer, the files, the COW manager, the local of the COW thread, the content of the base
  device (addressed from the start of the partition), and the clones the layer below has read.
\<close>

record pit =
  pt_dev :: snap_device
  pt_heap :: bheap
  pt_world :: world
  pt_cow :: "cow_manager option"
  pt_failed :: bool
  pt_disk :: buf
  pt_read :: "addr set"

text \<open>A request that arrives from above, with the address the block layer gave it.\<close>

definition arrives :: "bio \<Rightarrow> nat \<Rightarrow> bheap \<Rightarrow> bheap" where
  "arrives b f h = h\<lparr>bios := (bios h)(fresh h := b), fresh := f\<rparr>"

text \<open>The blocks of the device that a request touches.\<close>

definition touched :: "nat \<Rightarrow> bio \<Rightarrow> nat set" where
  "touched off b = (\<lambda>s. (s - off) div SECTORS_PER_BLOCK) ` {bi_sector b..<bi_sector b + bi_size b div SECTOR_SIZE}"

text \<open>The clones on their way, and the writes that were released or never needed a copy.\<close>

abbreviation (input) is_clone :: "bio \<Rightarrow> bool" where
  "is_clone b \<equiv> bi_end_io b = 1"

definition flying :: "snap_device \<Rightarrow> bheap \<Rightarrow> addr list" where
  "flying dev h = sd_read_bios dev @ filter (\<lambda>c. is_clone (bios h c)) (submitted h)"

definition outgoing :: "snap_device \<Rightarrow> bheap \<Rightarrow> addr list" where
  "outgoing dev h = sd_orig_bios dev @ filter (\<lambda>c. \<not> is_clone (bios h c)) (submitted h)"

definition bio_pages :: "bio \<Rightarrow> page_id set" where
  "bio_pages b = bv_page ` set (bi_io_vec b)"

text \<open>
  The next bio of the queue does not overtake a captured write that shares a block with it.
\<close>

definition shares_block :: "bio \<Rightarrow> bio \<Rightarrow> bool" where
  "shares_block b c \<longleftrightarrow> bi_sector b < bi_sector c + bi_size c div SECTOR_SIZE \<and> bi_sector c < bi_sector b + bi_size b div SECTOR_SIZE"

definition in_order :: "(addr \<Rightarrow> bio) \<Rightarrow> addr list \<Rightarrow> bool" where
  "in_order bs xs \<longleftrightarrow>
     (let t = fst (delay_dequeue bs xs) in
      bio_data_dir (bs t) \<longrightarrow> list_all (\<lambda>u. bio_data_dir (bs u) \<longrightarrow> \<not> shares_block (bs u) (bs t)) (takeWhile (\<lambda>u. u \<noteq> t) xs))"

text \<open>
  The steps. \<open>X\<close> is the set of blocks that hold the COW file itself, which the driver does not capture. A write
  lies within the device, a read of the snapshot too, and its pages are not those of a clone. The layer below reads a clone before it
  reports success, and moves the iterator of the clone as it does; while it performs a write the content of the blocks of the write is
  arbitrary and no other byte changes. A turn of the COW thread is one step and does not overtake.
\<close>

inductive pit_step :: "kernel \<Rightarrow> config \<Rightarrow> blk \<Rightarrow> submit \<Rightarrow> nat set \<Rightarrow> pit \<Rightarrow> pit \<Rightarrow> bool" for K C B submit X where
  app_write: "fresh (pt_heap s) < f \<Longrightarrow> \<not> is_clone b \<Longrightarrow> tracer_should_trace_bio (Some (pt_dev s)) b \<Longrightarrow> 512 dvd bi_size b \<Longrightarrow>
    bi_sector b + bi_size b div SECTOR_SIZE \<le> sd_sect_off (pt_dev s) + sd_size (pt_dev s) \<Longrightarrow>
    (\<not> bio_needs_cow B b (sd_cow_inode (pt_dev s)) \<longrightarrow> touched (sd_sect_off (pt_dev s)) b \<subseteq> X) \<Longrightarrow>
    snap_trace_bio C B (fresh (pt_heap s)) (pt_dev s) (arrives b f (pt_heap s)) = Some (ret, dev, h) \<Longrightarrow>
    pit_step K C B submit X s
      (s\<lparr>pt_dev := dev, pt_heap := (if USE_HOOK_TRACER C \<and> ret = 0 then submit_real (fresh (pt_heap s)) h else h)\<rparr>)"
| read_thread: "snap_read_thread (pt_dev s) (pt_heap s) = (dev, h) \<Longrightarrow> pit_step K C B submit X s (s\<lparr>pt_dev := dev, pt_heap := h\<rparr>)"
| mrf_thread: "snap_mrf_thread (pt_dev s) (pt_heap s) = (dev, h) \<Longrightarrow> pit_step K C B submit X s (s\<lparr>pt_dev := dev, pt_heap := h\<rparr>)"
| device_read: "c \<in> set (submitted (pt_heap s)) \<Longrightarrow> is_clone (bios (pt_heap s) c) \<Longrightarrow> c \<notin> pt_read s \<Longrightarrow> b = bios (pt_heap s) c \<Longrightarrow>
    pit_step K C B submit X s
      (s\<lparr>pt_heap := (pt_heap s)\<lparr>bios := (bios (pt_heap s))(c := b\<lparr>bi_sector := sc, bi_size := sz, bi_idx := ix\<rparr>),
           pages_of := fill_segs (pt_disk s) (bi_io_vec b) ((bi_sector b - sd_sect_off (pt_dev s)) * SECTOR_SIZE) (pages_of (pt_heap s))\<rparr>,
         pt_read := insert c (pt_read s)\<rparr>)"
| complete: "c \<in> set (submitted (pt_heap s)) \<Longrightarrow> is_clone (bios (pt_heap s) c) \<Longrightarrow> err = 0 \<longrightarrow> c \<in> pt_read s \<Longrightarrow>
    on_bio_read_complete c err (pt_dev s) ((pt_heap s)\<lparr>submitted := remove1 c (submitted (pt_heap s))\<rparr>) = Some (dev, h) \<Longrightarrow>
    pit_step K C B submit X s (s\<lparr>pt_dev := dev, pt_heap := h\<rparr>)"
| device_write: "w \<in> set (submitted (pt_heap s)) \<Longrightarrow> \<not> is_clone (bios (pt_heap s) w) \<Longrightarrow>
    (\<And>a. D a \<noteq> pt_disk s a \<Longrightarrow> a div 4096 \<in> touched (sd_sect_off (pt_dev s)) (bios (pt_heap s) w)) \<Longrightarrow>
    pit_step K C B submit X s (s\<lparr>pt_disk := D\<rparr>)"
| written: "w \<in> set (submitted (pt_heap s)) \<Longrightarrow> \<not> is_clone (bios (pt_heap s) w) \<Longrightarrow>
    pit_step K C B submit X s (s\<lparr>pt_heap := (pt_heap s)\<lparr>submitted := remove1 w (submitted (pt_heap s))\<rparr>\<rparr>)"
| snap_request: "fresh (pt_heap s) < f \<Longrightarrow> fresh_bio b \<Longrightarrow> bi_sector b + bi_size b div SECTOR_SIZE \<le> sd_size (pt_dev s) \<Longrightarrow>
    bio_pages b \<subseteq> {..<f} - (\<Union>c \<in> set (flying (pt_dev s) (pt_heap s)) \<union> set (sd_cow_bios (pt_dev s)). bio_pages (bios (pt_heap s) c)) \<Longrightarrow>
    snap_mrf (fresh (pt_heap s)) (pt_dev s) (arrives b f (pt_heap s)) = (dev, h) \<Longrightarrow>
    pit_step K C B submit X s (s\<lparr>pt_dev := dev, pt_heap := h\<rparr>)"
| cow_turn: "sd_cow_bios (pt_dev s) \<noteq> [] \<longrightarrow> in_order (bios (pt_heap s)) (sd_cow_bios (pt_dev s)) \<Longrightarrow>
    snap_cow_thread K submit (pt_disk s) (pt_failed s) (pt_dev s) (pt_heap s) (pt_world s) (pt_cow s) = Some (failed, dev, h, w, cow) \<Longrightarrow>
    pit_step K C B submit X s (s\<lparr>pt_failed := failed, pt_dev := dev, pt_heap := h, pt_world := w, pt_cow := cow\<rparr>)"

text \<open>A snapshot of content \<open>D0\<close> just taken: nothing saved, nothing queued and nothing on its way.\<close>

definition pit_init :: "buf \<Rightarrow> pit \<Rightarrow> bool" where
  "pit_init D0 s \<longleftrightarrow> pt_disk s = D0 \<and> \<not> pt_failed s \<and> sd_fail_code (pt_dev s) = 0 \<and> sd_base_dev (pt_dev s) \<noteq> None \<and> sd_cow_bios (pt_dev s) = [] \<and> sd_read_bios (pt_dev s) = [] \<and>
     sd_orig_bios (pt_dev s) = [] \<and> submitted (pt_heap s) = [] \<and> tps (pt_heap s) = Map.empty \<and> pt_read s = {} \<and>
     (\<exists>cm. pt_cow s = Some cm \<and> snap_inv (pt_world s) cm \<and> cow_saved (pt_world s) cm = Map.empty \<and>
        sd_size (pt_dev s) \<le> SECTORS_PER_BLOCK * capacity cm)"

end
