(* ===== verification/Pit_Inv.thy ===== *)
theory Pit_Inv
  imports Point_In_Time
begin

text \<open>
  The invariant of a snapshot at work: what every clone on its way, every capture in the queue, every held write and every write that
  was let through owes to the content of the base device at the moment of the snapshot, and the steps that keep it without
  touching a page or the index.
\<close>

subsection \<open>Protected blocks\<close>

text \<open>A block of the content; the captures in the queue, oldest first; and the copies the queue will leave.\<close>

definition blk_of :: "buf \<Rightarrow> nat \<Rightarrow> buf" where
  "blk_of D b = block_of (\<lambda>i. D (b * COW_BLOCK_SIZE + i))"

definition capture_of :: "pages \<Rightarrow> bio \<Rightarrow> nat \<Rightarrow> buf option" where
  "capture_of P b = captured P (bi_io_vec b) (SECTOR_TO_BLOCK (bi_sector b))"

definition captures :: "pages \<Rightarrow> (addr \<Rightarrow> bio) \<Rightarrow> addr list \<Rightarrow> (nat \<rightharpoonup> buf) list" where
  "captures P bs xs = map (\<lambda>c. capture_of P (bs c)) (filter (\<lambda>c. bio_data_dir (bs c)) xs)"

definition protect :: "(nat \<rightharpoonup> buf) list \<Rightarrow> (nat \<rightharpoonup> buf) \<Rightarrow> (nat \<rightharpoonup> buf)" where
  "protect qs sv = fold (\<lambda>q m. q ++ m) qs sv"

lemma protect_simps [simp]:
  "protect [] sv = sv"
  "protect (q # qs) sv = protect qs (q ++ sv)"
  "protect (qs @ qs') sv = protect qs' (protect qs sv)"
  by (simp_all add: protect_def)

lemma protect_None: "protect qs sv b = None \<longleftrightarrow> sv b = None \<and> (\<forall>q \<in> set qs. q b = None)"
  by (induction qs arbitrary: sv) (auto simp: map_add_None)

lemma protect_saved: "(\<forall>q \<in> set qs. q b = None) \<Longrightarrow> protect qs sv b = sv b"
  by (induction qs arbitrary: sv) (auto simp: map_add_def split: option.splits)

lemma protect_overtake:
  assumes "\<forall>u \<in> set us. dom u \<inter> dom q = {}"
  shows "protect (us @ q # vs) sv = protect (us @ vs) (q ++ sv)"
proof -
  have "q ++ protect us sv = protect us (q ++ sv)" using assms
  proof (induction us arbitrary: sv)
    case (Cons u us)
    then have "q ++ (u ++ sv) = u ++ (q ++ sv)"
      by (metis Int_commute list.set_intros(1) map_add_assoc map_add_comm)
    then show ?case using Cons by simp
  qed simp
  then show ?thesis by simp
qed

lemma captures_simps [simp]:
  "captures P bs [] = []"
  "captures P bs (c # xs) = (if bio_data_dir (bs c) then capture_of P (bs c) # captures P bs xs else captures P bs xs)"
  "captures P bs (xs @ ys) = captures P bs xs @ captures P bs ys"
  by (simp_all add: captures_def)

lemma capture_of_cong: "(\<And>pg. pg \<in> bio_pages b \<Longrightarrow> P' pg = P pg) \<Longrightarrow> capture_of P' b = capture_of P b"
  unfolding capture_of_def by (rule captured_cong) (auto simp: bio_pages_def)

lemma captures_cong:
  assumes "\<And>c. c \<in> set xs \<Longrightarrow> bs' c = bs c" "\<And>c pg. c \<in> set xs \<Longrightarrow> bio_data_dir (bs c) \<Longrightarrow> pg \<in> bio_pages (bs c) \<Longrightarrow> P' pg = P pg"
  shows "captures P' bs' xs = captures P bs xs"
proof -
  have "filter (\<lambda>c. bio_data_dir (bs' c)) xs = filter (\<lambda>c. bio_data_dir (bs c)) xs" by (rule filter_cong[OF refl]) (simp add: assms(1))
  moreover have "capture_of P' (bs' c) = capture_of P (bs c)" if "c \<in> set xs" "bio_data_dir (bs c)" for c
    using assms(1)[OF that(1)] capture_of_cong[of "bs c" P' P] assms(2)[OF that] by simp
  ultimately show ?thesis by (simp add: captures_def)
qed

subsection \<open>The invariant\<close>

text \<open>Where a clone on its way was made, which its tracing parameters remember.\<close>

definition clone_at :: "bheap \<Rightarrow> addr \<Rightarrow> nat \<Rightarrow> bool" where
  "clone_at h c s \<longleftrightarrow> (\<exists>p. tps h (bi_private (bios h c)) = Some p \<and>
     find_sect c (tp_bio_sects p) = Some (s, vec_bytes (bi_io_vec (bios h c))))"

definition clone_covers :: "nat \<Rightarrow> bheap \<Rightarrow> addr \<Rightarrow> nat \<Rightarrow> bool" where
  "clone_covers off h c b \<longleftrightarrow> (\<exists>s. clone_at h c s \<and> (s - off) div 8 \<le> b \<and> b < (s - off) div 8 + length (bi_io_vec (bios h c)))"

definition flight_ok :: "nat \<Rightarrow> nat \<Rightarrow> addr set \<Rightarrow> bheap \<Rightarrow> addr \<Rightarrow> bool" where
  "flight_ok off n R h c \<longleftrightarrow> is_clone (bios h c) \<and> c < fresh h \<and> new_pages 0 (fresh h) (bi_io_vec (bios h c)) \<and>
     (\<exists>s. clone_at h c s \<and> off \<le> s \<and> 8 dvd (s - off) \<and> (s - off) div 8 + length (bi_io_vec (bios h c)) \<le> n \<and>
        (c \<notin> R \<longrightarrow> bi_sector (bios h c) = s))"

text \<open>What the layer below has read into a clone is the original content of every block that has no copy yet.\<close>

definition content_ok :: "nat set \<Rightarrow> buf \<Rightarrow> nat \<Rightarrow> (nat \<rightharpoonup> buf) \<Rightarrow> bheap \<Rightarrow> addr \<Rightarrow> bool" where
  "content_ok X D0 off M h c \<longleftrightarrow> (\<forall>s b v. clone_at h c s \<longrightarrow> captured (pages_of h) (bi_io_vec (bios h c)) ((s - off) div 8) b = Some v \<longrightarrow>
     b \<in> X \<or> M b \<noteq> None \<or> v = blk_of D0 b)"

definition queued_ok :: "nat \<Rightarrow> bheap \<Rightarrow> addr \<Rightarrow> bool" where
  "queued_ok n h c \<longleftrightarrow> c < fresh h \<and>
     (if bio_data_dir (bios h c)
      then new_pages 0 (fresh h) (bi_io_vec (bios h c)) \<and> 8 dvd bi_sector (bios h c) \<and> bi_size (bios h c) = vec_bytes (bi_io_vec (bios h c)) \<and>
        bi_sector (bios h c) div 8 + length (bi_io_vec (bios h c)) \<le> n
      else fresh_bio (bios h c) \<and> bi_sector (bios h c) * 512 + bi_size (bios h c) \<le> n * 4096 \<and> bio_pages (bios h c) \<subseteq> {..<fresh h})"

definition apart :: "bheap \<Rightarrow> addr set \<Rightarrow> addr list \<Rightarrow> bool" where
  "apart h F Q \<longleftrightarrow> F \<inter> set Q = {} \<and>
     (\<forall>c \<in> F \<union> {c \<in> set Q. bio_data_dir (bios h c)}. \<forall>d \<in> F \<union> set Q. c \<noteq> d \<longrightarrow> bio_pages (bios h c) \<inter> bio_pages (bios h d) = {})"

text \<open>A write that is held: each of its blocks has a copy or is being read by one of its clones.\<close>

definition held_ok :: "nat set \<Rightarrow> nat \<Rightarrow> (nat \<rightharpoonup> buf) \<Rightarrow> addr set \<Rightarrow> addr list \<Rightarrow> bheap \<Rightarrow> addr \<Rightarrow> tracing_params \<Rightarrow> bool" where
  "held_ok X off M F Q h tp p \<longleftrightarrow> tp < fresh h \<and> 0 < tp_refs p \<and> tp_refs p = int (card {c \<in> F. bi_private (bios h c) = tp}) \<and>
     tp_orig_bio p < fresh h \<and> \<not> is_clone (bios h (tp_orig_bio p)) \<and> tp_orig_bio p \<notin> set Q \<and>
     (\<forall>b \<in> touched off (bios h (tp_orig_bio p)). b \<in> X \<or> M b \<noteq> None \<or>
        (\<exists>c \<in> F. bi_private (bios h c) = tp \<and> clone_covers off h c b))"

text \<open>A write that is on its way: each of its blocks has a copy.\<close>

definition out_ok :: "nat set \<Rightarrow> nat \<Rightarrow> (nat \<rightharpoonup> buf) \<Rightarrow> addr list \<Rightarrow> bheap \<Rightarrow> addr \<Rightarrow> bool" where
  "out_ok X off M Q h c \<longleftrightarrow> c < fresh h \<and> \<not> is_clone (bios h c) \<and> c \<notin> set Q \<and> (\<forall>b \<in> touched off (bios h c). b \<in> X \<or> M b \<noteq> None)"

definition view_ok :: "nat set \<Rightarrow> buf \<Rightarrow> buf \<Rightarrow> (nat \<rightharpoonup> buf) \<Rightarrow> bool" where
  "view_ok X D0 D M \<longleftrightarrow> (\<forall>b. b \<notin> X \<longrightarrow> (case M b of None \<Rightarrow> blk_of D b | Some v \<Rightarrow> v) = blk_of D0 b)"

lemma view_ok_iff:
  "view_ok X D0 D M \<longleftrightarrow> (\<forall>b. b \<notin> X \<longrightarrow> (M b = None \<longrightarrow> blk_of D b = blk_of D0 b) \<and> (\<forall>v. M b = Some v \<longrightarrow> v = blk_of D0 b))"
  by (auto simp: view_ok_def split: option.splits)

definition traffic_ok ::
  "nat set \<Rightarrow> buf \<Rightarrow> nat \<Rightarrow> nat \<Rightarrow> addr set \<Rightarrow> (nat \<rightharpoonup> buf) \<Rightarrow> addr set \<Rightarrow> addr list \<Rightarrow> addr set \<Rightarrow> bheap \<Rightarrow> bool" where
  "traffic_ok X D0 off n R M F Q W h \<longleftrightarrow> finite F \<and> (\<forall>c \<in> F. flight_ok off n R h c) \<and> (\<forall>c \<in> F \<inter> R. content_ok X D0 off M h c) \<and>
     distinct Q \<and> (\<forall>c \<in> set Q. queued_ok n h c) \<and> apart h F Q \<and> (\<forall>tp p. tps h tp = Some p \<longrightarrow> held_ok X off M F Q h tp p) \<and>
     (\<forall>c \<in> W. out_ok X off M Q h c) \<and> R \<subseteq> {..<fresh h}"

text \<open>The copies that are saved or will be, and the invariant of a device that has not failed.\<close>

definition covered :: "pit \<Rightarrow> cow_manager \<Rightarrow> (nat \<rightharpoonup> buf)" where
  "covered s cm = protect (captures (pages_of (pt_heap s)) (bios (pt_heap s)) (sd_cow_bios (pt_dev s))) (cow_saved (pt_world s) cm)"

definition pit_ok :: "nat set \<Rightarrow> buf \<Rightarrow> pit \<Rightarrow> cow_manager \<Rightarrow> bool" where
  "pit_ok X D0 s cm \<longleftrightarrow> pt_cow s = Some cm \<and> \<not> pt_failed s \<and> sd_base_dev (pt_dev s) \<noteq> None \<and> snap_inv (pt_world s) cm \<and>
     sd_size (pt_dev s) \<le> SECTORS_PER_BLOCK * capacity cm \<and> distinct (flying (pt_dev s) (pt_heap s)) \<and>
     traffic_ok X D0 (sd_sect_off (pt_dev s)) (capacity cm) (pt_read s) (covered s cm) (set (flying (pt_dev s) (pt_heap s)))
       (sd_cow_bios (pt_dev s)) (set (outgoing (pt_dev s) (pt_heap s))) (pt_heap s) \<and>
     view_ok X D0 (pt_disk s) (covered s cm)"

definition pit_inv :: "nat set \<Rightarrow> buf \<Rightarrow> pit \<Rightarrow> bool" where
  "pit_inv X D0 s \<longleftrightarrow> sd_fail_code (pt_dev s) = 0 \<longrightarrow> (\<exists>cm. pit_ok X D0 s cm)"

lemma pit_init_inv: "pit_init D0 s \<Longrightarrow> pit_inv X D0 s"
  by (fastforce simp: pit_init_def pit_inv_def pit_ok_def covered_def flying_def outgoing_def traffic_ok_def apart_def view_ok_def)

subsection \<open>What the invariant depends on\<close>

lemma traffic_okD:
  assumes "traffic_ok X D0 off n R M F Q W h"
  shows "finite F" "c \<in> F \<Longrightarrow> flight_ok off n R h c" "c \<in> F \<Longrightarrow> c \<in> R \<Longrightarrow> content_ok X D0 off M h c" "distinct Q"
    "c \<in> set Q \<Longrightarrow> queued_ok n h c" "apart h F Q" "tps h tp = Some p \<Longrightarrow> held_ok X off M F Q h tp p" "c \<in> W \<Longrightarrow> out_ok X off M Q h c"
    "R \<subseteq> {..<fresh h}"
  using assms unfolding traffic_ok_def by blast+

lemma new_pages_le: "new_pages lo hi vs \<Longrightarrow> hi \<le> hi' \<Longrightarrow> new_pages lo hi' vs"
  by (rule new_pages_mono[OF _ order.refl])

lemma apartD:
  assumes "apart h F Q" "c \<in> F \<or> c \<in> set Q \<and> bio_data_dir (bios h c)" "d \<in> F \<union> set Q" "c \<noteq> d"
  shows "bio_pages (bios h c) \<inter> bio_pages (bios h d) = {}"
  using assms unfolding apart_def by blast

lemma apartI:
  assumes "F \<inter> set Q = {}"
    and "\<And>c d. c \<in> F \<or> c \<in> set Q \<and> bio_data_dir (bios h c) \<Longrightarrow> d \<in> F \<union> set Q \<Longrightarrow> c \<noteq> d \<Longrightarrow> bio_pages (bios h c) \<inter> bio_pages (bios h d) = {}"
  shows "apart h F Q"
  using assms unfolding apart_def by blast

lemma apart_cong:
  assumes b: "\<And>c. c \<in> F \<union> set Q \<Longrightarrow> bios h' c = bios h c" and a: "apart h F Q"
  shows "apart h' F Q"
proof (rule apartI)
  show "F \<inter> set Q = {}" using a by (simp add: apart_def)
  show "bio_pages (bios h' c) \<inter> bio_pages (bios h' d) = {}" if "c \<in> F \<or> c \<in> set Q \<and> bio_data_dir (bios h' c)" "d \<in> F \<union> set Q" "c \<noteq> d" for c d
    using apartD[OF a _ that(2,3)] that b[of c] b[OF that(2)] by auto
qed

text \<open>Other requests may come and go, and other bytes of memory change.\<close>

lemma traffic_ok_cong:
  assumes t: "traffic_ok X D0 off n R M F Q W h" and b: "\<And>c. c \<in> F \<union> set Q \<Longrightarrow> bios h' c = bios h c"
    and o: "\<And>c. c \<in> W \<or> (\<exists>tp p. tps h tp = Some p \<and> tp_orig_bio p = c) \<Longrightarrow>
        is_clone (bios h' c) = is_clone (bios h c) \<and> touched off (bios h' c) = touched off (bios h c)"
    and p: "tps h' = tps h" "fresh h \<le> fresh h'" and pg: "\<And>c x. c \<in> F \<Longrightarrow> x \<in> bio_pages (bios h c) \<Longrightarrow> pages_of h' x = pages_of h x"
    and w: "\<And>c. c \<in> W' \<Longrightarrow> c \<in> W \<or> out_ok X off M Q h' c"
  shows "traffic_ok X D0 off n R M F Q W' h'"
proof -
  note t = traffic_okD[OF t]
  have ca: "clone_at h' c s = clone_at h c s" if "c \<in> F" for c s using b[of c] that p by (simp add: clone_at_def)
  have "flight_ok off n R h' c" if "c \<in> F" for c
    using t(2)[OF that] b[of c] ca[OF that] that p new_pages_le[OF _ p(2)] by (auto simp: flight_ok_def)
  moreover have "content_ok X D0 off M h' c" if "c \<in> F" "c \<in> R" for c
  proof -
    have "captured (pages_of h') (bi_io_vec (bios h c)) = captured (pages_of h) (bi_io_vec (bios h c))"
      by (rule ext, rule captured_cong) (use pg[OF that(1)] in \<open>auto simp: bio_pages_def\<close>)
    then show ?thesis using t(3)[OF that] b[of c] ca[OF that(1)] that by (auto simp: content_ok_def)
  qed
  moreover have "queued_ok n h' c" if "c \<in> set Q" for c
    using t(5)[OF that] b[of c] that p new_pages_le[OF _ p(2)] by (fastforce simp: queued_ok_def)
  moreover have "apart h' F Q" by (rule apart_cong[OF b t(6)])
  moreover have "held_ok X off M F Q h' tp q" if "tps h' tp = Some q" for tp q
  proof -
    have q: "tps h tp = Some q" using that p by simp
    note k = t(7)[OF q]
    note o = o[of "tp_orig_bio q", OF disjI2, OF exI, OF exI, OF conjI[OF q refl]]
    have c: "{c \<in> F. bi_private (bios h' c) = tp} = {c \<in> F. bi_private (bios h c) = tp}" using b by auto
    have "clone_covers off h' d x = clone_covers off h d x" if "d \<in> F" for d x using b[of d] ca[OF that] that by (simp add: clone_covers_def)
    then show ?thesis using k o p(2) b unfolding held_ok_def c by (auto; metis UnI1)
  qed
  moreover have "out_ok X off M Q h' c" if "c \<in> W'" for c
  proof (cases "c \<in> W")
    case True
    then show ?thesis using t(8)[OF True] o[of c] p(2) by (auto simp: out_ok_def)
  qed (use w[OF that] in simp)
  moreover have "R \<subseteq> {..<fresh h'}" using t(9) p(2) by fastforce
  ultimately show ?thesis using t(1,4) by (simp add: traffic_ok_def)
qed

text \<open>More copies do no harm.\<close>

lemma traffic_ok_grow:
  assumes t: "traffic_ok X D0 off n R M F Q W h" and g: "\<And>b. M b \<noteq> None \<Longrightarrow> M' b \<noteq> None"
  shows "traffic_ok X D0 off n R M' F Q W h"
proof -
  note t = traffic_okD[OF t]
  have "content_ok X D0 off M' h c" if "c \<in> F" "c \<in> R" for c
    using t(3)[OF that] g unfolding content_ok_def by meson
  moreover have "held_ok X off M' F Q h tp p" if "tps h tp = Some p" for tp p
    using t(7)[OF that] g unfolding held_ok_def by meson
  moreover have "out_ok X off M' Q h c" if "c \<in> W" for c
    using t(8)[OF that] g unfolding out_ok_def by meson
  ultimately show ?thesis using t(1,2,4,5,6,9) by (simp add: traffic_ok_def)
qed

subsection \<open>Steps that leave the captures alone\<close>

definition same_place :: "snap_device \<Rightarrow> snap_device \<Rightarrow> bool" where
  "same_place dev dev' \<longleftrightarrow> sd_base_dev dev' = sd_base_dev dev \<and> sd_size dev' = sd_size dev \<and> sd_sect_off dev' = sd_sect_off dev"

lemma pit_ok_cong:
  assumes k: "pit_ok X D0 s cm" and s': "s' = s\<lparr>pt_dev := dev, pt_heap := h\<rparr>" and sp: "same_place (pt_dev s) dev"
    and q: "sd_cow_bios dev = sd_cow_bios (pt_dev s)"
    and f: "set (flying dev h) = set (flying (pt_dev s) (pt_heap s))" "distinct (flying dev h)"
    and b: "\<And>c. c \<in> set (flying (pt_dev s) (pt_heap s)) \<union> set (sd_cow_bios (pt_dev s)) \<Longrightarrow> bios h c = bios (pt_heap s) c"
    and o: "\<And>c. c < fresh (pt_heap s) \<Longrightarrow> is_clone (bios h c) = is_clone (bios (pt_heap s) c) \<and>
        touched (sd_sect_off (pt_dev s)) (bios h c) = touched (sd_sect_off (pt_dev s)) (bios (pt_heap s) c)"
    and p: "tps h = tps (pt_heap s)" "pages_of h = pages_of (pt_heap s)" "fresh (pt_heap s) \<le> fresh h"
    and w: "\<And>c. c \<in> set (outgoing dev h) \<Longrightarrow> c \<in> set (outgoing (pt_dev s) (pt_heap s)) \<or>
        out_ok X (sd_sect_off (pt_dev s)) (covered s cm) (sd_cow_bios (pt_dev s)) h c"
  shows "pit_ok X D0 s' cm"
proof -
  have "captures (pages_of h) (bios h) (sd_cow_bios (pt_dev s)) = captures (pages_of (pt_heap s)) (bios (pt_heap s)) (sd_cow_bios (pt_dev s))"
    by (rule captures_cong) (use b p(2) in auto)
  then have c: "covered s' cm = covered s cm" using s' q by (simp add: covered_def)
  have t: "traffic_ok X D0 (sd_sect_off (pt_dev s)) (capacity cm) (pt_read s) (covered s cm) (set (flying (pt_dev s) (pt_heap s)))
       (sd_cow_bios (pt_dev s)) (set (outgoing (pt_dev s) (pt_heap s))) (pt_heap s)" using k by (simp add: pit_ok_def)
  have "traffic_ok X D0 (sd_sect_off (pt_dev s)) (capacity cm) (pt_read s) (covered s cm) (set (flying (pt_dev s) (pt_heap s)))
       (sd_cow_bios (pt_dev s)) (set (outgoing dev h)) h"
  proof (rule traffic_ok_cong[OF t b _ p(1,3)])
    note t = traffic_okD[OF t]
    show "is_clone (bios h c) = is_clone (bios (pt_heap s) c) \<and>
        touched (sd_sect_off (pt_dev s)) (bios h c) = touched (sd_sect_off (pt_dev s)) (bios (pt_heap s) c)"
      if "c \<in> set (outgoing (pt_dev s) (pt_heap s)) \<or> (\<exists>tp p. tps (pt_heap s) tp = Some p \<and> tp_orig_bio p = c)" for c
      by (rule o) (use that t(7,8) in \<open>auto simp: held_ok_def out_ok_def\<close>)
  qed (use w p(2) in auto)
  then show ?thesis using k s' sp q f c by (simp add: pit_ok_def same_place_def)
qed

lemma pit_okD:
  assumes "pit_ok X D0 s cm"
  shows "traffic_ok X D0 (sd_sect_off (pt_dev s)) (capacity cm) (pt_read s) (covered s cm) (set (flying (pt_dev s) (pt_heap s)))
      (sd_cow_bios (pt_dev s)) (set (outgoing (pt_dev s) (pt_heap s))) (pt_heap s)"
    "view_ok X D0 (pt_disk s) (covered s cm)" "snap_inv (pt_world s) cm" "pt_cow s = Some cm" "\<not> pt_failed s"
    "sd_size (pt_dev s) \<le> 8 * capacity cm" "distinct (flying (pt_dev s) (pt_heap s))" "sd_base_dev (pt_dev s) \<noteq> None"
  using assms unfolding pit_ok_def by blast+

lemma flying_clone: "pit_ok X D0 s cm \<Longrightarrow> c \<in> set (flying (pt_dev s) (pt_heap s)) \<Longrightarrow> is_clone (bios (pt_heap s) c) \<and> c < fresh (pt_heap s)"
  using traffic_okD(2)[OF pit_okD(1)] by (auto simp: flight_ok_def)

lemma outgoing_out: "pit_ok X D0 s cm \<Longrightarrow> c \<in> set (outgoing (pt_dev s) (pt_heap s)) \<Longrightarrow>
    \<not> is_clone (bios (pt_heap s) c) \<and> c < fresh (pt_heap s) \<and> c \<notin> set (sd_cow_bios (pt_dev s))"
  using traffic_okD(8)[OF pit_okD(1)] by (auto simp: out_ok_def)

lemma read_thread_ok:
  assumes "pit_ok X D0 s cm" "snap_read_thread (pt_dev s) (pt_heap s) = (dev, h)"
  shows "pit_ok X D0 (s\<lparr>pt_dev := dev, pt_heap := h\<rparr>) cm"
proof (cases "sd_read_bios (pt_dev s)")
  case Nil
  then have "s\<lparr>pt_dev := dev, pt_heap := h\<rparr> = s" using assms(2) by (cases s) (auto simp: snap_read_thread_def)
  then show ?thesis using assms(1) by simp
next
  case (Cons c rest)
  have d: "dev = (pt_dev s)\<lparr>sd_read_bios := rest\<rparr>" "h = submit_real c (pt_heap s)" using assms(2) Cons by (simp_all add: snap_read_thread_def)
  have c: "is_clone (bios (pt_heap s) c)" using flying_clone[OF assms(1), of c] Cons by (simp add: flying_def)
  show ?thesis
    by (rule pit_ok_cong[OF assms(1) refl]) (use pit_okD(7)[OF assms(1)] d c Cons in \<open>auto simp: same_place_def flying_def outgoing_def submit_real_def\<close>)
qed

lemma mrf_thread_ok:
  assumes "pit_ok X D0 s cm" "snap_mrf_thread (pt_dev s) (pt_heap s) = (dev, h)"
  shows "pit_ok X D0 (s\<lparr>pt_dev := dev, pt_heap := h\<rparr>) cm"
proof (cases "sd_orig_bios (pt_dev s)")
  case Nil
  then have "s\<lparr>pt_dev := dev, pt_heap := h\<rparr> = s" using assms(2) by (cases s) (auto simp: snap_mrf_thread_def)
  then show ?thesis using assms(1) by simp
next
  case (Cons w rest)
  let ?bs = "(bios (pt_heap s))(w := (bios (pt_heap s) w)\<lparr>bi_passthrough := True\<rparr>)"
  have d: "dev = (pt_dev s)\<lparr>sd_orig_bios := rest\<rparr>" "h = submit_real w ((pt_heap s)\<lparr>bios := ?bs\<rparr>)"
    using assms(2) Cons by (simp_all add: snap_mrf_thread_def)
  have w: "\<not> is_clone (bios (pt_heap s) w)" "w \<notin> set (sd_cow_bios (pt_dev s))" using outgoing_out[OF assms(1), of w] Cons by (simp_all add: outgoing_def)
  have e: "is_clone (bios h c) = is_clone (bios (pt_heap s) c)" for c by (simp add: d submit_real_def)
  have fl: "flying dev h = flying (pt_dev s) (pt_heap s)" using w(1) by (simp only: flying_def e) (simp add: d submit_real_def)
  have ou: "set (outgoing dev h) = set (outgoing (pt_dev s) (pt_heap s))"
    using w(1) Cons by (auto simp: outgoing_def d submit_real_def)
  have nf: "w \<notin> set (flying (pt_dev s) (pt_heap s))" using w(1) flying_clone[OF assms(1), of w] by blast
  show ?thesis
    by (rule pit_ok_cong[OF assms(1) refl]) (use pit_okD(7)[OF assms(1)] d fl ou w(2) nf in \<open>auto simp: same_place_def submit_real_def touched_def\<close>)
qed

lemma blk_of_same:
  assumes D: "\<And>a. D a \<noteq> D' a \<Longrightarrow> a div 4096 \<in> S" and b: "b \<notin> S"
  shows "blk_of D b = blk_of D' b"
proof
  fix i
  have "D (b * 4096 + i) = D' (b * 4096 + i)" if "i < 4096" using D[of "b * 4096 + i"] b that by auto
  then show "blk_of D b i = blk_of D' b i" by (simp add: blk_of_def block_of_def)
qed

lemma device_write_ok:
  assumes "pit_ok X D0 s cm" "w \<in> set (submitted (pt_heap s))" "\<not> is_clone (bios (pt_heap s) w)"
    and D: "\<And>a. D a \<noteq> pt_disk s a \<Longrightarrow> a div 4096 \<in> touched (sd_sect_off (pt_dev s)) (bios (pt_heap s) w)"
  shows "pit_ok X D0 (s\<lparr>pt_disk := D\<rparr>) cm"
proof -
  have o: "\<forall>b \<in> touched (sd_sect_off (pt_dev s)) (bios (pt_heap s) w). b \<in> X \<or> covered s cm b \<noteq> None"
    using traffic_okD(8)[OF pit_okD(1)[OF assms(1)], of w] assms(2,3) by (simp add: out_ok_def outgoing_def)
  have "blk_of D b = blk_of (pt_disk s) b" if "b \<notin> X" "covered s cm b = None" for b
    by (rule blk_of_same[OF D]) (use o that in auto)
  then have "view_ok X D0 D (covered s cm)" using pit_okD(2)[OF assms(1)] by (simp add: view_ok_iff)
  then show ?thesis using assms(1) by (simp add: pit_ok_def covered_def)
qed

lemma written_ok:
  assumes "pit_ok X D0 s cm" "\<not> is_clone (bios (pt_heap s) w)"
  shows "pit_ok X D0 (s\<lparr>pt_heap := (pt_heap s)\<lparr>submitted := remove1 w (submitted (pt_heap s))\<rparr>\<rparr>) cm"
proof -
  have f: "flying (pt_dev s) ((pt_heap s)\<lparr>submitted := remove1 w (submitted (pt_heap s))\<rparr>) = flying (pt_dev s) (pt_heap s)"
    using assms(2) by (simp add: flying_def filter_remove1 remove1_idem)
  show ?thesis
    by (rule pit_ok_cong[OF assms(1), where dev = "pt_dev s" and h = "(pt_heap s)\<lparr>submitted := remove1 w (submitted (pt_heap s))\<rparr>"])
      (use f pit_okD(7)[OF assms(1)] set_remove1_subset[of w "submitted (pt_heap s)"] in \<open>auto simp: same_place_def outgoing_def\<close>)
qed

subsection \<open>A read of the snapshot arrives\<close>

lemma traffic_ok_append:
  assumes t: "traffic_ok X D0 off n R M F Q W h" and r: "r \<notin> F \<union> set Q" "r \<notin> W" "queued_ok n h r"
    and o: "\<And>tp p. tps h tp = Some p \<Longrightarrow> tp_orig_bio p \<noteq> r"
    and d: "\<And>c. c \<in> F \<union> set Q \<Longrightarrow> bio_pages (bios h c) \<inter> bio_pages (bios h r) = {}"
  shows "traffic_ok X D0 off n R M F (Q @ [r]) W h"
proof -
  note t = traffic_okD[OF t]
  have "apart h F (Q @ [r])"
  proof (rule apartI)
    show "F \<inter> set (Q @ [r]) = {}" using t(6) r(1) by (auto simp: apart_def)
    show "bio_pages (bios h c) \<inter> bio_pages (bios h e) = {}"
      if "c \<in> F \<or> c \<in> set (Q @ [r]) \<and> bio_data_dir (bios h c)" "e \<in> F \<union> set (Q @ [r])" "c \<noteq> e" for c e
      using apartD[OF t(6), of c e] d[of c] d[of e] that by auto
  qed
  moreover have "held_ok X off M F (Q @ [r]) h tp p" if "tps h tp = Some p" for tp p
    using t(7)[OF that] o[OF that] unfolding held_ok_def by simp
  moreover have "out_ok X off M (Q @ [r]) h c" if "c \<in> W" for c
    using t(8)[OF that] that r(2) by (auto simp: out_ok_def)
  ultimately show ?thesis using t(1-5,9) r by (simp add: traffic_ok_def)
qed

lemma submitted_below: "pit_ok X D0 s cm \<Longrightarrow> c \<in> set (submitted (pt_heap s)) \<Longrightarrow> c < fresh (pt_heap s)"
  using flying_clone[of X D0 s cm c] outgoing_out[of X D0 s cm c] by (auto simp: flying_def outgoing_def)

lemma arrives_simps [simp]:
  "bios (arrives b f h) (fresh h) = b" "fresh (arrives b f h) = f" "tps (arrives b f h) = tps h" "pages_of (arrives b f h) = pages_of h"
  "submitted (arrives b f h) = submitted h" "bclock (arrives b f h) = bclock h" "c \<noteq> fresh h \<Longrightarrow> bios (arrives b f h) c = bios h c"
  by (simp_all add: arrives_def)

lemma arrives_lists:
  assumes "\<And>c. c \<in> set (submitted h) \<Longrightarrow> c < fresh h"
  shows "flying dev (arrives b f h) = flying dev h" "outgoing dev (arrives b f h) = outgoing dev h"
  using assms by (fastforce simp: flying_def outgoing_def arrives_def intro: filter_cong)+

lemma arrives_ok:
  assumes "pit_ok X D0 s cm" "fresh (pt_heap s) < f"
  shows "pit_ok X D0 (s\<lparr>pt_heap := arrives b f (pt_heap s)\<rparr>) cm"
proof -
  note l = arrives_lists[where h = "pt_heap s", OF submitted_below[OF assms(1)]]
  have q: "c \<in> set (sd_cow_bios (pt_dev s)) \<Longrightarrow> c < fresh (pt_heap s)" for c
    using traffic_okD(5)[OF pit_okD(1)[OF assms(1)], of c] by (simp add: queued_ok_def)
  have b: "c < fresh (pt_heap s) \<Longrightarrow> bios (arrives b f (pt_heap s)) c = bios (pt_heap s) c" for c by (simp add: arrives_def)
  have u: "bios (arrives b f (pt_heap s)) c = bios (pt_heap s) c"
    if "c \<in> set (flying (pt_dev s) (pt_heap s)) \<union> set (sd_cow_bios (pt_dev s))" for c
    using b[of c] q[of c] flying_clone[OF assms(1), of c] that by blast
  show ?thesis
    by (rule pit_ok_cong[OF assms(1) _ _ _ _ _ u, where dev = "pt_dev s"])
      (use l b pit_okD(7)[OF assms(1)] assms(2) in \<open>simp_all add: same_place_def\<close>)
qed

lemma endio_ok:
  assumes "pit_ok X D0 s cm"
  shows "pit_ok X D0 (s\<lparr>pt_heap := moocbt_bio_endio c e (pt_heap s)\<rparr>) cm"
proof -
  have "flying (pt_dev s) (moocbt_bio_endio c e (pt_heap s)) = flying (pt_dev s) (pt_heap s)"
    "outgoing (pt_dev s) (moocbt_bio_endio c e (pt_heap s)) = outgoing (pt_dev s) (pt_heap s)"
    by (simp_all add: flying_def outgoing_def moocbt_bio_endio_def)
  then show ?thesis using pit_okD(7)[OF assms]
    by (intro pit_ok_cong[OF assms, where dev = "pt_dev s" and h = "moocbt_bio_endio c e (pt_heap s)"])
      (simp_all add: same_place_def moocbt_bio_endio_def)
qed

lemma sectors_bytes: "512 dvd z \<Longrightarrow> x + z div 512 \<le> m \<Longrightarrow> m \<le> 8 * n \<Longrightarrow> x * 512 + z \<le> n * (4096 :: nat)"
  by (auto elim!: dvdE)

lemma snap_request_ok:
  assumes k: "pit_ok X D0 s cm" and f: "fresh (pt_heap s) < f" and b: "fresh_bio b" "bi_sector b + bi_size b div 512 \<le> sd_size (pt_dev s)"
    and pg: "bio_pages b \<subseteq> {..<f} - (\<Union>c \<in> set (flying (pt_dev s) (pt_heap s)) \<union> set (sd_cow_bios (pt_dev s)). bio_pages (bios (pt_heap s) c))"
    and m: "snap_mrf (fresh (pt_heap s)) (pt_dev s) (arrives b f (pt_heap s)) = (dev, h)"
  shows "pit_ok X D0 (s\<lparr>pt_dev := dev, pt_heap := h\<rparr>) cm"
proof -
  let ?r = "fresh (pt_heap s)" and ?h = "arrives b f (pt_heap s)"
  let ?s = "s\<lparr>pt_heap := ?h\<rparr>"
  note k1 = arrives_ok[OF k f, of b]
  from m consider (ended) e where "dev = pt_dev s" "h = moocbt_bio_endio ?r e ?h"
    | (queued) "\<not> bio_data_dir b" "dev = (pt_dev s)\<lparr>sd_cow_bios := sd_cow_bios (pt_dev s) @ [?r]\<rparr>" "h = ?h"
    unfolding snap_mrf_def arrives_simps by (metis prod.inject)
  then show ?thesis
  proof cases
    case ended
    have "s\<lparr>pt_dev := dev, pt_heap := h\<rparr> = ?s\<lparr>pt_heap := moocbt_bio_endio ?r e (pt_heap ?s)\<rparr>" using ended by (cases s) simp
    then show ?thesis using endio_ok[OF k1] by simp
  next
    case queued
    note t = pit_okD(1)[OF k1]
    have l: "flying (pt_dev s) ?h = flying (pt_dev s) (pt_heap s)" "outgoing (pt_dev s) ?h = outgoing (pt_dev s) (pt_heap s)"
      using arrives_lists[where h = "pt_heap s", OF submitted_below[OF k]] by auto
    note t0 = traffic_okD[OF pit_okD(1)[OF k]]
    have new: "?r \<notin> set (flying (pt_dev s) (pt_heap s)) \<union> set (sd_cow_bios (pt_dev s))" "?r \<notin> set (outgoing (pt_dev s) (pt_heap s))"
      using t0(2,5,8)[of ?r] by (auto simp: flight_ok_def queued_ok_def out_ok_def)
    have same: "bios ?h c = bios (pt_heap s) c" if "c \<in> set (flying (pt_dev s) (pt_heap s)) \<union> set (sd_cow_bios (pt_dev s))" for c
      using that new(1) by (auto simp: arrives_def)
    have "traffic_ok X D0 (sd_sect_off (pt_dev s)) (capacity cm) (pt_read s) (covered ?s cm) (set (flying (pt_dev s) ?h))
       (sd_cow_bios (pt_dev s) @ [?r]) (set (outgoing (pt_dev s) ?h)) ?h"
    proof (rule traffic_ok_append)
      show "queued_ok (capacity cm) ?h ?r"
        using f b(1) queued(1) pg sectors_bytes[OF fresh_bio_size[OF b(1)] b(2) pit_okD(6)[OF k]] by (auto simp: queued_ok_def arrives_def)
      show "tp_orig_bio p \<noteq> ?r" if "tps ?h tp = Some p" for tp p using t0(7)[of tp p] that by (auto simp: arrives_def held_ok_def)
      show "bio_pages (bios ?h c) \<inter> bio_pages (bios ?h ?r) = {}" if "c \<in> set (flying (pt_dev s) ?h) \<union> set (sd_cow_bios (pt_dev s))" for c
        using pg same[of c] that l by (auto simp: arrives_def)
    qed (use t new l in auto)
    moreover have "covered (s\<lparr>pt_dev := dev, pt_heap := h\<rparr>) cm = covered ?s cm" using queued by (simp add: covered_def arrives_def)
    moreover have "flying dev h = flying (pt_dev s) ?h" "outgoing dev h = outgoing (pt_dev s) ?h" using queued by (simp_all add: flying_def outgoing_def)
    ultimately show ?thesis using pit_okD[OF k1] queued by (simp add: pit_ok_def)
  qed
qed

end
