(* ===== verification/Pit_Read.thy ===== *)
theory Pit_Read
  imports Pit_Inv
begin

text \<open>
  The life of a read clone: the layer below fills it, and its completion puts it in the queue of the COW thread and lets go of the
  write it was made for.
\<close>

subsection \<open>The layer below reads a clone\<close>

lemma captured_fill:
  assumes "new_pages lo hi vs" "captured (fill_segs D vs (start * 4096) P) vs start b = Some v"
  shows "v = blk_of D b"
proof -
  have r: "start \<le> b" "b < start + length vs" using captured_dom[of "fill_segs D vs (start * 4096) P" vs start b] assms(2) by auto
  have "fill_segs D vs (start * 4096) P (bv_page (vs ! (b - start))) i = D (b * 4096 + i)" if "i < 4096" for i
  proof -
    have "start * 4096 + (b - start) * 4096 = b * 4096" using r(1) by (simp add: diff_mult_distrib)
    then show ?thesis using seg_addr_page[of vs "b - start" i "start * 4096"] assms(1) r that
      by (auto simp: fill_segs_def new_pages_def)
  qed
  then show ?thesis using assms(2) captured_nth[OF r, of "fill_segs D vs (start * 4096) P"]
    by (auto simp: blk_of_def block_of_def)
qed

lemma clone_at_unique: "clone_at h c s \<Longrightarrow> clone_at h c s' \<Longrightarrow> s = s'"
  by (auto simp: clone_at_def)

lemma traffic_ok_fill:
  assumes t: "traffic_ok X D0 off n R M F Q W h" and c: "c \<in> F" "c \<notin> R" and v: "view_ok X D0 D M"
    and h': "h' = h\<lparr>bios := (bios h)(c := (bios h c)\<lparr>bi_sector := sc, bi_size := sz, bi_idx := ix\<rparr>),
        pages_of := fill_segs D (bi_io_vec (bios h c)) ((bi_sector (bios h c) - off) * 512) (pages_of h)\<rparr>"
  shows "traffic_ok X D0 off n (insert c R) M F Q W h'"
proof -
  note t = traffic_okD[OF t]
  have b: "bios h' d = (if d = c then (bios h c)\<lparr>bi_sector := sc, bi_size := sz, bi_idx := ix\<rparr> else bios h d)" for d by (simp add: h')
  have ca: "clone_at h' d s = clone_at h d s" for d s by (simp add: clone_at_def h')
  have fr: "fresh h' = fresh h" by (simp add: h')
  have cl: "is_clone (bios h c)" using t(2)[OF c(1)] by (simp add: flight_ok_def)
  have nq: "c \<notin> set Q" using t(6) c(1) by (auto simp: apart_def)
  have pg: "pages_of h' pg = pages_of h pg" if "d \<in> F \<union> set Q" "d \<noteq> c" "pg \<in> bio_pages (bios h d)" for d pg
    using apartD[OF t(6), of c d] c(1) that fill_segs_other[of pg "bi_io_vec (bios h c)"] by (fastforce simp: h' bio_pages_def)
  have "flight_ok off n (insert c R) h' d" if "d \<in> F" for d
    using t(2)[OF that] unfolding flight_ok_def ca by (auto simp: b fr)
  moreover have "content_ok X D0 off M h' d" if "d \<in> F" "d \<in> insert c R" for d
  proof (cases "d = c")
    case False
    then have k: "content_ok X D0 off M h d" using t(3) that by blast
    have "captured (pages_of h') (bi_io_vec (bios h d)) = captured (pages_of h) (bi_io_vec (bios h d))"
      by (rule ext, rule captured_cong) (use pg[of d] that(1) False in \<open>auto simp: bio_pages_def\<close>)
    then show ?thesis using k False by (simp add: content_ok_def ca b)
  next
    case True
    from t(2)[OF c(1)] obtain s where s: "clone_at h c s" "bi_sector (bios h c) = s" "off \<le> s" "8 dvd (s - off)"
      and np: "new_pages 0 (fresh h) (bi_io_vec (bios h c))" using c(2) by (auto simp: flight_ok_def)
    have e: "(s - off) * 512 = (s - off) div 8 * 4096" using s(4) by (auto elim: dvdE)
    have "b \<in> X \<or> M b \<noteq> None \<or> v' = blk_of D0 b"
      if "captured (pages_of h') (bi_io_vec (bios h c)) ((s - off) div 8) b = Some v'" for b v'
    proof -
      have "v' = blk_of D b" using captured_fill[OF np, of D "(s - off) div 8" "pages_of h" b v'] that s(2) e by (simp add: h')
      then show ?thesis using v by (auto simp: view_ok_iff)
    qed
    then show ?thesis using clone_at_unique[OF s(1)] True by (auto simp: content_ok_def ca b)
  qed
  moreover have "queued_ok n h' d" if "d \<in> set Q" for d
    using t(5)[OF that] that nq by (auto simp: queued_ok_def h')
  moreover have "apart h' F Q"
  proof (rule apartI)
    have p: "bio_pages (bios h' d) = bio_pages (bios h d)" for d by (simp add: b bio_pages_def)
    show "F \<inter> set Q = {}" using t(6) by (simp add: apart_def)
    show "bio_pages (bios h' d) \<inter> bio_pages (bios h' e) = {}" if "d \<in> F \<or> d \<in> set Q \<and> bio_data_dir (bios h' d)" "e \<in> F \<union> set Q" "d \<noteq> e" for d e
    proof -
      have "d \<in> F \<or> d \<in> set Q \<and> bio_data_dir (bios h d)" using that(1) nq b[of d] by (auto split: if_splits)
      then show ?thesis unfolding p by (rule apartD[OF t(6) _ that(2,3)])
    qed
  qed
  moreover have "held_ok X off M F Q h' tp p" if "tps h' tp = Some p" for tp p
  proof -
    have k: "held_ok X off M F Q h tp p" using t(7)[of tp p] that by (simp add: h')
    have e: "bi_private (bios h' d) = bi_private (bios h d)" "bi_io_vec (bios h' d) = bi_io_vec (bios h d)" for d by (simp_all add: b)
    have "tp_orig_bio p \<noteq> c" using k cl by (auto simp: held_ok_def)
    then have o: "bios h' (tp_orig_bio p) = bios h (tp_orig_bio p)" by (simp add: b)
    show ?thesis using k unfolding held_ok_def clone_covers_def e o ca by (simp add: h')
  qed
  moreover have "out_ok X off M Q h' d" if "d \<in> W" for d
    using t(8)[OF that] cl b[of d] by (auto simp: out_ok_def h')
  moreover have "insert c R \<subseteq> {..<fresh h'}" using t(2)[OF c(1)] t(9) fr by (simp add: flight_ok_def)
  ultimately show ?thesis using t(1,4) by (simp add: traffic_ok_def)
qed

lemma device_read_ok:
  assumes k: "pit_ok X D0 s cm" and c: "c \<in> set (submitted (pt_heap s))" "is_clone (bios (pt_heap s) c)" "c \<notin> pt_read s"
    and h: "h = (pt_heap s)\<lparr>bios := (bios (pt_heap s))(c := (bios (pt_heap s) c)\<lparr>bi_sector := sc, bi_size := sz, bi_idx := ix\<rparr>),
        pages_of := fill_segs (pt_disk s) (bi_io_vec (bios (pt_heap s) c)) ((bi_sector (bios (pt_heap s) c) - sd_sect_off (pt_dev s)) * 512) (pages_of (pt_heap s))\<rparr>"
  shows "pit_ok X D0 (s\<lparr>pt_heap := h, pt_read := insert c (pt_read s)\<rparr>) cm"
proof -
  have cf: "c \<in> set (flying (pt_dev s) (pt_heap s))" using c by (simp add: flying_def)
  have e: "is_clone (bios h d) = is_clone (bios (pt_heap s) d)" for d by (simp add: h)
  have l: "flying (pt_dev s) h = flying (pt_dev s) (pt_heap s)" "outgoing (pt_dev s) h = outgoing (pt_dev s) (pt_heap s)"
    by (simp_all only: flying_def outgoing_def e) (simp_all add: h)
  note t = traffic_okD[OF pit_okD(1)[OF k]]
  have nq: "c \<notin> set (sd_cow_bios (pt_dev s))" using t(6) cf by (auto simp: apart_def)
  have "captures (pages_of h) (bios h) (sd_cow_bios (pt_dev s)) = captures (pages_of (pt_heap s)) (bios (pt_heap s)) (sd_cow_bios (pt_dev s))"
  proof (rule captures_cong)
    show "bios h d = bios (pt_heap s) d" if "d \<in> set (sd_cow_bios (pt_dev s))" for d using that nq by (auto simp: h)
    show "pages_of h pg = pages_of (pt_heap s) pg"
      if "d \<in> set (sd_cow_bios (pt_dev s))" "pg \<in> bio_pages (bios (pt_heap s) d)" for d pg
      using apartD[OF t(6), of c d] cf nq that fill_segs_other[of pg "bi_io_vec (bios (pt_heap s) c)"] by (fastforce simp: h bio_pages_def)
  qed
  then have cov: "covered (s\<lparr>pt_heap := h, pt_read := insert c (pt_read s)\<rparr>) cm = covered s cm" by (simp add: covered_def)
  show ?thesis using traffic_ok_fill[OF pit_okD(1)[OF k] cf c(3) pit_okD(2)[OF k] h] k l cov by (simp add: pit_ok_def)
qed

subsection \<open>A clone completes\<close>

text \<open>The clone as a captured write, and the memory once it has let go of its parameters \<open>p\<close>.\<close>

definition as_write :: "nat \<Rightarrow> nat \<Rightarrow> nat \<Rightarrow> bio \<Rightarrow> bio" where
  "as_write off minor s b = b\<lparr>bi_op := REQ_OP_WRITE, bi_passthrough := False, bi_end_io := 0, bi_sector := s - off,
     bi_size := vec_bytes (bi_io_vec b), bi_idx := 0, bi_private := minor\<rparr>"

definition dropped :: "tracing_params \<Rightarrow> tracing_params option" where
  "dropped p = (if tp_refs p = 1 then None else Some (p\<lparr>tp_refs := tp_refs p - 1\<rparr>))"

definition released_by :: "tracing_params \<Rightarrow> addr list" where
  "released_by p = (if tp_refs p = 1 then [tp_orig_bio p] else [])"

lemma on_bio_read_complete_ok:
  assumes "on_bio_read_complete c 0 dev h = Some (dev', h')" "clone_at h c s"
  obtains p where "tps h (bi_private (bios h c)) = Some p" "find_sect c (tp_bio_sects p) = Some (s, vec_bytes (bi_io_vec (bios h c)))"
    "h' = h\<lparr>bios := (bios h)(c := as_write (sd_sect_off dev) (sd_minor dev) s (bios h c)), tps := (tps h)(bi_private (bios h c) := dropped p)\<rparr>"
    "dev' = dev\<lparr>sd_cow_bios := sd_cow_bios dev @ [c], sd_received_cnt := sd_received_cnt dev + 1, sd_orig_bios := sd_orig_bios dev @ released_by p\<rparr>"
proof -
  from assms(2) obtain p where p: "tps h (bi_private (bios h c)) = Some p"
    "find_sect c (tp_bio_sects p) = Some (s, vec_bytes (bi_io_vec (bios h c)))" by (auto simp: clone_at_def)
  show thesis
    by (rule that[OF p]) (use assms(1) p in \<open>auto simp: on_bio_read_complete_def tp_put_def as_write_def dropped_def released_by_def Let_def split: if_splits\<close>)
qed

text \<open>Once a clone is done its parameters lose one reference and the others keep theirs.\<close>

lemma card_without: "finite F \<Longrightarrow> c \<in> F \<Longrightarrow> card {d \<in> F - {c}. g d = t} = card {d \<in> F. g d = t} - (if g c = t then 1 else 0)"
proof -
  assume f: "finite F" "c \<in> F"
  have "{d \<in> F - {c}. g d = t} = {d \<in> F. g d = t} - {c}" by auto
  then show ?thesis using f by (simp add: card_Diff_singleton_if)
qed

lemma capture_of_as_write:
  "off \<le> s \<Longrightarrow> capture_of P (as_write off minor s b) = captured P (bi_io_vec b) ((s - off) div 8)"
  by (simp add: capture_of_def as_write_def SECTOR_TO_BLOCK_def)

text \<open>
  The completion as a change of the memory: clone \<open>c\<close>, made at sector \<open>s\<close> under parameters \<open>p\<close>, becomes a captured write and lets go
  of \<open>p\<close>.
\<close>

definition completes :: "nat \<Rightarrow> nat \<Rightarrow> nat \<Rightarrow> tracing_params \<Rightarrow> addr \<Rightarrow> bheap \<Rightarrow> bheap \<Rightarrow> bool" where
  "completes off minor s p c h h' \<longleftrightarrow> clone_at h c s \<and> tps h (bi_private (bios h c)) = Some p \<and>
     bios h' = (bios h)(c := as_write off minor s (bios h c)) \<and> tps h' = (tps h)(bi_private (bios h c) := dropped p) \<and>
     pages_of h' = pages_of h \<and> fresh h' = fresh h"

lemma completes_only:
  assumes t: "traffic_ok X D0 off n R M F Q W h" and c: "c \<in> F" and k: "completes off minor s p c h h'"
    and d: "tp_refs p = 1" "d \<in> F" "bi_private (bios h d) = bi_private (bios h c)"
  shows "d = c"
proof -
  have "held_ok X off M F Q h (bi_private (bios h c)) p" using traffic_okD(7)[OF t] k by (simp add: completes_def)
  then have "card {d \<in> F. bi_private (bios h d) = bi_private (bios h c)} = 1" using d(1) by (simp add: held_ok_def)
  then obtain e where "{d \<in> F. bi_private (bios h d) = bi_private (bios h c)} = {e}" by (auto simp: card_1_singleton_iff)
  then have "d = e" "c = e" using d(2,3) c by auto
  then show ?thesis by simp
qed

lemma completes_clone_at:
  assumes "traffic_ok X D0 off n R M F Q W h" "c \<in> F" "completes off minor s p c h h'" "d \<in> F - {c}"
  shows "clone_at h' d s' = clone_at h d s'" "clone_covers off h' d blk = clone_covers off h d blk"
proof -
  have "clone_at h' d s' = clone_at h d s'" for s'
  proof (cases "bi_private (bios h d) = bi_private (bios h c)")
    case True
    then have "dropped p = Some (p\<lparr>tp_refs := tp_refs p - 1\<rparr>)" using completes_only[OF assms(1-3), of d] assms(4) by (auto simp: dropped_def)
    then show ?thesis using True assms(3,4) by (auto simp: clone_at_def completes_def)
  qed (use assms(3,4) in \<open>auto simp: clone_at_def completes_def\<close>)
  then show "clone_at h' d s' = clone_at h d s'" "clone_covers off h' d blk = clone_covers off h d blk"
    using assms(3,4) by (auto simp: clone_covers_def completes_def)
qed

text \<open>The blocks of the clone have a copy now, so whatever was covered by it still is.\<close>

lemma completes_covered:
  assumes t: "traffic_ok X D0 off n R M F Q W h" and c: "c \<in> F" and k: "completes off minor s p c h h'"
    and M': "M' = capture_of (pages_of h) (as_write off minor s (bios h c)) ++ M" and b: "M blk \<noteq> None \<or> clone_covers off h c blk"
  shows "M' blk \<noteq> None"
proof -
  have at: "clone_at h c s" using k by (simp add: completes_def)
  have "off \<le> s" using traffic_okD(2)[OF t c] clone_at_unique[OF at] by (auto simp: flight_ok_def)
  then have "M' blk = (case M blk of None \<Rightarrow> captured (pages_of h) (bi_io_vec (bios h c)) ((s - off) div 8) blk | Some v \<Rightarrow> Some v)"
    using capture_of_as_write[of off s "pages_of h" minor "bios h c"] by (simp add: M' map_add_def)
  moreover have "clone_covers off h c blk \<Longrightarrow> captured (pages_of h) (bi_io_vec (bios h c)) ((s - off) div 8) blk \<noteq> None"
    using clone_at_unique[OF at] captured_dom[of "pages_of h" "bi_io_vec (bios h c)" "(s - off) div 8" blk] by (auto simp: clone_covers_def)
  ultimately show ?thesis using b by (auto split: option.splits)
qed

lemma completes_held:
  assumes t: "traffic_ok X D0 off n R M F Q W h" and c: "c \<in> F" and k: "completes off minor s p c h h'"
    and M': "M' = capture_of (pages_of h) (as_write off minor s (bios h c)) ++ M" and tq: "tps h' tp = Some q"
  shows "held_ok X off M' (F - {c}) (Q @ [c]) h' tp q"
proof -
  let ?tp = "bi_private (bios h c)"
  note h' = k[unfolded completes_def] and inM = completes_covered[OF t c k M'] and ca = completes_clone_at[OF t c k]
  obtain q0 where q0: "tps h tp = Some q0" "tp_orig_bio q = tp_orig_bio q0" "tp_refs q = tp_refs q0 - (if ?tp = tp then 1 else 0)" "0 < tp_refs q \<or> tp_refs q0 < 1"
    using tq h' traffic_okD(7)[OF t, of ?tp p] by (cases "tp = ?tp") (auto simp: dropped_def held_ok_def dest: traffic_okD(7)[OF t] split: if_splits)
  have ho: "held_ok X off M F Q h tp q0" by (rule traffic_okD(7)[OF t q0(1)])
  have cl: "is_clone (bios h c)" using traffic_okD(2)[OF t c] by (simp add: flight_ok_def)
  then have no: "tp_orig_bio q \<noteq> c" "\<not> is_clone (bios h (tp_orig_bio q))" using ho q0(2) by (auto simp: held_ok_def)
  have "?tp = tp \<Longrightarrow> 0 < card {d \<in> F. bi_private (bios h d) = tp}" using traffic_okD(1)[OF t] c by (auto simp: card_gt_0_iff)
  then have "tp_refs q = int (card {d \<in> F - {c}. bi_private (bios h d) = tp})"
    using card_without[OF traffic_okD(1)[OF t] c, of "\<lambda>d. bi_private (bios h d)" tp] ho q0(3) by (auto simp: held_ok_def)
  moreover have "{d \<in> F - {c}. bi_private (bios h' d) = tp} = {d \<in> F - {c}. bi_private (bios h d) = tp}" using h' by auto
  moreover have "blk \<in> X \<or> M' blk \<noteq> None \<or> (\<exists>d \<in> F - {c}. bi_private (bios h' d) = tp \<and> clone_covers off h' d blk)"
    if "blk \<in> touched off (bios h (tp_orig_bio q))" for blk
  proof -
    from ho that q0(2) consider "blk \<in> X \<or> M blk \<noteq> None" | d where "d \<in> F" "bi_private (bios h d) = tp" "clone_covers off h d blk"
      unfolding held_ok_def by metis
    then show ?thesis
    proof cases
      case (2 d)
      then show ?thesis using inM[of blk] ca(2)[of d blk] h' by (cases "d = c") auto
    qed (use inM in blast)
  qed
  ultimately show ?thesis using ho no q0 h' by (auto simp: held_ok_def)
qed

lemma completes_released:
  assumes t: "traffic_ok X D0 off n R M F Q W h" and c: "c \<in> F" and k: "completes off minor s p c h h'"
    and M': "M' = capture_of (pages_of h) (as_write off minor s (bios h c)) ++ M" and d: "d \<in> W \<union> set (released_by p)"
  shows "out_ok X off M' (Q @ [c]) h' d"
proof -
  note h' = k[unfolded completes_def] and inM = completes_covered[OF t c k M']
  have cl: "is_clone (bios h c)" using traffic_okD(2)[OF t c] by (simp add: flight_ok_def)
  have "d < fresh h \<and> \<not> is_clone (bios h d) \<and> d \<notin> set Q \<and> (\<forall>blk \<in> touched off (bios h d). blk \<in> X \<or> M blk \<noteq> None \<or> clone_covers off h c blk)"
  proof (cases "d \<in> W")
    case False
    then have r: "d = tp_orig_bio p" "tp_refs p = 1" using d by (auto simp: released_by_def split: if_splits)
    have "held_ok X off M F Q h (bi_private (bios h c)) p" by (rule traffic_okD(7)[OF t]) (use h' in blast)
    then show ?thesis using completes_only[OF t c k r(2)] r(1) unfolding held_ok_def by metis
  qed (use traffic_okD(8)[OF t] in \<open>auto simp: out_ok_def\<close>)
  moreover have "d \<noteq> c" using calculation cl by auto
  ultimately show ?thesis using inM h' by (auto simp: out_ok_def)
qed

lemma traffic_ok_complete:
  assumes t: "traffic_ok X D0 off n R M F Q W h" and c: "c \<in> F" and k: "completes off minor s p c h h'"
    and M': "M' = capture_of (pages_of h) (as_write off minor s (bios h c)) ++ M"
  shows "traffic_ok X D0 off n R M' (F - {c}) (Q @ [c]) (W \<union> set (released_by p)) h'"
proof -
  note tr = traffic_okD[OF t] and h' = k[unfolded completes_def] and ca = completes_clone_at[OF t c k]
  have b: "bios h' d = (if d = c then as_write off minor s (bios h c) else bios h d)" for d using h' by simp
  have nq: "c \<notin> set Q" using tr(6) c by (auto simp: apart_def)
  have grow: "M blk \<noteq> None \<Longrightarrow> M' blk \<noteq> None" for blk using completes_covered[OF t c k M'] by blast
  have "flight_ok off n R h' d" if "d \<in> F - {c}" for d
    using tr(2)[of d] that ca(1)[OF that] h' by (auto simp: flight_ok_def b)
  moreover have "content_ok X D0 off M' h' d" if "d \<in> F - {c}" "d \<in> R" for d
  proof -
    have "content_ok X D0 off M h d" using tr(3) that by blast
    moreover have "bios h' d = bios h d" "pages_of h' = pages_of h" using that(1) h' by (simp_all add: b)
    ultimately show ?thesis using grow unfolding content_ok_def ca(1)[OF that(1)] by metis
  qed
  moreover have "queued_ok n h' d" if "d \<in> set (Q @ [c])" for d
  proof (cases "d = c")
    case True
    obtain s1 where s1: "clone_at h c s1" "8 dvd (s1 - off)" "(s1 - off) div 8 + length (bi_io_vec (bios h c)) \<le> n"
      and np: "c < fresh h" "new_pages 0 (fresh h) (bi_io_vec (bios h c))" using tr(2)[OF c] unfolding flight_ok_def by blast
    have "s1 = s" using clone_at_unique[OF s1(1)] h' by blast
    then show ?thesis using s1(2,3) np True h' by (simp add: queued_ok_def as_write_def bio_data_dir_def)
  qed (use tr(5)[of d] that h' in \<open>auto simp: queued_ok_def\<close>)
  moreover have "apart h' (F - {c}) (Q @ [c])"
  proof (rule apartI)
    have pg: "bio_pages (bios h' d) = bio_pages (bios h d)" for d by (simp add: b bio_pages_def as_write_def)
    show "(F - {c}) \<inter> set (Q @ [c]) = {}" using tr(6) by (auto simp: apart_def)
    show "bio_pages (bios h' d) \<inter> bio_pages (bios h' e) = {}"
      if "d \<in> F - {c} \<or> d \<in> set (Q @ [c]) \<and> bio_data_dir (bios h' d)" "e \<in> F - {c} \<union> set (Q @ [c])" "d \<noteq> e" for d e
    proof -
      have "d \<in> F \<or> d \<in> set Q \<and> bio_data_dir (bios h d)" using that(1) b[of d] c by (auto split: if_splits)
      then show ?thesis unfolding pg using apartD[OF tr(6), of d e] that(2,3) c by auto
    qed
  qed
  ultimately show ?thesis
    using tr(1,4,9) nq completes_held[OF t c k M'] completes_released[OF t c k M'] h' by (simp add: traffic_ok_def)
qed

lemma view_ok_capture:
  assumes "view_ok X D0 D M" "content_ok X D0 off M h c" "clone_at h c s" "off \<le> s"
  shows "view_ok X D0 D (capture_of (pages_of h) (as_write off minor s (bios h c)) ++ M)"
  using assms unfolding view_ok_iff content_ok_def capture_of_as_write[OF assms(4)] by (auto simp: map_add_Some_iff; metis option.distinct(1))

lemma complete_lists:
  assumes "distinct (flying dev h)" "c \<in> set (submitted h)" "is_clone (bios h c)"
    and h': "submitted h' = remove1 c (submitted h)" "bios h' = (bios h)(c := b)" "\<not> is_clone b"
    and dev': "sd_read_bios dev' = sd_read_bios dev" "sd_orig_bios dev' = sd_orig_bios dev @ os"
  shows "set (flying dev' h') = set (flying dev h) - {c}" "distinct (flying dev' h')" "set (outgoing dev' h') = set (outgoing dev h) \<union> set os"
proof -
  let ?S = "filter (\<lambda>d. is_clone (bios h d)) (submitted h)"
  have cs: "c \<in> set ?S" "distinct ?S" "c \<notin> set (sd_read_bios dev)" using assms(1-3) by (auto simp: flying_def)
  have "c \<notin> set (filter (\<lambda>d. is_clone (bios h d)) (remove1 c (submitted h)))" using cs(2) assms(3) by (simp add: filter_remove1)
  then have nc: "c \<notin> set (remove1 c (submitted h))" using assms(3) by simp
  have e: "filter (\<lambda>d. is_clone (bios h' d)) (remove1 c (submitted h)) = remove1 c ?S"
    using nc assms(3) by (subst filter_remove1[symmetric]) (auto simp: h' intro: filter_cong)
  have fl: "flying dev' h' = sd_read_bios dev @ remove1 c ?S" by (simp only: flying_def dev' h'(1) e)
  show "set (flying dev' h') = set (flying dev h) - {c}" unfolding fl using cs by (auto simp: flying_def)
  show "distinct (flying dev' h')" unfolding fl using assms(1) set_remove1_subset[of c ?S] by (auto simp: flying_def)
  have "set (filter (\<lambda>d. \<not> is_clone (bios h' d)) (remove1 c (submitted h))) = set (filter (\<lambda>d. \<not> is_clone (bios h d)) (submitted h))"
    using nc assms(3) by (auto simp: h' dest: subsetD[OF set_remove1_subset])
  then show "set (outgoing dev' h') = set (outgoing dev h) \<union> set os" 
    by (simp only: outgoing_def dev' h'(1) set_append) auto
qed

lemma complete_ok:
  assumes k: "pit_ok X D0 s cm" and c: "c \<in> set (submitted (pt_heap s))" "is_clone (bios (pt_heap s) c)" "c \<in> pt_read s"
    and d: "on_bio_read_complete c 0 (pt_dev s) ((pt_heap s)\<lparr>submitted := remove1 c (submitted (pt_heap s))\<rparr>) = Some (dev, h)"
  shows "pit_ok X D0 (s\<lparr>pt_dev := dev, pt_heap := h\<rparr>) cm"
proof -
  let ?dev = "pt_dev s" and ?h = "pt_heap s" and ?h1 = "(pt_heap s)\<lparr>submitted := remove1 c (submitted (pt_heap s))\<rparr>"
  note t = traffic_okD[OF pit_okD(1)[OF k]]
  have cf: "c \<in> set (flying ?dev ?h)" using c by (simp add: flying_def)
  from t(2)[OF cf] obtain sc where at: "clone_at ?h c sc" "sd_sect_off ?dev \<le> sc" by (auto simp: flight_ok_def)
  then have at1: "clone_at ?h1 c sc" by (simp add: clone_at_def)
  let ?b = "as_write (sd_sect_off ?dev) (sd_minor ?dev) sc (bios ?h c)"
  from on_bio_read_complete_ok[OF d at1] obtain p where p: "tps ?h (bi_private (bios ?h c)) = Some p"
    and h: "h = ?h\<lparr>submitted := remove1 c (submitted ?h), bios := (bios ?h)(c := ?b), tps := (tps ?h)(bi_private (bios ?h c) := dropped p)\<rparr>"
    and dv: "dev = ?dev\<lparr>sd_cow_bios := sd_cow_bios ?dev @ [c], sd_received_cnt := sd_received_cnt ?dev + 1, sd_orig_bios := sd_orig_bios ?dev @ released_by p\<rparr>"
    by auto
  have nq: "c \<notin> set (sd_cow_bios ?dev)" using t(6) cf by (auto simp: apart_def)
  let ?M = "capture_of (pages_of ?h) ?b ++ covered s cm"
  have "captures (pages_of h) (bios h) (sd_cow_bios ?dev) = captures (pages_of ?h) (bios ?h) (sd_cow_bios ?dev)"
    by (rule captures_cong) (use nq h in auto)
  then have cov: "covered (s\<lparr>pt_dev := dev, pt_heap := h\<rparr>) cm = ?M"
    using dv by (simp add: covered_def h) (simp add: as_write_def bio_data_dir_def)
  have l: "set (flying dev h) = set (flying ?dev ?h) - {c}" "distinct (flying dev h)" "set (outgoing dev h) = set (outgoing ?dev ?h) \<union> set (released_by p)"
    by (rule complete_lists[OF pit_okD(7)[OF k] c(1,2), where b = ?b]; simp add: h dv as_write_def)+
  have "traffic_ok X D0 (sd_sect_off ?dev) (capacity cm) (pt_read s) ?M (set (flying ?dev ?h) - {c}) (sd_cow_bios ?dev @ [c])
      (set (outgoing ?dev ?h) \<union> set (released_by p)) h"
    by (rule traffic_ok_complete[OF pit_okD(1)[OF k] cf _ refl]) (use at(1) p h in \<open>simp add: completes_def\<close>)
  moreover have "view_ok X D0 (pt_disk s) ?M" by (rule view_ok_capture[OF pit_okD(2)[OF k] t(3)[OF cf c(3)] at])
  ultimately show ?thesis using pit_okD[OF k] l cov by (simp add: pit_ok_def dv)
qed

end
