(* ===== verification/Pit_Turn.thy ===== *)
theory Pit_Turn
  imports Pit_Read
begin

text \<open>
  A turn of the COW thread: the capture it takes from the queue moves into the saved blocks, and a read it takes sees every
  capture of its blocks saved.
\<close>

subsection \<open>Taking a bio from the queue\<close>

lemma delay_dequeue_set: "delay_dequeue bs xs = (t, ys) \<Longrightarrow> xs \<noteq> [] \<Longrightarrow> distinct xs \<Longrightarrow> set xs = insert t (set ys) \<and> t \<notin> set ys \<and> distinct ys"
  by (erule delay_dequeue_cases) auto

text \<open>Two captures that share no block save different blocks.\<close>

lemma capture_of_dom:
  assumes "queued_ok n h c" "bio_data_dir (bios h c)"
  shows "dom (capture_of P (bios h c)) = {b. bi_sector (bios h c) \<le> 8 * b \<and> 8 * b < bi_sector (bios h c) + bi_size (bios h c) div 512}"
proof -
  let ?l = "length (bi_io_vec (bios h c))"
  have "bi_size (bios h c) = ?l * 4096" "8 dvd bi_sector (bios h c)" using assms new_pages_bytes by (auto simp: queued_ok_def)
  then obtain m where m: "bi_sector (bios h c) = 8 * m" "bi_size (bios h c) div 512 = 8 * ?l" by (auto elim: dvdE)
  have "dom (capture_of P (bios h c)) = {b. m \<le> b \<and> b < m + ?l}"
    using captured_dom[of P "bi_io_vec (bios h c)" m] m by (auto simp: capture_of_def SECTOR_TO_BLOCK_def dom_def)
  then show ?thesis using m by auto
qed

lemma apart_captures:
  assumes "queued_ok n h c" "bio_data_dir (bios h c)" "queued_ok n h d" "bio_data_dir (bios h d)" "\<not> shares_block (bios h c) (bios h d)"
  shows "dom (capture_of P (bios h c)) \<inter> dom (capture_of P (bios h d)) = {}"
  using assms(5) unfolding capture_of_dom[OF assms(1,2)] capture_of_dom[OF assms(3,4)] shares_block_def by auto

lemma dequeue_write_covers:
  assumes d: "delay_dequeue (bios h) xs = (t, ys)" "xs \<noteq> []" "distinct xs" "bio_data_dir (bios h t)"
    and q: "\<forall>c \<in> set xs. queued_ok n h c" and o: "in_order (bios h) xs"
  shows "protect (captures P (bios h) xs) sv = protect (captures P (bios h) ys) (capture_of P (bios h t) ++ sv)"
  using d(1,2)
proof (cases rule: delay_dequeue_cases)
  case (overtake r us vs)
  have tw: "takeWhile (\<lambda>u. u \<noteq> t) xs = r # us" using overtake(1) d(3) by (auto simp: takeWhile_append)
  have "dom u \<inter> dom (capture_of P (bios h t)) = {}" if "u \<in> set (captures P (bios h) us)" for u
  proof -
    from that obtain c where c: "c \<in> set us" "bio_data_dir (bios h c)" "u = capture_of P (bios h c)" by (auto simp: captures_def)
    have "\<not> shares_block (bios h c) (bios h t)"
      using o tw d(1,4) c by (auto simp: in_order_def list_all_iff)
    then show ?thesis using apart_captures[of n h c t P] q c overtake(1) d(4) by simp
  qed
  then show ?thesis using overtake protect_overtake[of "captures P (bios h) us" "capture_of P (bios h t)" "captures P (bios h) vs" sv] by simp
qed (use d(4) in auto)

lemma traffic_ok_dequeue:
  assumes t: "traffic_ok X D0 off n R M F Q W h" and q: "set ys \<subseteq> set Q" "distinct ys"
  shows "traffic_ok X D0 off n R M F ys W h"
proof -
  note t = traffic_okD[OF t]
  have "apart h F ys"
  proof (rule apartI)
    show "F \<inter> set ys = {}" using t(6) q(1) by (auto simp: apart_def)
    show "bio_pages (bios h c) \<inter> bio_pages (bios h d) = {}" if "c \<in> F \<or> c \<in> set ys \<and> bio_data_dir (bios h c)" "d \<in> F \<union> set ys" "c \<noteq> d" for c d
      by (rule apartD[OF t(6)]) (use that q(1) in auto)
  qed
  moreover have "held_ok X off M F ys h tp p" if "tps h tp = Some p" for tp p
    using t(7)[OF that] q(1) unfolding held_ok_def by blast
  ultimately show ?thesis using t q unfolding traffic_ok_def by (auto simp: out_ok_def)
qed

subsection \<open>The turn\<close>

text \<open>A captured write leaves the queue and its blocks are saved.\<close>

lemma turn_write_ok:
  assumes K: "kernel_ok K" and k: "pit_ok X D0 s cm" and d: "delay_dequeue (bios (pt_heap s)) (sd_cow_bios (pt_dev s)) = (t, ys)"
    and ne: "sd_cow_bios (pt_dev s) \<noteq> []" and w: "bio_data_dir (bios (pt_heap s) t)"
  obtains ret w' cm' where "snap_handle_write_bio K (bios (pt_heap s) t) (pages_of (pt_heap s)) (pt_world s) cm = Some (ret, w', cm')"
    "ret = 0 \<Longrightarrow> in_order (bios (pt_heap s)) (sd_cow_bios (pt_dev s)) \<Longrightarrow>
      pit_ok X D0 (s\<lparr>pt_dev := (pt_dev s)\<lparr>sd_cow_bios := ys\<rparr>, pt_heap := bio_free_clone t (pt_heap s), pt_world := w', pt_cow := Some cm'\<rparr>) cm'"
proof -
  let ?h = "pt_heap s" and ?Q = "sd_cow_bios (pt_dev s)"
  note t = traffic_okD[OF pit_okD(1)[OF k]]
  have ys: "set ?Q = insert t (set ys)" "distinct ys" using delay_dequeue_set[OF d ne t(4)] by auto
  have q: "queued_ok (capacity cm) ?h t" by (rule t(5)) (simp add: ys(1))
  then have v: "\<forall>v \<in> set (bi_io_vec (bios ?h t)). bv_len v = 4096" "bi_sector (bios ?h t) div 8 + length (bi_io_vec (bios ?h t)) \<le> capacity cm"
    using w by (auto simp: queued_ok_def new_pages_def)
  obtain ret w' cm' where hw: "snap_handle_write_bio K (bios ?h t) (pages_of ?h) (pt_world s) cm = Some (ret, w', cm')" "capacity cm' = capacity cm"
    "ret = 0 \<longrightarrow> snap_inv w' cm' \<and> cow_saved w' cm' = capture_of (pages_of ?h) (bios ?h t) ++ cow_saved (pt_world s) cm"
    using write_bio_bvecs_ok[OF K pit_okD(3)[OF k] v(1), of "SECTOR_TO_BLOCK (bi_sector (bios ?h t))" "pages_of ?h"] v(2)
    by (auto simp: snap_handle_write_bio_def capture_of_def SECTOR_TO_BLOCK_def)
  show thesis
  proof (rule that[OF hw(1)])
    let ?s = "s\<lparr>pt_dev := (pt_dev s)\<lparr>sd_cow_bios := ys\<rparr>, pt_heap := bio_free_clone t ?h, pt_world := w', pt_cow := Some cm'\<rparr>"
    assume r: "ret = 0" and o: "in_order (bios ?h) ?Q"
    have cov: "covered ?s cm' = covered s cm"
      using hw(3) r dequeue_write_covers[OF d ne t(4) w ballI[OF t(5)] o] by (simp add: covered_def bio_free_clone_def)
    have l: "flying ((pt_dev s)\<lparr>sd_cow_bios := ys\<rparr>) (bio_free_clone t ?h) = flying (pt_dev s) ?h"
      "outgoing ((pt_dev s)\<lparr>sd_cow_bios := ys\<rparr>) (bio_free_clone t ?h) = outgoing (pt_dev s) ?h"
      by (simp_all add: flying_def outgoing_def bio_free_clone_def)
    have "traffic_ok X D0 (sd_sect_off (pt_dev s)) (capacity cm) (pt_read s) (covered s cm) (set (flying (pt_dev s) ?h)) ys
        (set (outgoing (pt_dev s) ?h)) (bio_free_clone t ?h)"
      by (rule traffic_ok_cong[OF traffic_ok_dequeue[OF pit_okD(1)[OF k], of ys]]) (use ys in \<open>auto simp: bio_free_clone_def\<close>)
    then show "pit_ok X D0 ?s cm'" using pit_okD[OF k] hw(2,3) r cov l by (simp add: pit_ok_def)
  qed
qed

text \<open>A read that leaves the queue sees the original content, because no capture of its blocks is queued any more.\<close>

lemma next_block: "8 * (a :: nat) < e \<Longrightarrow> 8 dvd e \<Longrightarrow> 8 * a + 8 \<le> e"
  by presburger

lemma read_sees:
  assumes k: "pit_ok X D0 s cm" and y: "bi_sector b * 512 \<le> y" "y < bi_sector b * 512 + bi_size b" "y div 4096 \<notin> X"
    and o: "\<forall>u \<in> set (sd_cow_bios (pt_dev s)). bio_data_dir (bios (pt_heap s) u) \<longrightarrow> \<not> bio_overlap b (bios (pt_heap s) u)" and z: "512 dvd bi_size b"
  shows "snap_view (cow_saved (pt_world s) cm) (pt_disk s) y = D0 y"
proof -
  let ?h = "pt_heap s" and ?q = "captures (pages_of (pt_heap s)) (bios (pt_heap s)) (sd_cow_bios (pt_dev s))"
  have "capture_of (pages_of ?h) (bios ?h u) (y div 4096) = None" if u: "u \<in> set (sd_cow_bios (pt_dev s))" "bio_data_dir (bios ?h u)" for u
  proof (rule ccontr)
    note q = traffic_okD(5)[OF pit_okD(1)[OF k] u(1)]
    assume "capture_of (pages_of ?h) (bios ?h u) (y div 4096) \<noteq> None"
    then have d: "bi_sector (bios ?h u) \<le> 8 * (y div 4096)" "8 * (y div 4096) < bi_sector (bios ?h u) + bi_size (bios ?h u) div 512"
      using capture_of_dom[OF q u(2), of "pages_of ?h"] by auto
    have a: "8 dvd bi_sector (bios ?h u)" "8 dvd bi_size (bios ?h u) div 512" using q u(2) new_pages_bytes by (auto simp: queued_ok_def)
    then have "8 * (y div 4096) + 8 \<le> bi_sector (bios ?h u) + bi_size (bios ?h u) div 512" using d(2) by (intro next_block dvd_add)
    moreover have "8 * (y div 4096) \<le> y div 512" "y div 512 < 8 * (y div 4096) + 8" by linarith+
    moreover have "bi_sector b \<le> y div 512" "y div 512 < bi_sector b + bi_size b div 512" using y(1,2) z by (auto elim!: dvdE)
    ultimately have "bio_overlap b (bios ?h u)" using d(1) unfolding bio_overlap_def by linarith
    then show False using o u by blast
  qed
  then have "covered s cm (y div 4096) = cow_saved (pt_world s) cm (y div 4096)"
    unfolding covered_def by (intro protect_saved) (auto simp: captures_def)
  then have "(case cow_saved (pt_world s) cm (y div 4096) of None \<Rightarrow> blk_of (pt_disk s) (y div 4096) | Some v \<Rightarrow> v) = blk_of D0 (y div 4096)"
    using pit_okD(2)[OF k] y(3) unfolding view_ok_def by metis
  moreover have "blk_of D (y div 4096) (y mod 4096) = D y" for D by (simp add: blk_of_def block_of_def)
  ultimately show ?thesis by (auto simp: snap_view_def split: option.splits) metis+
qed

lemma turn_read_ok:
  assumes K: "kernel_ok K" and S: "submit_ok submit" and k: "pit_ok X D0 s cm"
    and d: "delay_dequeue (bios (pt_heap s)) (sd_cow_bios (pt_dev s)) = (t, ys)" "sd_cow_bios (pt_dev s) \<noteq> []"
    and r: "\<not> bio_data_dir (bios (pt_heap s) t)"
  obtains ret b' P' w' cm' where
    "snap_handle_read_bio K submit base (pt_disk s) (bios (pt_heap s) t) (pages_of (pt_heap s)) (pt_world s) cm = Some (ret, b', P', w', cm')"
    "ret = 0 \<Longrightarrow> pit_ok X D0 (s\<lparr>pt_dev := (pt_dev s)\<lparr>sd_cow_bios := ys\<rparr>,
        pt_heap := (pt_heap s)\<lparr>bios := (bios (pt_heap s))(t := b'), pages_of := P'\<rparr>, pt_world := w', pt_cow := Some cm'\<rparr>) cm'"
    "\<And>pg x y. ret = 0 \<Longrightarrow> seg_addr (bi_io_vec (bios (pt_heap s) t)) (bi_sector (bios (pt_heap s) t) * 512) pg x = Some y \<Longrightarrow> y div 4096 \<notin> X \<Longrightarrow> P' pg x = D0 y"
proof -
  let ?h = "pt_heap s" and ?Q = "sd_cow_bios (pt_dev s)" and ?b = "bios (pt_heap s) t"
  note t = traffic_okD[OF pit_okD(1)[OF k]]
  have ys: "set ?Q = insert t (set ys)" "distinct ys" "t \<notin> set ys" using delay_dequeue_set[OF d t(4)] by auto
  have xs: "?Q = t # ys" and no: "\<forall>u \<in> set ys. bio_data_dir (bios ?h u) \<longrightarrow> \<not> bio_overlap ?b (bios ?h u)"
    using d by (cases rule: delay_dequeue_cases; use r in auto)+
  have q: "queued_ok (capacity cm) ?h t" by (rule t(5)) (simp add: ys(1))
  then have f: "fresh_bio ?b" "bi_sector ?b * 512 + bi_size ?b \<le> capacity cm * 4096" using r by (simp_all add: queued_ok_def)
  obtain ret b' P' w' cm' where hr: "snap_handle_read_bio K submit base (pt_disk s) ?b (pages_of ?h) (pt_world s) cm = Some (ret, b', P', w', cm')"
    and st: "cow_stable (pt_world s) cm w' cm'"
    and P': "ret = 0 \<longrightarrow> P' = fill_segs (snap_view (cow_saved (pt_world s) cm) (pt_disk s)) (bi_io_vec ?b) (bi_sector ?b * 512) (pages_of ?h)"
    using snap_handle_read_ok[OF K S pit_okD(3)[OF k] f, of base "pt_disk s" "pages_of ?h"] by auto
  note sv = cow_stable_saved[OF pit_okD(3)[OF k] st]
  show thesis
  proof (rule that[OF hr])
    let ?h' = "?h\<lparr>bios := (bios ?h)(t := b'), pages_of := P'\<rparr>" and ?dev = "(pt_dev s)\<lparr>sd_cow_bios := ys\<rparr>"
    let ?s = "s\<lparr>pt_dev := ?dev, pt_heap := ?h', pt_world := w', pt_cow := Some cm'\<rparr>"
    assume ret: "ret = 0"
    show "P' pg x = D0 y" if "seg_addr (bi_io_vec ?b) (bi_sector ?b * 512) pg x = Some y" "y div 4096 \<notin> X" for pg x y
    proof -
      have "vec_bytes (bi_io_vec ?b) = bi_size ?b" using f(1) by (simp add: fresh_bio_def)
      then have "bi_sector ?b * 512 \<le> y" "y < bi_sector ?b * 512 + bi_size ?b" using seg_addr_bounds[OF that(1)] by auto
      then show ?thesis using read_sees[OF k _ _ that(2) _ fresh_bio_size[OF f(1)]] no P' ret that(1) xs r by (simp add: fill_segs_def)
    qed
    have pg: "P' x = pages_of ?h x" if "c \<in> set (flying (pt_dev s) ?h) \<or> c \<in> set ys \<and> bio_data_dir (bios ?h c)" "x \<in> bio_pages (bios ?h c)" for c x
    proof -
      have ne: "c \<noteq> t" using that(1) r ys(3) t(6) by (auto simp: apart_def xs)
      have "bio_pages (bios ?h c) \<inter> bio_pages ?b = {}" by (rule apartD[OF t(6) _ _ ne]) (use that(1) ys(1) in auto)
      then have "x \<notin> bv_page ` set (bi_io_vec ?b)" using that(2) by (auto simp: bio_pages_def)
      then show ?thesis using P' ret fill_segs_other by simp
    qed
    have "captures P' (bios ?h') ys = captures (pages_of ?h) (bios ?h) ys" by (rule captures_cong) (use ys(3) pg in auto)
    then have cov: "covered ?s cm' = covered s cm" using sv(1) xs r by (simp add: covered_def)
    have nt: "t \<notin> set (flying (pt_dev s) ?h)" using t(6) ys(1) by (auto simp: apart_def)
    have ns: "t \<notin> set (submitted ?h)" using nt outgoing_out[OF k, of t] ys(1) by (auto simp: flying_def outgoing_def)
    have fl: "flying ?dev ?h' = flying (pt_dev s) ?h" "outgoing ?dev ?h' = outgoing (pt_dev s) ?h"
      using ns by (auto simp: flying_def outgoing_def intro!: filter_cong)
    have "traffic_ok X D0 (sd_sect_off (pt_dev s)) (capacity cm) (pt_read s) (covered s cm) (set (flying (pt_dev s) ?h)) ys
        (set (outgoing (pt_dev s) ?h)) ?h'"
    proof (rule traffic_ok_cong[OF traffic_ok_dequeue[OF pit_okD(1)[OF k], of ys]])
      show "is_clone (bios ?h' c) = is_clone (bios ?h c) \<and> touched (sd_sect_off (pt_dev s)) (bios ?h' c) = touched (sd_sect_off (pt_dev s)) (bios ?h c)"
        if "c \<in> set (outgoing (pt_dev s) ?h) \<or> (\<exists>tp p. tps ?h tp = Some p \<and> tp_orig_bio p = c)" for c
      proof -
        have "c \<noteq> t" using that t(7,8) ys(1) by (auto simp: held_ok_def out_ok_def)
        then show ?thesis by simp
      qed
    qed (use ys nt pg in auto)
    then show "pit_ok X D0 ?s cm'" using pit_okD[OF k] sv(2) cow_stable_capacity[OF st] cov fl by (simp add: pit_ok_def)
  qed
qed

text \<open>The turn as an equation, for each kind of bio.\<close>

lemma turn_write_eq:
  assumes "sd_fail_code dev = 0" "sd_cow_bios dev \<noteq> []" "delay_dequeue (bios h) (sd_cow_bios dev) = (t, ys)" "bio_data_dir (bios h t)"
    and "snap_handle_write_bio K (bios h t) (pages_of h) w cm = Some (ret, w', cm')"
  shows "snap_cow_thread K submit D False dev h w (Some cm) = Some (False,
    if ret \<noteq> 0 then tracer_set_fail_state ret (dev\<lparr>sd_cow_bios := ys\<rparr>) else dev\<lparr>sd_cow_bios := ys\<rparr>, bio_free_clone t h, w', Some cm')"
  using assms by (simp add: snap_cow_thread_def thread_fail_check_def tracer_read_fail_state_def Let_def)

lemma turn_read_eq:
  assumes "sd_fail_code dev = 0" "sd_cow_bios dev \<noteq> []" "delay_dequeue (bios h) (sd_cow_bios dev) = (t, ys)" "\<not> bio_data_dir (bios h t)"
    and "sd_base_dev dev = Some base" "snap_handle_read_bio K submit base D (bios h t) (pages_of h) w cm = Some (ret, b', P', w', cm')"
  shows "snap_cow_thread K submit D False dev h w (Some cm) = Some (False,
    if ret \<noteq> 0 then tracer_set_fail_state ret (dev\<lparr>sd_cow_bios := ys\<rparr>) else dev\<lparr>sd_cow_bios := ys\<rparr>,
    moocbt_bio_endio t (if ret \<noteq> 0 then - EIO else 0) (h\<lparr>bios := (bios h)(t := b'), pages_of := P'\<rparr>), w', Some cm')"
  using assms by (simp add: snap_cow_thread_def thread_fail_check_def tracer_read_fail_state_def Let_def)

text \<open>A turn that does not fail the device keeps the invariant.\<close>

lemma cow_turn_ok:
  assumes K: "kernel_ok K" "submit_ok submit" and k: "pit_ok X D0 s cm" and f: "sd_fail_code (pt_dev s) = 0"
    and o: "sd_cow_bios (pt_dev s) \<noteq> [] \<longrightarrow> in_order (bios (pt_heap s)) (sd_cow_bios (pt_dev s))"
    and u: "snap_cow_thread K submit (pt_disk s) (pt_failed s) (pt_dev s) (pt_heap s) (pt_world s) (pt_cow s) = Some (failed, dev, h, w, cow)"
    and f': "sd_fail_code dev = 0"
  shows "\<exists>cm'. pit_ok X D0 (s\<lparr>pt_failed := failed, pt_dev := dev, pt_heap := h, pt_world := w, pt_cow := cow\<rparr>) cm'"
proof -
  have u: "snap_cow_thread K submit (pt_disk s) False (pt_dev s) (pt_heap s) (pt_world s) (Some cm) = Some (failed, dev, h, w, cow)"
    using u pit_okD(4,5)[OF k] by simp
  obtain base where base: "sd_base_dev (pt_dev s) = Some base" using pit_okD(8)[OF k] by auto
  obtain t ys where d: "delay_dequeue (bios (pt_heap s)) (sd_cow_bios (pt_dev s)) = (t, ys)" by fastforce
  consider (none) "sd_cow_bios (pt_dev s) = []" | (capture) "sd_cow_bios (pt_dev s) \<noteq> []" "bio_data_dir (bios (pt_heap s) t)"
    | (read) "sd_cow_bios (pt_dev s) \<noteq> []" "\<not> bio_data_dir (bios (pt_heap s) t)" by blast
  then show ?thesis
  proof cases
    case none
    then have "s\<lparr>pt_failed := failed, pt_dev := dev, pt_heap := h, pt_world := w, pt_cow := cow\<rparr> = s"
      using u f pit_okD(4,5)[OF k] by (cases s) (simp add: snap_cow_thread_def thread_fail_check_def tracer_read_fail_state_def)
    then show ?thesis using k by auto
  next
    case capture
    from turn_write_ok[OF K(1) k d capture] obtain ret w' cm' where
      hw: "snap_handle_write_bio K (bios (pt_heap s) t) (pages_of (pt_heap s)) (pt_world s) cm = Some (ret, w', cm')"
      "ret = 0 \<Longrightarrow> in_order (bios (pt_heap s)) (sd_cow_bios (pt_dev s)) \<Longrightarrow>
        pit_ok X D0 (s\<lparr>pt_dev := (pt_dev s)\<lparr>sd_cow_bios := ys\<rparr>, pt_heap := bio_free_clone t (pt_heap s), pt_world := w', pt_cow := Some cm'\<rparr>) cm'"
      by metis
    note e = turn_write_eq[OF f capture(1) d capture(2) hw(1), of submit "pt_disk s", unfolded u]
    then have "ret = 0" using f' f by (auto simp: tracer_set_fail_state_def split: if_splits)
    then show ?thesis using hw(2) o capture(1) e pit_okD(5)[OF k] by (intro exI[of _ cm']) (cases s; simp)
  next
    case read
    from turn_read_ok[OF K k d read, of base] obtain ret b' P' w' cm' where
      hr: "snap_handle_read_bio K submit base (pt_disk s) (bios (pt_heap s) t) (pages_of (pt_heap s)) (pt_world s) cm = Some (ret, b', P', w', cm')"
      "ret = 0 \<Longrightarrow> pit_ok X D0 (s\<lparr>pt_dev := (pt_dev s)\<lparr>sd_cow_bios := ys\<rparr>,
        pt_heap := (pt_heap s)\<lparr>bios := (bios (pt_heap s))(t := b'), pages_of := P'\<rparr>, pt_world := w', pt_cow := Some cm'\<rparr>) cm'" by metis
    note e = turn_read_eq[OF f read(1) d read(2) base hr(1), unfolded u]
    then have "ret = 0" using f' f by (auto simp: tracer_set_fail_state_def split: if_splits)
    from endio_ok[OF hr(2)[OF this], of t 0] this show ?thesis using e pit_okD(5)[OF k] by (intro exI[of _ cm']) (cases s; simp)
  qed
qed

end
