(* ===== verification/Pit_Write.thy ===== *)
theory Pit_Write
  imports Pit_Turn
begin

text \<open>
  A write arrives: it is let through when it belongs to the COW file, and otherwise held until the clones that cover its
  blocks are done.
\<close>

subsection \<open>New clones\<close>

lemma find_sect_map: "c \<in> set cs \<Longrightarrow> find_sect c (map (\<lambda>c. (c, u c, v c)) cs) = Some (u c, v c)"
  by (induction cs) auto

lemma clone_bio_end [simp]: "bi_end_io (clone_bio tp dv sc vs) = 1"
  by (simp add: clone_bio_def)

lemma clone_pages_apart:
  "distinct (clone_pages_of bs cs) \<Longrightarrow> distinct cs \<Longrightarrow> c \<in> set cs \<Longrightarrow> d \<in> set cs \<Longrightarrow> c \<noteq> d \<Longrightarrow> bio_pages (bs c) \<inter> bio_pages (bs d) = {}"
proof (induction cs)
  case (Cons e cs)
  have "set (clone_pages_of bs cs) = (\<Union>c \<in> set cs. bio_pages (bs c))" by (auto simp: clone_pages_of_def bio_pages_def)
  moreover have "bio_pages (bs e) \<inter> set (clone_pages_of bs cs) = {}" using Cons.prems(1) by (auto simp: bio_pages_def)
  ultimately have "x \<in> set cs \<Longrightarrow> bio_pages (bs e) \<inter> bio_pages (bs x) = {}" for x by auto
  then show ?case using Cons by auto
qed simp

text \<open>The write \<open>w\<close> is held by new parameters \<open>tp\<close> with the clones \<open>cs\<close>, which cover its blocks.\<close>

definition clones_made :: "nat \<Rightarrow> nat \<Rightarrow> addr \<Rightarrow> addr \<Rightarrow> addr list \<Rightarrow> bheap \<Rightarrow> bheap \<Rightarrow> bool" where
  "clones_made off n w tp cs h h' \<longleftrightarrow> cs \<noteq> [] \<and> fresh h \<le> tp \<and> tp < fresh h' \<and> (\<forall>a < fresh h. bios h' a = bios h a) \<and> pages_of h' = pages_of h \<and>
     tps h' = (tps h)(tp \<mapsto> \<lparr>tp_orig_bio = w, tp_refs = int (length cs), tp_bio_sects = map (\<lambda>c. (c, bi_sector (bios h' c), bi_size (bios h' c))) cs\<rparr>) \<and>
     distinct cs \<and> distinct (clone_pages_of (bios h') cs) \<and>
     (\<forall>c \<in> set cs. fresh h \<le> c \<and> c < fresh h' \<and> (\<exists>dv sc vs. bios h' c = clone_bio tp dv sc vs \<and> new_pages (fresh h) (fresh h') vs \<and>
        off \<le> sc \<and> 8 dvd (sc - off) \<and> (sc - off) div 8 + length vs \<le> n)) \<and>
     (\<forall>b \<in> touched off (bios h w). \<exists>c \<in> set cs. (bi_sector (bios h' c) - off) div 8 \<le> b \<and>
        b < (bi_sector (bios h' c) - off) div 8 + length (bi_io_vec (bios h' c)))"

lemma clones_made_at:
  assumes "clones_made off n w tp cs h h'" "c \<in> set cs"
  shows "clone_at h' c (bi_sector (bios h' c))" "bi_private (bios h' c) = tp" "is_clone (bios h' c)" "c < fresh h'" "fresh h \<le> c"
    "new_pages (fresh h) (fresh h') (bi_io_vec (bios h' c))" "off \<le> bi_sector (bios h' c)" "8 dvd (bi_sector (bios h' c) - off)"
    "(bi_sector (bios h' c) - off) div 8 + length (bi_io_vec (bios h' c)) \<le> n"
proof -
  from assms obtain dv sc vs where b: "bios h' c = clone_bio tp dv sc vs" "new_pages (fresh h) (fresh h') vs" "off \<le> sc" "8 dvd (sc - off)"
    "(sc - off) div 8 + length vs \<le> n" "c < fresh h'" "fresh h \<le> c" unfolding clones_made_def by blast
  show "clone_at h' c (bi_sector (bios h' c))"
    using assms find_sect_map[OF assms(2), of "\<lambda>c. bi_sector (bios h' c)" "\<lambda>c. bi_size (bios h' c)"] b(1)
    by (auto simp: clone_at_def clones_made_def)
  show "bi_private (bios h' c) = tp" "is_clone (bios h' c)" "c < fresh h'" "fresh h \<le> c" "new_pages (fresh h) (fresh h') (bi_io_vec (bios h' c))"
    "off \<le> bi_sector (bios h' c)" "8 dvd (bi_sector (bios h' c) - off)" "(bi_sector (bios h' c) - off) div 8 + length (bi_io_vec (bios h' c)) \<le> n"
    using b by simp_all
qed

lemma apart_clones:
  assumes a: "apart h F Q" and old: "\<And>c. c \<in> F \<union> set Q \<Longrightarrow> c < fresh h \<and> bio_pages (bios h c) \<subseteq> {..<fresh h}"
    and m: "clones_made off n w tp cs h h'"
  shows "apart h' (F \<union> set cs) Q"
proof (rule apartI)
  have b: "c < fresh h \<Longrightarrow> bios h' c = bios h c" for c using m by (simp add: clones_made_def)
  note new = clones_made_at[OF m]
  have pg: "bio_pages (bios h' c) \<inter> {..<fresh h} = {}" if "c \<in> set cs" for c
    using new(6)[OF that] by (auto simp: bio_pages_def new_pages_def)
  show "(F \<union> set cs) \<inter> set Q = {}" using a old new(5) by (fastforce simp: apart_def)
  show "bio_pages (bios h' c) \<inter> bio_pages (bios h' d) = {}"
    if cd: "c \<in> F \<union> set cs \<or> c \<in> set Q \<and> bio_data_dir (bios h' c)" "d \<in> F \<union> set cs \<union> set Q" "c \<noteq> d" for c d
  proof -
    consider "c \<in> set cs" "d \<in> set cs" | "c \<in> set cs" "d \<in> F \<union> set Q" | "c \<in> F \<union> set Q" "d \<in> set cs"
      | "c \<in> F \<or> c \<in> set Q \<and> bio_data_dir (bios h' c)" "d \<in> F \<union> set Q" using cd(1,2) by blast
    then show ?thesis
    proof cases
      case 1
      then show ?thesis using clone_pages_apart[of "bios h'" cs c d] m cd(3) by (simp add: clones_made_def)
    next
      case 4
      then have "bios h' c = bios h c" "bios h' d = bios h d" using old b by blast+
      then show ?thesis using apartD[OF a _ 4(2) cd(3)] 4(1) by simp
    qed (use pg old b in fastforce)+
  qed
qed

text \<open>What was on its way before is as it was, and the parameters of the write are new.\<close>

lemma clones_made_tp:
  assumes "clones_made off n w tp cs h h'"
  shows "tps h' = (tps h)(tp \<mapsto> \<lparr>tp_orig_bio = w, tp_refs = int (length cs), tp_bio_sects = map (\<lambda>c. (c, bi_sector (bios h' c), bi_size (bios h' c))) cs\<rparr>)"
    "fresh h \<le> tp" "tp < fresh h'"
  using assms by (auto simp: clones_made_def)

lemma clones_made_old:
  assumes t: "traffic_ok X D0 off n R M F Q W h" and m: "clones_made off n w tp cs h h'" and c: "c \<in> F"
  shows "c < fresh h" "bi_private (bios h c) \<noteq> tp" "bios h' c = bios h c" "clone_at h' c s = clone_at h c s"
proof -
  note t = traffic_okD[OF t] and tp = clones_made_tp[OF m]
  have "tps h tp = None" using t(7)[of tp] tp(2) by (cases "tps h tp") (auto simp: held_ok_def)
  then show o: "c < fresh h" "bi_private (bios h c) \<noteq> tp" using t(2)[OF c] by (auto simp: flight_ok_def clone_at_def)
  then show b: "bios h' c = bios h c" using m by (simp add: clones_made_def)
  then show "clone_at h' c s = clone_at h c s" using o tp(1) by (auto simp: clone_at_def)
qed

lemma held_ok_new:
  assumes m: "clones_made off n w tp cs h h'" and w: "w < fresh h" "\<not> is_clone (bios h w)" "w \<notin> set Q"
    and old: "\<And>c. c \<in> F \<Longrightarrow> bi_private (bios h' c) \<noteq> tp" and q: "tps h' tp = Some p"
  shows "held_ok X off M (F \<union> set cs) Q h' tp p"
proof -
  note new = clones_made_at[OF m] and tp = clones_made_tp[OF m]
  have p: "tp_orig_bio p = w" "tp_refs p = int (length cs)" "cs \<noteq> []" using q tp(1) m by (auto simp: clones_made_def)
  have b: "bios h' w = bios h w" "fresh h \<le> fresh h'" using m w(1) by (simp_all add: clones_made_def)
  have "{c \<in> F \<union> set cs. bi_private (bios h' c) = tp} = set cs" using new(2) old by blast
  moreover have "card (set cs) = length cs" using m by (simp add: clones_made_def distinct_card)
  moreover have "\<exists>c \<in> F \<union> set cs. bi_private (bios h' c) = tp \<and> clone_covers off h' c blk"
    if "blk \<in> touched off (bios h w)" for blk
  proof -
    from that m obtain c where "c \<in> set cs" "(bi_sector (bios h' c) - off) div 8 \<le> blk"
      "blk < (bi_sector (bios h' c) - off) div 8 + length (bi_io_vec (bios h' c))" unfolding clones_made_def by blast
    then show ?thesis using new(1,2)[of c] unfolding clone_covers_def by blast
  qed
  ultimately show ?thesis using p w b tp(2,3) by (simp add: held_ok_def)
qed

lemma traffic_ok_clones:
  assumes tr: "traffic_ok X D0 off n R M F Q W h" and m: "clones_made off n w tp cs h h'"
    and w: "w < fresh h" "\<not> is_clone (bios h w)" "w \<notin> set Q"
  shows "traffic_ok X D0 off n R M (F \<union> set cs) Q W h'"
proof -
  note t = traffic_okD[OF tr] and new = clones_made_at[OF m]
  have b: "c < fresh h \<Longrightarrow> bios h' c = bios h c" for c using m by (simp add: clones_made_def)
  have fr: "fresh h \<le> fresh h'" "pages_of h' = pages_of h" using m by (auto simp: clones_made_def)
  note tp = clones_made_tp(1)[OF m] and old = clones_made_old(1,2)[OF tr m] and bF = clones_made_old(3)[OF tr m] and ca = clones_made_old(4)[OF tr m]
  have qF: "c < fresh h" if "c \<in> set Q" for c using t(5)[OF that] by (simp add: queued_ok_def)
  have "flight_ok off n R h' c" if "c \<in> F \<union> set cs" for c
  proof (cases "c \<in> F")
    case True
    then show ?thesis using t(2)[OF True] ca[OF True] bF[OF True] fr new_pages_le[OF _ fr(1)] by (auto simp: flight_ok_def)
  next
    case False
    then have c: "c \<in> set cs" using that by simp
    show ?thesis using new[OF c] new_pages_mono[OF new(6)[OF c], of 0 "fresh h'"] unfolding flight_ok_def by blast
  qed
  moreover have "content_ok X D0 off M h' c" if "c \<in> F \<union> set cs" "c \<in> R" for c
  proof -
    have "c \<in> F" using that t(9) new(5)[of c] by fastforce
    then show ?thesis using t(3)[OF _ that(2)] ca bF fr(2) by (simp add: content_ok_def)
  qed
  moreover have "queued_ok n h' c" if "c \<in> set Q" for c
    using t(5)[OF that] b[OF qF[OF that]] fr new_pages_le[OF _ fr(1)] by (fastforce simp: queued_ok_def)
  moreover have "apart h' (F \<union> set cs) Q"
  proof (rule apart_clones[OF t(6) _ m])
    show "c < fresh h \<and> bio_pages (bios h c) \<subseteq> {..<fresh h}" if "c \<in> F \<union> set Q" for c
    proof (cases "c \<in> F")
      case True
      then show ?thesis using t(2) by (fastforce simp: flight_ok_def bio_pages_def new_pages_def)
    next
      case False
      then have "queued_ok n h c" using t(5) that by blast
      then show ?thesis by (cases "bio_data_dir (bios h c)") (auto simp: queued_ok_def bio_pages_def new_pages_def)
    qed
  qed
  moreover have "held_ok X off M (F \<union> set cs) Q h' q p" if q: "tps h' q = Some p" for q p
  proof (cases "q = tp")
    case True
    have "bi_private (bios h' c) \<noteq> tp" if "c \<in> F" for c using old(2)[OF that] bF[OF that] by simp
    then show ?thesis unfolding True by (rule held_ok_new[OF m w _ q[unfolded True]])
  next
    case False
    then have k: "held_ok X off M F Q h q p" using t(7) q tp by simp
    have "{c \<in> F \<union> set cs. bi_private (bios h' c) = q} = {c \<in> F. bi_private (bios h c) = q}" using bF new(2) False by auto
    moreover have "bios h' (tp_orig_bio p) = bios h (tp_orig_bio p)" using k b by (simp add: held_ok_def)
    moreover have "clone_covers off h' c blk = clone_covers off h c blk" "bi_private (bios h' c) = bi_private (bios h c)" if "c \<in> F" for c blk
      using ca[OF that] bF[OF that] by (simp_all add: clone_covers_def)
    ultimately show ?thesis using k fr(1) unfolding held_ok_def by simp (metis UnI1)
  qed
  moreover have "out_ok X off M Q h' c" if "c \<in> W" for c
    using t(8)[OF that] b[of c] fr by (auto simp: out_ok_def)
  ultimately show ?thesis using t(1,4,9) fr(1) by (auto simp: traffic_ok_def)
qed

subsection \<open>The write step\<close>

lemma block_in_clone:
  assumes "off \<le> sc" "8 dvd (sc - off)" "sc \<le> x" "x < sc + 8 * l"
  shows "(sc - off) div 8 \<le> (x - off) div 8" "(x - off) div 8 < (sc - off) div 8 + (l :: nat)"
proof -
  from assms(2) obtain m where m: "sc - off = 8 * m" by (elim dvdE)
  have "8 * m \<le> x - off" "x - off < 8 * (m + l)" using assms m by auto
  then show "(sc - off) div 8 \<le> (x - off) div 8" "(x - off) div 8 < (sc - off) div 8 + l" unfolding m by auto
qed

lemma trace_clones_made:
  assumes tr: "snap_trace_bio C B w dev h = Some (ret, dev', h')" "bio_needs_cow B (bios h w) (sd_cow_inode dev)"
      "sd_fail_code dev = 0" "sd_fail_code dev' = 0"
    and rng: "sd_sect_off dev \<le> bi_sector (bios h w)" "512 \<le> bi_size (bios h w)"
      "bi_sector (bios h w) + bi_size (bios h w) div 512 \<le> sd_sect_off dev + sd_size dev" "sd_size dev \<le> 8 * n"
  obtains cs where "clones_made (sd_sect_off dev) n w (fresh h) cs h h'" "submitted h' = submitted h @ (if USE_HOOK_TRACER C then [] else cs)"
    "dev' = dev\<lparr>sd_submitted_cnt := sd_submitted_cnt dev + of_nat (length cs), sd_read_bios := sd_read_bios dev @ (if USE_HOOK_TRACER C then cs else [])\<rparr>"
proof -
  let ?off = "sd_sect_off dev" and ?b = "bios h w"
  obtain cs h0 h1 p k where ne: "cs \<noteq> []"
    and h0: "h0 = h\<lparr>fresh := Suc (fresh h), bclock := k, tps := (tps h)(fresh h \<mapsto> \<lparr>tp_orig_bio = w, tp_refs = 1, tp_bio_sects = []\<rparr>)\<rparr>"
    and cl: "cloned C (fresh h) (trace_start ?off ?b) (trace_pages ?off ?b) cs dev h0 dev' h1"
    and p: "p = \<lparr>tp_orig_bio = w, tp_refs = int (length cs), tp_bio_sects = map (\<lambda>c. (c, bi_sector (bios h1 c), bi_size (bios h1 c))) cs\<rparr>"
    and h': "h' = h1\<lparr>tps := (tps h)(fresh h \<mapsto> p)\<rparr>"
    and c: "\<forall>c \<in> set cs. bi_op (bios h1 c) = REQ_OP_READ \<and> bi_size (bios h1 c) = length (bi_io_vec (bios h1 c)) * 4096 \<and>
       ?off \<le> bi_sector (bios h1 c) \<and> 8 dvd (bi_sector (bios h1 c) - ?off) \<and>
       bi_sector (bios h1 c) + 8 * length (bi_io_vec (bios h1 c)) \<le> ?off + 8 * NUM_SEGMENTS (bi_sector ?b + bi_size ?b div 512 - ?off) 3"
    and cov: "\<forall>s. bi_sector ?b \<le> s \<and> s < bi_sector ?b + bi_size ?b div 512 \<longrightarrow>
       (\<exists>c \<in> set cs. bi_sector (bios h1 c) \<le> s \<and> s < bi_sector (bios h1 c) + 8 * length (bi_io_vec (bios h1 c)))"
    by (rule snap_trace_bio_clones[OF tr rng(1,2)])
  have cf: "c0 \<in> set cs \<Longrightarrow> fresh h \<le> c0 \<and> c0 < fresh h1" for c0 using cl h0 by (auto simp: cloned_def)
  have "NUM_SEGMENTS (bi_sector ?b + bi_size ?b div 512 - ?off) 3 \<le> n" using rng(3,4) by (simp add: NUM_SEGMENTS_3)
  then have bound: "(bi_sector (bios h1 c0) - ?off) div 8 + length (bi_io_vec (bios h1 c0)) \<le> n" if "c0 \<in> set cs" for c0
    using bspec[OF c that] by (auto elim!: dvdE)
  have cb: "\<exists>dv sc vs. bios h1 c0 = clone_bio (fresh h) dv sc vs \<and> new_pages (fresh h) (fresh h1) vs \<and> ?off \<le> sc \<and> 8 dvd (sc - ?off) \<and> (sc - ?off) div 8 + length vs \<le> n"
    if "c0 \<in> set cs" for c0
  proof -
    from cl that obtain dv sc vs where b: "bios h1 c0 = clone_bio (fresh h) dv sc vs" "new_pages (fresh h0) (fresh h1) vs" unfolding cloned_def by blast
    then show ?thesis using bspec[OF c that] bound[OF that] new_pages_mono[OF b(2), of "fresh h" "fresh h1"] h0 by auto
  qed
  have tc: "\<exists>c \<in> set cs. (bi_sector (bios h1 c) - ?off) div 8 \<le> blk \<and> blk < (bi_sector (bios h1 c) - ?off) div 8 + length (bi_io_vec (bios h1 c))"
    if "blk \<in> touched ?off ?b" for blk
  proof -
    from that obtain s where s: "bi_sector ?b \<le> s" "s < bi_sector ?b + bi_size ?b div 512" "blk = (s - ?off) div 8" by (auto simp: touched_def)
    from cov s(1,2) obtain c0 where "c0 \<in> set cs" "bi_sector (bios h1 c0) \<le> s" "s < bi_sector (bios h1 c0) + 8 * length (bi_io_vec (bios h1 c0))" by blast
    then show ?thesis using block_in_clone[of ?off "bi_sector (bios h1 c0)" s] c s(3) by blast
  qed
  have "clones_made ?off n w (fresh h) cs h h'"
    using cl h0 cf cb tc ne by (auto simp: clones_made_def h' p cloned_def)
  moreover have "submitted h' = submitted h @ (if USE_HOOK_TRACER C then [] else cs)" using cl h0 by (simp add: cloned_def h')
  ultimately show thesis using cl by (intro that) (simp_all add: cloned_def)
qed

text \<open>A write of the COW file is let through.\<close>

lemma app_write_through:
  assumes k: "pit_ok X D0 s cm" and f: "fresh (pt_heap s) < f" "\<not> is_clone b" and x: "touched (sd_sect_off (pt_dev s)) b \<subseteq> X"
  shows "pit_ok X D0 (s\<lparr>pt_dev := pt_dev s, pt_heap := submit_real (fresh (pt_heap s)) (arrives b f (pt_heap s))\<rparr>) cm"
proof -
  let ?w = "fresh (pt_heap s)" and ?h = "arrives b f (pt_heap s)" and ?s = "s\<lparr>pt_heap := arrives b f (pt_heap s)\<rparr>"
  note k1 = arrives_ok[OF k f(1), of b]
  have nq: "?w \<notin> set (sd_cow_bios (pt_dev s))" using traffic_okD(5)[OF pit_okD(1)[OF k], of ?w] by (auto simp: queued_ok_def)
  have fl: "flying (pt_dev s) (submit_real ?w ?h) = flying (pt_dev s) ?h" "set (outgoing (pt_dev s) (submit_real ?w ?h)) = insert ?w (set (outgoing (pt_dev s) ?h))"
    using f(2) by (auto simp: flying_def outgoing_def submit_real_def)
  have o: "out_ok X (sd_sect_off (pt_dev s)) (covered ?s cm) (sd_cow_bios (pt_dev s)) (submit_real ?w ?h) ?w"
    using x f nq by (auto simp: out_ok_def submit_real_def)
  have "pit_ok X D0 (?s\<lparr>pt_dev := pt_dev s, pt_heap := submit_real ?w ?h\<rparr>) cm"
    by (rule pit_ok_cong[OF k1 refl]) (use fl o pit_okD(7)[OF k1] in \<open>auto simp: same_place_def submit_real_def\<close>)
  then show ?thesis by simp
qed

text \<open>Any other write is held, with its clones on their way.\<close>

lemma clones_lists:
  assumes m: "clones_made off n w tp cs h h'" and below: "\<And>c. c \<in> set (submitted h) \<Longrightarrow> c < fresh h"
    and sb: "submitted h' = submitted h @ (if hook then [] else cs)"
    and dv: "sd_read_bios dev' = sd_read_bios dev @ (if hook then cs else [])" "sd_orig_bios dev' = sd_orig_bios dev"
  shows "set (flying dev' h') = set (flying dev h) \<union> set cs" "outgoing dev' h' = outgoing dev h"
    "distinct (flying dev h) \<Longrightarrow> set (flying dev h) \<subseteq> {..<fresh h} \<Longrightarrow> distinct (flying dev' h')"
proof -
  note new = clones_made_at[OF m]
  have bs: "bios h' c = bios h c" if "c < fresh h" for c using m that by (simp add: clones_made_def)
  have sub: "filter (\<lambda>c. is_clone (bios h' c)) (submitted h) = filter (\<lambda>c. is_clone (bios h c)) (submitted h)"
    "filter (\<lambda>c. \<not> is_clone (bios h' c)) (submitted h) = filter (\<lambda>c. \<not> is_clone (bios h c)) (submitted h)"
    using below bs by (auto intro: filter_cong)
  have cc: "filter (\<lambda>c. is_clone (bios h' c)) cs = cs" "filter (\<lambda>c. \<not> is_clone (bios h' c)) cs = []"
    using new(3) by (auto simp: filter_id_conv filter_empty_conv)
  let ?S = "filter (\<lambda>c. is_clone (bios h c)) (submitted h)"
  have fly: "flying dev' h' = (if hook then sd_read_bios dev @ cs @ ?S else sd_read_bios dev @ ?S @ cs)" "flying dev h = sd_read_bios dev @ ?S"
    by (simp_all only: flying_def sb filter_append sub cc dv filter.simps append_Nil2 split: if_split) simp
  show "set (flying dev' h') = set (flying dev h) \<union> set cs" unfolding fly by auto
  show "outgoing dev' h' = outgoing dev h"
    by (simp only: outgoing_def sb filter_append sub cc dv filter.simps append_Nil2 split: if_split) simp
  show "distinct (flying dev' h')" if "distinct (flying dev h)" "set (flying dev h) \<subseteq> {..<fresh h}"
  proof -
    have "set (flying dev h) \<inter> set cs = {}" using that(2) new(5) by fastforce
    then show ?thesis using that(1) m unfolding fly by (auto simp: clones_made_def)
  qed
qed

lemma app_write_captured:
  assumes k: "pit_ok X D0 s cm" and f: "fresh (pt_heap s) < f" "\<not> is_clone b"
    and m: "clones_made (sd_sect_off (pt_dev s)) (capacity cm) (fresh (pt_heap s)) f cs (arrives b f (pt_heap s)) h"
    and sb: "submitted h = submitted (pt_heap s) @ (if hook then [] else cs)"
    and dv: "dev = (pt_dev s)\<lparr>sd_submitted_cnt := k', sd_read_bios := sd_read_bios (pt_dev s) @ (if hook then cs else [])\<rparr>"
  shows "pit_ok X D0 (s\<lparr>pt_dev := dev, pt_heap := h\<rparr>) cm"
proof -
  let ?w = "fresh (pt_heap s)" and ?h = "arrives b f (pt_heap s)" and ?s = "s\<lparr>pt_heap := arrives b f (pt_heap s)\<rparr>"
  note k1 = arrives_ok[OF k f(1), of b]
  note t1 = pit_okD(1)[OF k1, simplified]
  have nq: "?w \<notin> set (sd_cow_bios (pt_dev s))" using traffic_okD(5)[OF pit_okD(1)[OF k], of ?w] by (auto simp: queued_ok_def)
  have below: "c < fresh ?h" if "c \<in> set (submitted ?h)" for c using submitted_below[OF k1, of c] that by simp
  have "set (flying (pt_dev s) ?h) \<subseteq> {..<fresh ?h}" using flying_clone[OF k1] by auto
  note l = clones_lists[OF m below, of hook dev "pt_dev s"] and di = this
  have fl: "set (flying dev h) = set (flying (pt_dev s) ?h) \<union> set cs" "outgoing dev h = outgoing (pt_dev s) ?h" "distinct (flying dev h)"
    using l di sb dv pit_okD(7)[OF k1] by simp_all
  have "captures (pages_of h) (bios h) (sd_cow_bios (pt_dev s)) = captures (pages_of ?h) (bios ?h) (sd_cow_bios (pt_dev s))"
    by (rule captures_cong) (use m traffic_okD(5)[OF t1] in \<open>auto simp: clones_made_def queued_ok_def\<close>)
  then have cov: "covered (s\<lparr>pt_dev := dev, pt_heap := h\<rparr>) cm = covered ?s cm" by (simp add: covered_def dv)
  have t: "traffic_ok X D0 (sd_sect_off (pt_dev s)) (capacity cm) (pt_read s) (covered ?s cm) (set (flying (pt_dev s) ?h) \<union> set cs) (sd_cow_bios (pt_dev s))
      (set (outgoing (pt_dev s) ?h)) h"
    by (rule traffic_ok_clones[OF t1 m]) (use f nq in auto)
  show ?thesis using pit_okD[OF k1] t fl cov by (simp add: pit_ok_def dv)
qed

lemma app_write_ok:
  assumes k: "pit_ok X D0 s cm" and f: "fresh (pt_heap s) < f" "\<not> is_clone b" "tracer_should_trace_bio (Some (pt_dev s)) b" "512 dvd bi_size b"
      "bi_sector b + bi_size b div 512 \<le> sd_sect_off (pt_dev s) + sd_size (pt_dev s)"
    and x: "\<not> bio_needs_cow B b (sd_cow_inode (pt_dev s)) \<longrightarrow> touched (sd_sect_off (pt_dev s)) b \<subseteq> X"
    and tr: "snap_trace_bio C B (fresh (pt_heap s)) (pt_dev s) (arrives b f (pt_heap s)) = Some (ret, dev, h)"
    and fc: "sd_fail_code (pt_dev s) = 0" "sd_fail_code dev = 0"
  shows "pit_ok X D0 (s\<lparr>pt_dev := dev, pt_heap := (if USE_HOOK_TRACER C \<and> ret = 0 then submit_real (fresh (pt_heap s)) h else h)\<rparr>) cm"
proof (cases "bio_needs_cow B b (sd_cow_inode (pt_dev s))")
  case False
  then have "dev = pt_dev s" "(if USE_HOOK_TRACER C \<and> ret = 0 then submit_real (fresh (pt_heap s)) h else h) = submit_real (fresh (pt_heap s)) (arrives b f (pt_heap s))"
    using tr by (auto simp: snap_trace_bio_def Let_def split: if_splits)
  then show ?thesis using app_write_through[OF k f(1,2)] x False by simp
next
  case True
  let ?h = "arrives b f (pt_heap s)"
  have nc: "bio_needs_cow B (bios ?h (fresh (pt_heap s))) (sd_cow_inode (pt_dev s))" using True by simp
  have sz: "512 \<le> bi_size b" "sd_sect_off (pt_dev s) \<le> bi_sector b"
    using f(3,4) by (auto simp: tracer_should_trace_bio_def tracer_sector_matches_bio_def dest: dvd_imp_le)
  have hp: "(if USE_HOOK_TRACER C \<and> ret = 0 then submit_real (fresh (pt_heap s)) h else h) = h" using snap_trace_bio_ret[OF tr nc fc] by simp
  obtain cs where "clones_made (sd_sect_off (pt_dev s)) (capacity cm) (fresh (pt_heap s)) (fresh ?h) cs ?h h" "submitted h = submitted ?h @ (if USE_HOOK_TRACER C then [] else cs)"
    "dev = (pt_dev s)\<lparr>sd_submitted_cnt := sd_submitted_cnt (pt_dev s) + of_nat (length cs), sd_read_bios := sd_read_bios (pt_dev s) @ (if USE_HOOK_TRACER C then cs else [])\<rparr>"
    using trace_clones_made[OF tr nc fc] f(5) sz pit_okD(6)[OF k] by (metis arrives_simps(1))
  then show ?thesis unfolding hp by (intro app_write_captured[OF k f(1,2)]) simp_all
qed

end
