(* ===== verification/Pit_Theorems.thy ===== *)
theory Pit_Theorems
  imports Pit_Write
begin

text \<open>
  What a snapshot promises: its reads return the content of the base device at the moment it was taken, a held write always has a
  clone on its way, and what goes wrong when the COW thread takes a later capture of a block before an earlier one.
\<close>

subsection \<open>The invariant holds at every step\<close>

text \<open>A device that has failed stays so.\<close>

lemma set_fail_state_sticky [simp]: "sd_fail_code dev \<noteq> 0 \<Longrightarrow> sd_fail_code (tracer_set_fail_state e dev) \<noteq> 0"
  by (simp add: tracer_set_fail_state_def)

lemma on_bio_read_complete_fails:
  assumes "on_bio_read_complete c err dev h = Some (dev', h')" "err \<noteq> 0 \<or> sd_fail_code dev \<noteq> 0"
  shows "sd_fail_code dev' \<noteq> 0"
  using assms by (auto simp: on_bio_read_complete_def tp_put_def tracer_set_fail_state_def Let_def split: bind_splits if_splits option.splits)

lemma snap_cow_thread_sticky:
  assumes "snap_cow_thread K submit D f dev h w cow = Some (f', dev', h', w', cow')" "sd_fail_code dev \<noteq> 0"
  shows "sd_fail_code dev' \<noteq> 0"
  using assms by (auto simp: snap_cow_thread_def thread_fail_check_def tracer_read_fail_state_def tracer_set_fail_state_def Let_def
    split: bind_splits if_splits option.splits prod.splits)

lemma pit_step_sticky:
  assumes "pit_step K C B submit X s s'" "sd_fail_code (pt_dev s) \<noteq> 0"
  shows "sd_fail_code (pt_dev s') \<noteq> 0"
  using assms(1)
proof cases
  case complete
  then show ?thesis using on_bio_read_complete_fails assms(2) by auto
next
  case cow_turn
  then show ?thesis using snap_cow_thread_sticky assms(2) by auto
qed (use assms(2) in \<open>auto simp: tracer_should_trace_bio_def tracer_read_fail_state_def snap_read_thread_def snap_mrf_thread_def snap_mrf_def
  split: list.splits if_splits\<close>)

lemma pit_step_inv:
  assumes inv: "pit_inv X D0 s" and st: "pit_step K C B submit X s s'" and K: "kernel_ok K" "submit_ok submit"
  shows "pit_inv X D0 s'"
proof (cases "sd_fail_code (pt_dev s') = 0")
  case f': True
  then have f: "sd_fail_code (pt_dev s) = 0" using pit_step_sticky[OF st] by blast
  then obtain cm where k: "pit_ok X D0 s cm" using inv by (auto simp: pit_inv_def)
  from st have "\<exists>cm. pit_ok X D0 s' cm"
  proof cases
    case app_write
    then show ?thesis using app_write_ok[OF k app_write(2-8) f] f' by auto
  next
    case read_thread
    then show ?thesis using read_thread_ok[OF k] by blast
  next
    case mrf_thread
    then show ?thesis using mrf_thread_ok[OF k] by blast
  next
    case device_read
    then show ?thesis using device_read_ok[OF k device_read(2-4) refl] by auto
  next
    case (complete c err dev h)
    then have "err = 0" using on_bio_read_complete_fails[OF complete(5)] f' by auto
    then show ?thesis using complete complete_ok[OF k complete(2,3)] by auto
  next
    case device_write
    then show ?thesis using device_write_ok[OF k device_write(2,3)] by blast
  next
    case written
    then show ?thesis using written_ok[OF k] by blast
  next
    case snap_request
    then show ?thesis using snap_request_ok[OF k snap_request(2-6)] by auto
  next
    case cow_turn
    then show ?thesis using cow_turn_ok[OF K k f cow_turn(2,3)] f' by auto
  qed
  then show ?thesis by (simp add: pit_inv_def)
qed (simp add: pit_inv_def)

interpretation snapshot: state_machine "pit_init D0" "pit_step K C B submit X" "\<lambda>s. kernel_ok K \<and> submit_ok submit \<longrightarrow> pit_inv X D0 s" for D0 K C B submit X
  by unfold_locales (use pit_init_inv pit_step_inv in blast)+

lemma pit_reachable:
  assumes "pit_init D0 s0" "(pit_step K C B submit X)\<^sup>*\<^sup>* s0 s" "kernel_ok K" "submit_ok submit"
  shows "pit_inv X D0 s"
  using snapshot.run_inv[OF assms(1,2)] assms(3,4) by simp

subsection \<open>Reads of the snapshot\<close>

text \<open>Once the device has failed a turn ends reads with an error and gives captures back.\<close>

lemma failed_turn:
  assumes "sd_fail_code dev \<noteq> 0"
  shows "\<exists>f' dev' h' w' cow'. snap_cow_thread K submit D f dev h w cow = Some (f', dev', h', w', cow') \<and>
    (ended h' = ended h \<or> (\<exists>b. ended h' = ended h @ [(b, - EIO)]))"
proof -
  have "fst (thread_fail_check K f dev w cow)"
    using assms by (simp add: thread_fail_check_def tracer_read_fail_state_def Let_def case_prod_unfold split: option.split)
  then obtain w1 cow1 where c: "thread_fail_check K f dev w cow = (True, w1, cow1)" by (metis (full_types) prod.collapse)
  obtain b ys where d: "delay_dequeue (bios h) (sd_cow_bios dev) = (b, ys)" by fastforce
  show ?thesis using c d by (auto simp: snap_cow_thread_def Let_def bio_free_clone_def moocbt_bio_endio_def)
qed

lemma turn_reads:
  assumes K: "kernel_ok K" "submit_ok submit" and k: "pit_ok X D0 s cm" and f: "sd_fail_code (pt_dev s) = 0"
  shows "\<exists>f' dev h w cow. snap_cow_thread K submit (pt_disk s) (pt_failed s) (pt_dev s) (pt_heap s) (pt_world s) (pt_cow s) = Some (f', dev, h, w, cow) \<and>
    (\<forall>r. ended h = ended (pt_heap s) @ [(r, 0)] \<longrightarrow> (\<forall>pg x y. seg_addr (bi_io_vec (bios (pt_heap s) r)) (bi_sector (bios (pt_heap s) r) * 512) pg x = Some y \<longrightarrow>
       y div 4096 \<notin> X \<longrightarrow> pages_of h pg x = D0 y))"
proof -
  have u: "snap_cow_thread K submit (pt_disk s) (pt_failed s) (pt_dev s) (pt_heap s) (pt_world s) (pt_cow s) =
      snap_cow_thread K submit (pt_disk s) False (pt_dev s) (pt_heap s) (pt_world s) (Some cm)" using pit_okD(4,5)[OF k] by simp
  obtain base where base: "sd_base_dev (pt_dev s) = Some base" using pit_okD(8)[OF k] by auto
  obtain t ys where d: "delay_dequeue (bios (pt_heap s)) (sd_cow_bios (pt_dev s)) = (t, ys)" by fastforce
  consider (none) "sd_cow_bios (pt_dev s) = []" | (capture) "sd_cow_bios (pt_dev s) \<noteq> []" "bio_data_dir (bios (pt_heap s) t)"
    | (read) "sd_cow_bios (pt_dev s) \<noteq> []" "\<not> bio_data_dir (bios (pt_heap s) t)" by blast
  then show ?thesis
  proof cases
    case none
    then show ?thesis unfolding u using f by (simp add: snap_cow_thread_def thread_fail_check_def tracer_read_fail_state_def) blast
  next
    case capture
    obtain ret w' cm' where "snap_handle_write_bio K (bios (pt_heap s) t) (pages_of (pt_heap s)) (pt_world s) cm = Some (ret, w', cm')"
      using turn_write_ok[OF K(1) k d capture] by blast
    from turn_write_eq[OF f capture(1) d capture(2) this] show ?thesis unfolding u by (simp add: bio_free_clone_def) blast
  next
    case read
    obtain ret b' P' w' cm' where
      hr: "snap_handle_read_bio K submit base (pt_disk s) (bios (pt_heap s) t) (pages_of (pt_heap s)) (pt_world s) cm = Some (ret, b', P', w', cm')"
      and P: "\<forall>pg x y. ret = 0 \<longrightarrow> seg_addr (bi_io_vec (bios (pt_heap s) t)) (bi_sector (bios (pt_heap s) t) * 512) pg x = Some y \<longrightarrow> y div 4096 \<notin> X \<longrightarrow> P' pg x = D0 y"
      using turn_read_ok[OF K k d read] by metis
    from turn_read_eq[OF f read(1) d read(2) base hr] show ?thesis unfolding u using P by (cases "ret = 0") (simp_all add: moocbt_bio_endio_def, blast+)
  qed
qed

text \<open>
  C36. A snapshot is the device at a point in time. Take a snapshot of content \<open>D0\<close> and let writes to the device, reads of the snapshot, the layer
  below and the threads of the driver run in any order, under the hypotheses that turns of the COW thread are not interleaved with other steps and
  that a capture does not overtake an earlier capture of one of its blocks. Then the next turn of the COW
  thread returns, and when it ends a read of the snapshot with success, every byte of the request is the byte the device had when the
  snapshot was taken, whatever was written since, except in the blocks \<open>X\<close> of the COW file itself.
\<close>

theorem snapshot_read_point_in_time:
  assumes "kernel_ok K" "submit_ok submit" "pit_init D0 s0" "(pit_step K C B submit X)\<^sup>*\<^sup>* s0 s"
  shows "\<exists>f' dev h w cow. snap_cow_thread K submit (pt_disk s) (pt_failed s) (pt_dev s) (pt_heap s) (pt_world s) (pt_cow s) = Some (f', dev, h, w, cow) \<and>
    (\<forall>r. ended h = ended (pt_heap s) @ [(r, 0)] \<longrightarrow> (\<forall>pg x y. seg_addr (bi_io_vec (bios (pt_heap s) r)) (bi_sector (bios (pt_heap s) r) * 512) pg x = Some y \<longrightarrow>
       y div 4096 \<notin> X \<longrightarrow> pages_of h pg x = D0 y))"
proof (cases "sd_fail_code (pt_dev s) = 0")
  case True
  then obtain cm where "pit_ok X D0 s cm" using pit_reachable[OF assms(3,4,1,2)] by (auto simp: pit_inv_def)
  then show ?thesis by (rule turn_reads[OF assms(1,2) _ True])
next
  case False
  from failed_turn[OF this, of K submit "pt_disk s" "pt_failed s" "pt_heap s" "pt_world s" "pt_cow s"] show ?thesis by fastforce
qed

text \<open>A snapshot of a device full of sevens on the sample machine, and a read of its block 3.\<close>

definition sample_pit :: pit where
  "sample_pit = \<lparr>pt_dev = sample_dev, pt_heap = sample_bheap, pt_world = ram_world, pt_cow = Some sample_cow, pt_failed = False,
     pt_disk = (\<lambda>_. 7), pt_read = {}\<rparr>"

lemma sample_pit_init: "pit_init (\<lambda>_. 7) sample_pit"
  by (simp add: pit_init_def sample_pit_def sample_cow_inv sample_cow_saved) (simp add: sample_dev_def sample_bheap_def)

definition asked_pit :: pit where
  "asked_pit = sample_pit\<lparr>pt_dev := sample_dev\<lparr>sd_cow_bios := [1]\<rparr>, pt_heap := arrives (page_bio REQ_OP_READ 3 0) 2 sample_bheap\<rparr>"

lemma asked_step: "pit_step ram_kernel sample_config sample_blk ram_submit {} sample_pit asked_pit"
proof -
  have a: "test_bit 1 (sd_state sample_dev)" by (simp add: sample_dev_def test_bit_def bit_numeral_rec)
  have m: "snap_mrf (fresh (pt_heap sample_pit)) (pt_dev sample_pit) (arrives (page_bio REQ_OP_READ 3 0) 2 (pt_heap sample_pit)) =
      (sample_dev\<lparr>sd_cow_bios := [1]\<rparr>, arrives (page_bio REQ_OP_READ 3 0) 2 sample_bheap)"
    using a by (simp add: snap_mrf_def sample_pit_def bio_data_dir_def tracer_read_fail_state_def)
      (simp add: sample_dev_def sample_bheap_def page_bio_def arrives_def)
  show ?thesis unfolding asked_pit_def
    by (rule pit_step.snap_request[OF _ page_bio_fresh[of REQ_OP_READ 3 0] _ _ m])
      (simp_all add: sample_pit_def sample_bheap_def sample_dev_def page_bio_def bio_pages_def flying_def)
qed

lemma sample_mode: "snap_read_bio_get_mode ram_kernel ((page_bio REQ_OP_READ 3 0)\<lparr>bi_bdev := 0, bi_op := REQ_OP_READ, bi_passthrough := False\<rparr>) ram_world sample_cow =
   Some (0, READ_MODE_BASE_DEVICE, ram_world, sample_cow\<lparr>sects := Some [\<lparr>has_data = False, usage = 1, mappings = None\<rparr>]\<rparr>)"
  by (simp add: snap_read_bio_get_mode_def bio_segments_def page_bio_def Let_def get_mode_seg.simps cow_read_mapping_def sample_cow_def sect_at_def put_sect_def)

lemma asked_turn:
  "\<exists>dev h w cow. snap_cow_thread ram_kernel ram_submit (\<lambda>_. 7) False (sample_dev\<lparr>sd_cow_bios := [1]\<rparr>) (arrives (page_bio REQ_OP_READ 3 0) 2 sample_bheap)
      ram_world (Some sample_cow) = Some (False, dev, h, w, cow) \<and> ended h = [(1, 0)]"
proof -
  obtain b P w cm where "snap_handle_read_bio ram_kernel ram_submit 0 (\<lambda>_. 7) (page_bio REQ_OP_READ 3 0) (pages_of sample_bheap) ram_world sample_cow = Some (0, b, P, w, cm)"
    by (simp add: snap_handle_read_bio_def sample_mode ram_submit_def Let_def)
  then show ?thesis
    by (simp add: snap_cow_thread_def thread_fail_check_def tracer_read_fail_state_def sample_dev_def delay_dequeue_def Let_def moocbt_bio_endio_def arrives_def)
     (simp add: sample_bheap_def bio_data_dir_def page_bio_def)
qed

theorem snapshot_read_point_in_time_witness:
  "\<exists>dev h w cow. snap_cow_thread ram_kernel ram_submit (\<lambda>_. 7) False (sample_dev\<lparr>sd_cow_bios := [1]\<rparr>) (arrives (page_bio REQ_OP_READ 3 0) 2 sample_bheap)
      ram_world (Some sample_cow) = Some (False, dev, h, w, cow) \<and> ended h = [(1, 0)] \<and> pages_of h 0 5 = 7"
proof -
  obtain dev h w cow where t: "snap_cow_thread ram_kernel ram_submit (\<lambda>_. 7) False (sample_dev\<lparr>sd_cow_bios := [1]\<rparr>)
      (arrives (page_bio REQ_OP_READ 3 0) 2 sample_bheap) ram_world (Some sample_cow) = Some (False, dev, h, w, cow)" "ended h = [(1, 0)]"
    using asked_turn by blast
  have "ended (arrives (page_bio REQ_OP_READ 3 0) 2 sample_bheap) = []" "fresh sample_bheap = 1" by (simp_all add: arrives_def sample_bheap_def)
  then have "pages_of h 0 5 = 7"
    using snapshot_read_point_in_time[OF ram_kernel_ok ram_submit_ok sample_pit_init r_into_rtranclp, of "sample_config" sample_blk "{}" asked_pit] asked_step t
    by (fastforce simp: asked_pit_def sample_pit_def page_bio_def arrives_def)
  then show ?thesis using t by blast
qed

subsection \<open>Captures out of order\<close>

text \<open>A turn that takes a capture: the blocks it holds are saved where they had no copy.\<close>

lemma turn_capture:
  assumes K: "kernel_ok K" "snap_inv w cm" "sd_fail_code dev = 0" "sd_cow_bios dev \<noteq> []" "queued_ok (capacity cm) h t"
    and d: "delay_dequeue (bios h) (sd_cow_bios dev) = (t, ys)" "bio_data_dir (bios h t)"
  obtains (ok) w' cm' where "snap_cow_thread K submit D False dev h w (Some cm) = Some (False, dev\<lparr>sd_cow_bios := ys\<rparr>, bio_free_clone t h, w', Some cm')"
      "snap_inv w' cm'" "capacity cm' = capacity cm" "cow_saved w' cm' = capture_of (pages_of h) (bios h t) ++ cow_saved w cm"
  | (fail) dev' h' w' cow' where "snap_cow_thread K submit D False dev h w (Some cm) = Some (False, dev', h', w', cow')" "sd_fail_code dev' \<noteq> 0"
proof -
  have v: "\<forall>v \<in> set (bi_io_vec (bios h t)). bv_len v = 4096" "SECTOR_TO_BLOCK (bi_sector (bios h t)) + length (bi_io_vec (bios h t)) \<le> capacity cm"
    using K(5) d(2) by (auto simp: queued_ok_def new_pages_def SECTOR_TO_BLOCK_def)
  obtain ret w' cm' where hw: "snap_handle_write_bio K (bios h t) (pages_of h) w cm = Some (ret, w', cm')" "capacity cm' = capacity cm"
    "ret = 0 \<longrightarrow> snap_inv w' cm' \<and> cow_saved w' cm' = capture_of (pages_of h) (bios h t) ++ cow_saved w cm"
    using write_bio_bvecs_ok[OF K(1,2) v, of "pages_of h"] by (auto simp: snap_handle_write_bio_def capture_of_def)
  note e = turn_write_eq[OF K(3,4) d hw(1), of submit D]
  show thesis
  proof (cases "ret = 0")
    case True
    then show thesis using ok[of w' cm'] hw(2,3) e by simp
  next
    case False
    then show thesis using K(3) by (intro fail[OF e]) (simp add: tracer_set_fail_state_def)
  qed
qed

text \<open>
  C37. A later capture can win. When the queue of the COW thread holds a read of the snapshot, then a capture that does not
  overlap the read, then a capture of the same block that does, two turns of the thread that do not fail the device save the later
  capture of the block and drop the earlier one. When the first write of the block was performed before the second was
  captured, what is saved is not what the block held when the snapshot was taken.
\<close>

theorem overtaking_capture_wins:
  assumes "kernel_ok K" "snap_inv w cm" "sd_fail_code dev = 0" "sd_cow_bios dev = [r, c1, c2]"
    and "\<not> bio_data_dir (bios h r)" "bio_data_dir (bios h c1)" "bio_data_dir (bios h c2)"
    and "\<not> bio_overlap (bios h r) (bios h c1)" "bio_overlap (bios h r) (bios h c2)"
    and "queued_ok (capacity cm) h c1" "queued_ok (capacity cm) h c2"
    and "capture_of (pages_of h) (bios h c1) b = Some v1" "capture_of (pages_of h) (bios h c2) b = Some v2" "cow_saved w cm b = None"
  shows "\<exists>f' dev' h' w' cow'. cow_run K submit D 2 (False, dev, h, w, Some cm) = Some (f', dev', h', w', cow') \<and>
    (sd_fail_code dev' = 0 \<longrightarrow> (\<exists>cm'. cow' = Some cm' \<and> cow_saved w' cm' b = Some v2 \<and> sd_cow_bios dev' = [r]))"
proof -
  have d1: "delay_dequeue (bios h) (sd_cow_bios dev) = (c2, [c1, r])" using assms(4-9) by (simp add: delay_dequeue_def)
  have two: "cow_run K submit D 2 st = cow_run K submit D (Suc 1) st" for st by (simp add: numeral_2_eq_2)
  have ne: "sd_cow_bios dev \<noteq> []" using assms(4) by simp
  from assms(1-3) ne assms(11) d1 assms(7) show ?thesis
  proof (cases rule: turn_capture[where submit = submit and D = D])
    case (ok w1 cm1)
    let ?dev = "dev\<lparr>sd_cow_bios := [c1, r]\<rparr>" and ?h = "bio_free_clone c2 h"
    have s1: "cow_saved w1 cm1 b = Some v2" using ok(4) assms(13,14) by (simp add: map_add_def)
    have q: "queued_ok (capacity cm1) ?h c1" "bio_data_dir (bios ?h c1)" "sd_fail_code ?dev = 0" "sd_cow_bios ?dev \<noteq> []"
      using assms(3,6,10) ok(3) by (simp_all add: bio_free_clone_def queued_ok_def)
    have d2: "delay_dequeue (bios ?h) (sd_cow_bios ?dev) = (c1, [r])" using q(2) by (simp add: delay_dequeue_def)
    from assms(1) ok(2) q(3,4,1) d2 q(2) show ?thesis
    proof (cases rule: turn_capture[where submit = submit and D = D])
      case second: (ok w2 cm2)
      show ?thesis unfolding two using ok(1) second(1,4) s1 by (simp add: map_add_def) blast
    next
      case (fail dev' h' w' cow')
      then show ?thesis unfolding two using ok(1) by auto
    qed
  next
    case (fail dev' h' w' cow')
    obtain f2 dev2 h2 w2 cow2 where t: "snap_cow_thread K submit D False dev' h' w' cow' = Some (f2, dev2, h2, w2, cow2)"
      using failed_turn[OF fail(2)] by blast
    then have "sd_fail_code dev2 \<noteq> 0" using snap_cow_thread_sticky fail(2) by blast
    then show ?thesis unfolding two using fail(1) t by auto
  qed
qed

text \<open>A read of block 3, a capture of block 1 full of ones, and a later capture of blocks 1 and 2 full of twos.\<close>

definition race_heap :: bheap where
  "race_heap = sample_bheap\<lparr>fresh := 9, pages_of := (\<lambda>pg _. of_nat pg),
     bios := (\<lambda>_. page_bio REQ_OP_READ 3 0)(1 := page_bio REQ_OP_WRITE 1 1, 2 := (page_bio REQ_OP_WRITE 1 2)\<lparr>bi_size := 8192,
       bi_io_vec := [\<lparr>bv_page = 2, bv_offset = 0, bv_len = PAGE_SIZE\<rparr>, \<lparr>bv_page = 3, bv_offset = 0, bv_len = PAGE_SIZE\<rparr>]\<rparr>)\<rparr>"

lemma race_heap_simps:
  "\<not> bio_data_dir (bios race_heap 0)" "bio_data_dir (bios race_heap 1)" "bio_data_dir (bios race_heap 2)"
  "\<not> bio_overlap (bios race_heap 0) (bios race_heap 1)" "bio_overlap (bios race_heap 0) (bios race_heap 2)"
  "queued_ok 4096 race_heap 1" "queued_ok 4096 race_heap 2"
  "capture_of (pages_of race_heap) (bios race_heap 1) 1 = Some (block_of (\<lambda>_. 1))"
  "capture_of (pages_of race_heap) (bios race_heap 2) 1 = Some (block_of (\<lambda>_. 2))"
  by (simp_all add: race_heap_def page_bio_def bio_data_dir_def bio_overlap_def queued_ok_def new_pages_def vec_bytes_def capture_of_def SECTOR_TO_BLOCK_def)

theorem overtaking_capture_wins_witness:
  "\<exists>f' dev' h' w' cow'. cow_run ram_kernel ram_submit (\<lambda>_. 0) 2 (False, sample_dev\<lparr>sd_cow_bios := [0, 1, 2]\<rparr>, race_heap, ram_world, Some sample_cow) = Some (f', dev', h', w', cow') \<and>
    (sd_fail_code dev' = 0 \<longrightarrow> (\<exists>cm'. cow' = Some cm' \<and> cow_saved w' cm' 1 = Some (block_of (\<lambda>_. 2)) \<and> sd_cow_bios dev' = [0]))"
  by (rule overtaking_capture_wins[OF ram_kernel_ok sample_cow_inv(2) _ _ race_heap_simps(1-5) _ _ race_heap_simps(8,9)];
    (simp only: sample_cow_inv(3) race_heap_simps)?; simp add: sample_cow_saved sample_dev_def)

subsection \<open>Held writes\<close>

text \<open>
  C38. A held write is released by the last of its clones. As long as the device has not failed, the parameters that hold a write have as many
  references as the write has clones on their way, and at least one; the completion of any of them, with success or with an error, returns, and when it is the last one the
  parameters are gone and the write is in the queue of the thread that submits it.
\<close>

theorem held_write_is_released:
  assumes "kernel_ok K" "submit_ok submit" "pit_init D0 s0" "(pit_step K C B submit X)\<^sup>*\<^sup>* s0 s"
    and "sd_fail_code (pt_dev s) = 0" "tps (pt_heap s) tp = Some p" "cs = {c \<in> set (flying (pt_dev s) (pt_heap s)). bi_private (bios (pt_heap s) c) = tp}"
  shows "cs \<noteq> {} \<and> tp_refs p = int (card cs) \<and>
    (\<forall>c \<in> cs. \<forall>err. \<exists>dev h. on_bio_read_complete c err (pt_dev s) (pt_heap s) = Some (dev, h) \<and>
       (card cs = 1 \<longrightarrow> tps h tp = None \<and> tp_orig_bio p \<in> set (sd_orig_bios dev)))"
proof -
  obtain cm where k: "pit_ok X D0 s cm" using pit_reachable[OF assms(3,4,1,2)] assms(5) by (auto simp: pit_inv_def)
  have h: "tp_refs p = int (card cs)" "0 < tp_refs p" using traffic_okD(7)[OF pit_okD(1)[OF k] assms(6)] by (simp_all add: held_ok_def assms(7))
  moreover have "\<exists>dev h. on_bio_read_complete c err (pt_dev s) (pt_heap s) = Some (dev, h) \<and>
       (card cs = 1 \<longrightarrow> tps h tp = None \<and> tp_orig_bio p \<in> set (sd_orig_bios dev))" if "c \<in> cs" for c err
    using that assms(6,7) h by (cases "card cs = 1") (auto simp: on_bio_read_complete_def tp_put_def bio_free_clone_def Let_def)
  ultimately show ?thesis by auto
qed

text \<open>A write of block 3 of the sample snapshot.\<close>

lemma written_step:
  "\<exists>s p. pit_step ram_kernel sample_config sample_blk ram_submit {} sample_pit s \<and> sd_fail_code (pt_dev s) = 0 \<and> tps (pt_heap s) 2 = Some p \<and> tp_orig_bio p = 1"
proof -
  let ?b = "page_bio REQ_OP_WRITE 3 0"
  let ?ha = "arrives ?b 2 sample_bheap"
  let ?h = "?ha\<lparr>fresh := 3, bclock := 1, tps := [2 \<mapsto> \<lparr>tp_orig_bio = 1, tp_refs = 1, tp_bio_sects = []\<rparr>]\<rparr>"
  have nc: "bio_needs_cow sample_blk ?b (sd_cow_inode sample_dev)"
    using sample_needs_cow by (simp add: sample_bheap_def)
  obtain dev1 h1 p where cl: "clone_loop sample_config sample_blk 2 1 24 1 sample_dev ?h = Some (0, None, dev1, h1)"
    and 1: "tps h1 2 = Some p" "tp_refs p = 2" "sd_fail_code dev1 = 0" "tp_orig_bio p = 1"
    by (subst (asm) clone_loop.simps)
      (simp add: bio_make_read_clone_def tp_get_def tp_add_def btick_def submit_real_def vec_bytes_def sample_dev_def sample_bheap_def page_bio_def arrives_def)
  have c: "bios ?ha (Suc 0) = ?b" "sd_sect_off sample_dev = 0" "sd_fail_code sample_dev = 0" "bi_sector ?b = 24" "bi_size ?b = 4096"
    by (simp_all add: arrives_def sample_bheap_def sample_dev_def page_bio_def)
  have "tp_alloc sample_blk 1 ?ha = (0, Some 2, ?h)" by (simp add: tp_alloc_def btick_def Let_def) (simp add: sample_bheap_def arrives_def)
  then obtain dev h where t: "snap_trace_bio sample_config sample_blk 1 sample_dev ?ha = Some (0, dev, h)" "sd_fail_code dev = 0"
    "tps h 2 = Some (p\<lparr>tp_refs := 1\<rparr>)"
    using nc cl 1 c by (simp add: snap_trace_bio_def tracer_read_fail_state_def tp_put_def ROUND_DOWN_def ROUND_UP_def Let_def)
  have "pit_step ram_kernel sample_config sample_blk ram_submit {} sample_pit
      (sample_pit\<lparr>pt_dev := dev, pt_heap := (if USE_HOOK_TRACER sample_config \<and> (0::int) = 0 then submit_real (fresh (pt_heap sample_pit)) h else h)\<rparr>)"
    by (rule pit_step.app_write[where f = 2 and b = ?b])
      (use nc t(1) in \<open>simp_all add: sample_pit_def\<close>, simp_all add: sample_bheap_def sample_dev_def page_bio_def tracer_should_trace_bio_def bio_is_discard_def
         bio_data_dir_def tracer_read_fail_state_def tracer_sector_matches_bio_def)
  then show ?thesis using t(2,3) 1(4) by fastforce
qed

theorem held_write_is_released_witness:
  "\<exists>s p. pit_step ram_kernel sample_config sample_blk ram_submit {} sample_pit s \<and> tps (pt_heap s) 2 = Some p \<and> tp_orig_bio p = 1 \<and>
     {c \<in> set (flying (pt_dev s) (pt_heap s)). bi_private (bios (pt_heap s) c) = 2} \<noteq> {}"
proof -
  obtain s p where s: "pit_step ram_kernel sample_config sample_blk ram_submit {} sample_pit s" "sd_fail_code (pt_dev s) = 0" "tps (pt_heap s) 2 = Some p" "tp_orig_bio p = 1"
    using written_step by blast
  from held_write_is_released[OF ram_kernel_ok ram_submit_ok sample_pit_init r_into_rtranclp[of "pit_step ram_kernel sample_config sample_blk ram_submit {}", OF s(1)] s(2,3) refl] s
  show ?thesis by blast
qed

end
