(* ===== verification/Incremental.thy ===== *)
theory Incremental
  imports Inc_Tracing Pit_Theorems Update_Img
begin

text \<open>
  An incremental at work: writes arrive and are let through, the layer below performs them, and the thread marks their blocks, in any order. The
  invariant says that every block whose content changed since the incremental began is marked or will be.
\<close>

subsection \<open>The system\<close>

text \<open>
  The state is that of a snapshot at work. A write lies within the device, and the part of it that comes from the pages of the COW
  file touches only the blocks \<open>X\<close> of that file.
\<close>

definition foreign_blocks :: "blk \<Rightarrow> snap_device \<Rightarrow> bio \<Rightarrow> nat set" where
  "foreign_blocks B dev b = (\<lambda>s. SECTOR_TO_BLOCK (s - sd_sect_off dev)) ` bio_foreign B (sd_cow_inode dev) b"

inductive inc_step :: "kernel \<Rightarrow> config \<Rightarrow> blk \<Rightarrow> nat set \<Rightarrow> pit \<Rightarrow> pit \<Rightarrow> bool" for K C B X where
  app_write: "fresh (pt_heap s) < f \<Longrightarrow> tracer_should_trace_bio (Some (pt_dev s)) b \<Longrightarrow> 512 dvd bi_size b \<Longrightarrow>
    bio_foreign B (sd_cow_inode (pt_dev s)) b \<subseteq> {..<sd_sect_off (pt_dev s) + sd_size (pt_dev s)} \<Longrightarrow>
    touched (sd_sect_off (pt_dev s)) b \<subseteq> X \<union> foreign_blocks B (pt_dev s) b \<Longrightarrow>
    inc_trace_bio C B (fresh (pt_heap s)) (pt_dev s) (arrives b f (pt_heap s)) = (ret, dev, h) \<Longrightarrow>
    inc_step K C B X s (s\<lparr>pt_dev := dev, pt_heap := (if USE_HOOK_TRACER C then submit_real (fresh (pt_heap s)) h else h)\<rparr>)"
| device_write: "w \<in> set (submitted (pt_heap s)) \<Longrightarrow>
    (\<And>a. D a \<noteq> pt_disk s a \<Longrightarrow> a div 4096 \<in> touched (sd_sect_off (pt_dev s)) (bios (pt_heap s) w)) \<Longrightarrow>
    inc_step K C B X s (s\<lparr>pt_disk := D\<rparr>)"
| written: "inc_step K C B X s (s\<lparr>pt_heap := (pt_heap s)\<lparr>submitted := remove1 w (submitted (pt_heap s))\<rparr>\<rparr>)"
| sset_turn: "inc_sset_thread K (pt_failed s) (pt_dev s) (pt_world s) (pt_cow s) = Some (failed, dev, w, cow) \<Longrightarrow>
    inc_step K C B X s (s\<lparr>pt_failed := failed, pt_dev := dev, pt_world := w, pt_cow := cow\<rparr>)"

text \<open>An incremental that has just begun, when the device held \<open>D0\<close>, with manager \<open>cm0\<close>.\<close>

definition inc_init :: "buf \<Rightarrow> world \<Rightarrow> cow_manager \<Rightarrow> pit \<Rightarrow> bool" where
  "inc_init D0 w0 cm0 s \<longleftrightarrow> pt_disk s = D0 \<and> \<not> pt_failed s \<and> sd_fail_code (pt_dev s) = 0 \<and> sd_pending_ssets (pt_dev s) = [] \<and>
     submitted (pt_heap s) = [] \<and> pt_world s = w0 \<and> pt_cow s = Some cm0 \<and> cow_wf cm0 \<and>
     NUM_SEGMENTS (sd_size (pt_dev s)) 3 \<le> capacity cm0"

subsection \<open>The invariant\<close>

definition dirty :: "pit \<Rightarrow> cow_manager \<Rightarrow> nat set" where
  "dirty s cm = sset_blocks (sd_pending_ssets (pt_dev s)) \<union> {b. cow_map (pt_world s) cm b \<noteq> 0}"

definition inc_ok :: "nat set \<Rightarrow> buf \<Rightarrow> world \<Rightarrow> cow_manager \<Rightarrow> pit \<Rightarrow> cow_manager \<Rightarrow> bool" where
  "inc_ok X D0 w0 cm0 s cm \<longleftrightarrow> \<not> pt_failed s \<and> pt_cow s = Some cm \<and> cow_wf cm \<and> same_file w0 cm0 (pt_world s) cm \<and>
     capacity cm = capacity cm0 \<and> NUM_SEGMENTS (sd_size (pt_dev s)) 3 \<le> capacity cm \<and>
     (\<forall>ss \<in> set (sd_pending_ssets (pt_dev s)). 0 < ss_len ss \<and> ss_sect ss + ss_len ss \<le> sd_size (pt_dev s)) \<and>
     (\<forall>c \<in> set (submitted (pt_heap s)). c < fresh (pt_heap s) \<and> touched (sd_sect_off (pt_dev s)) (bios (pt_heap s) c) \<subseteq> X \<union> dirty s cm) \<and>
     (\<forall>b. blk_of (pt_disk s) b \<noteq> blk_of D0 b \<longrightarrow> b \<in> X \<union> dirty s cm)"

definition inc_inv :: "nat set \<Rightarrow> buf \<Rightarrow> world \<Rightarrow> cow_manager \<Rightarrow> pit \<Rightarrow> bool" where
  "inc_inv X D0 w0 cm0 s \<longleftrightarrow> sd_fail_code (pt_dev s) = 0 \<longrightarrow> (\<exists>cm. inc_ok X D0 w0 cm0 s cm)"

lemma inc_init_inv: "inc_init D0 w0 cm0 s \<Longrightarrow> inc_inv X D0 w0 cm0 s"
  by (auto simp: inc_init_def inc_inv_def inc_ok_def)

lemma inc_okD:
  assumes "inc_ok X D0 w0 cm0 s cm"
  shows "\<not> pt_failed s" "pt_cow s = Some cm" "cow_wf cm" "same_file w0 cm0 (pt_world s) cm" "capacity cm = capacity cm0"
    "NUM_SEGMENTS (sd_size (pt_dev s)) 3 \<le> capacity cm"
    "ss \<in> set (sd_pending_ssets (pt_dev s)) \<Longrightarrow> 0 < ss_len ss \<and> ss_sect ss + ss_len ss \<le> sd_size (pt_dev s)"
    "c \<in> set (submitted (pt_heap s)) \<Longrightarrow> c < fresh (pt_heap s) \<and> touched (sd_sect_off (pt_dev s)) (bios (pt_heap s) c) \<subseteq> X \<union> dirty s cm"
    "blk_of (pt_disk s) b \<noteq> blk_of D0 b \<Longrightarrow> b \<in> X \<union> dirty s cm"
  using assms unfolding inc_ok_def by blast+

lemma blk_of_at: "blk_of D (x div 4096) = blk_of D' (x div 4096) \<Longrightarrow> D x = D' x"
  by (drule fun_cong[where x = "x mod 4096"]) (simp add: blk_of_def block_of_def)

lemma inc_device_write_ok:
  assumes k: "inc_ok X D0 w0 cm0 s cm" and w: "w \<in> set (submitted (pt_heap s))"
    and D: "\<And>a. D a \<noteq> pt_disk s a \<Longrightarrow> a div 4096 \<in> touched (sd_sect_off (pt_dev s)) (bios (pt_heap s) w)"
  shows "inc_ok X D0 w0 cm0 (s\<lparr>pt_disk := D\<rparr>) cm"
proof -
  have "b \<in> X \<union> dirty s cm" if "blk_of D b \<noteq> blk_of D0 b" for b
  proof (cases "b \<in> touched (sd_sect_off (pt_dev s)) (bios (pt_heap s) w)")
    case True
    then show ?thesis using inc_okD(8)[OF k w] by blast
  next
    case False
    then have "blk_of D b = blk_of (pt_disk s) b" by (intro blk_of_same[where S = "touched (sd_sect_off (pt_dev s)) (bios (pt_heap s) w)"] D)
    then show ?thesis using that by (intro inc_okD(9)[OF k]) simp
  qed
  then show ?thesis using k by (simp add: inc_ok_def dirty_def)
qed

text \<open>The sets a write adds lie within the device and their blocks are those of the write.\<close>

lemma added_ssets_new:
  assumes "added_ssets dev dev' S"
  obtains new where "dev' = dev\<lparr>sd_pending_ssets := sd_pending_ssets dev @ new\<rparr>" "added_ssets (dev\<lparr>sd_pending_ssets := []\<rparr>) (dev'\<lparr>sd_pending_ssets := new\<rparr>) S"
  using assms unfolding added_ssets_def by fastforce

lemma inc_make_sset_heap:
  "inc_make_sset B sect len dev h = (r, dev', h') \<Longrightarrow> submitted h' = submitted h \<and> bios h' = bios h \<and> fresh h' = fresh h"
  by (auto simp: inc_make_sset_def btick_def split: if_splits)

lemma inc_segments_heap:
  "inc_segments B vs ini st e dev h = (r, dev', h') \<Longrightarrow> submitted h' = submitted h \<and> bios h' = bios h \<and> fresh h' = fresh h"
proof (induction vs arbitrary: ini st e dev h)
  case Nil
  then show ?case using inc_make_sset_heap by (auto split: if_splits)
next
  case (Cons v vs)
  let ?t = "if ini \<and> e - st > 0 then inc_make_sset B st (e - st) dev h else (0, dev, h)"
  obtain r1 dev1 h1 where t: "?t = (r1, dev1, h1)" by (metis prod_cases3)
  have h1: "submitted h1 = submitted h \<and> bios h1 = bios h \<and> fresh h1 = fresh h"
    using t inc_make_sset_heap by (auto split: if_splits)
  show ?case
  proof (cases "page_get_inode B (Some (bv_page v)) \<noteq> sd_cow_inode dev")
    case True
    then show ?thesis using Cons.prems by (intro Cons.IH) simp
  next
    case False
    then show ?thesis using Cons.prems Cons.IH[of False st _ dev1 h1] h1 unfolding inc_segments.simps t by (auto split: if_splits)
  qed
qed

lemma inc_trace_bio_heap:
  assumes "inc_trace_bio C B w dev h = (r, dev', h')"
  shows "submitted h' = submitted h @ (if USE_HOOK_TRACER C then [] else [w])" "bios h' = bios h" "fresh h' = fresh h"
proof -
  let ?b = "bios h w"
  let ?t = "if bi_op ?b = REQ_OP_WRITE_ZEROES then inc_make_sset B (bi_sector ?b) (bi_size ?b div 512) dev h
    else inc_segments B (bio_segments ?b) False 0 (bi_sector ?b) dev h"
  obtain ret d1 h1 where t: "?t = (ret, d1, h1)" by (metis prod_cases3)
  have h1: "submitted h1 = submitted h \<and> bios h1 = bios h \<and> fresh h1 = fresh h"
    using t inc_make_sset_heap inc_segments_heap by (auto split: if_splits)
  moreover have "h' = (if USE_HOOK_TRACER C then h1 else submit_real w h1)" using assms t by (auto simp: inc_trace_bio_def Let_def)
  ultimately show "submitted h' = submitted h @ (if USE_HOOK_TRACER C then [] else [w])" "bios h' = bios h" "fresh h' = fresh h"
    by (auto simp: submit_real_def)
qed

lemma inc_app_write_ok:
  assumes k: "inc_ok X D0 w0 cm0 s cm" and f: "fresh (pt_heap s) < f" "tracer_should_trace_bio (Some (pt_dev s)) b" "512 dvd bi_size b"
      "bio_foreign B (sd_cow_inode (pt_dev s)) b \<subseteq> {..<sd_sect_off (pt_dev s) + sd_size (pt_dev s)}"
    and x: "touched (sd_sect_off (pt_dev s)) b \<subseteq> X \<union> foreign_blocks B (pt_dev s) b"
    and tr: "inc_trace_bio C B (fresh (pt_heap s)) (pt_dev s) (arrives b f (pt_heap s)) = (ret, dev, h)"
    and fc: "sd_fail_code (pt_dev s) = 0" "sd_fail_code dev = 0"
  shows "inc_ok X D0 w0 cm0 (s\<lparr>pt_dev := dev, pt_heap := (if USE_HOOK_TRACER C then submit_real (fresh (pt_heap s)) h else h)\<rparr>) cm"
proof -
  let ?w = "fresh (pt_heap s)" and ?h = "arrives b f (pt_heap s)"
  have sz: "512 \<le> bi_size b" "sd_sect_off (pt_dev s) \<le> bi_sector b"
    using f(2,3) by (auto simp: tracer_should_trace_bio_def tracer_sector_matches_bio_def dest: dvd_imp_le)
  have a: "added_ssets (pt_dev s) dev (bio_foreign B (sd_cow_inode (pt_dev s)) b)"
    using inc_trace_bio_ssets[OF tr _ fc] sz by simp
  obtain new where new: "dev = (pt_dev s)\<lparr>sd_pending_ssets := sd_pending_ssets (pt_dev s) @ new\<rparr>"
    and an: "added_ssets ((pt_dev s)\<lparr>sd_pending_ssets := []\<rparr>) (dev\<lparr>sd_pending_ssets := new\<rparr>) (bio_foreign B (sd_cow_inode (pt_dev s)) b)"
    by (rule added_ssets_new[OF a])
  have inside: "\<forall>ss \<in> set new. 0 < ss_len ss \<and> ss_sect ss + ss_len ss \<le> sd_size (pt_dev s)"
    using added_ssets_inside[OF an, of "sd_size (pt_dev s)"] f(4) by simp
  have blocks: "sset_blocks new = foreign_blocks B (pt_dev s) b" using sset_blocks_shift[OF an] by (simp add: foreign_blocks_def)
  let ?g = "if USE_HOOK_TRACER C then submit_real ?w h else h"
  have g: "submitted ?g = submitted (pt_heap s) @ [?w]" "bios ?g = bios ?h" "fresh ?g = f"
    using inc_trace_bio_heap[OF tr] by (auto simp: submit_real_def)
  let ?s = "s\<lparr>pt_dev := dev, pt_heap := ?g\<rparr>"
  have d: "dirty ?s cm = dirty s cm \<union> foreign_blocks B (pt_dev s) b" using blocks by (auto simp: dirty_def new sset_blocks_def)
  have "c < fresh ?g \<and> touched (sd_sect_off (pt_dev s)) (bios ?g c) \<subseteq> X \<union> dirty ?s cm" if "c \<in> set (submitted ?g)" for c
  proof (cases "c = ?w")
    case True
    then show ?thesis using x f(1) d g by auto
  next
    case False
    then have "c < ?w \<and> touched (sd_sect_off (pt_dev s)) (bios (pt_heap s) c) \<subseteq> X \<union> dirty s cm" using that g(1) inc_okD(8)[OF k, of c] by auto
    then show ?thesis using False f(1) d g by auto
  qed
  then show ?thesis using inc_okD[OF k] d inside by (auto simp: inc_ok_def new)
qed

lemma inc_written_ok: "inc_ok X D0 w0 cm0 s cm \<Longrightarrow>
    inc_ok X D0 w0 cm0 (s\<lparr>pt_heap := (pt_heap s)\<lparr>submitted := remove1 w (submitted (pt_heap s))\<rparr>\<rparr>) cm"
  by (auto simp: inc_ok_def dirty_def dest: notin_set_remove1)

text \<open>A turn of the thread moves the blocks of one sector set from the queue into the index.\<close>

lemma inc_turn_empty: "sd_fail_code dev = 0 \<Longrightarrow> sd_pending_ssets dev = [] \<Longrightarrow> inc_sset_thread K False dev w cow = Some (False, dev, w, cow)"
  by (simp add: inc_sset_thread_def thread_fail_check_def tracer_read_fail_state_def)

lemma inc_sset_turn_ok:
  assumes K: "kernel_ok K" and k: "inc_ok X D0 w0 cm0 s cm" and f: "sd_fail_code (pt_dev s) = 0" "sd_fail_code dev = 0"
    and t: "inc_sset_thread K (pt_failed s) (pt_dev s) (pt_world s) (pt_cow s) = Some (failed, dev, w, cow)"
  shows "\<exists>cm'. inc_ok X D0 w0 cm0 (s\<lparr>pt_failed := failed, pt_dev := dev, pt_world := w, pt_cow := cow\<rparr>) cm'"
proof (cases "sd_pending_ssets (pt_dev s)")
  case Nil
  then have "s\<lparr>pt_failed := failed, pt_dev := dev, pt_world := w, pt_cow := cow\<rparr> = s"
    using t inc_okD(1,2)[OF k] inc_turn_empty[OF f(1) Nil, of K "pt_world s" "pt_cow s"] by simp
  then show ?thesis using k by auto
next
  case (Cons ss rest)
  let ?d = "(pt_dev s)\<lparr>sd_pending_ssets := rest\<rparr>"
  have l: "0 < ss_len ss" "ss_sect ss + ss_len ss \<le> sd_size (pt_dev s)" using inc_okD(7)[OF k, of ss] Cons by auto
  have n: "NUM_SEGMENTS (ss_sect ss + ss_len ss) 3 \<le> capacity cm"
    using inc_okD(6)[OF k] NUM_SEGMENTS_mono[OF l(2)] by (rule order_trans[rotated])
  obtain ret w1 cm1 where u: "inc_sset_thread K False (pt_dev s) (pt_world s) (Some cm) = Some (False, if ret \<noteq> 0 then tracer_set_fail_state ret ?d else ?d, w1, Some cm1)"
    and cap: "capacity cm1 = capacity cm" and ok: "ret = 0 \<Longrightarrow> cow_wf cm1 \<and> same_file (pt_world s) cm w1 cm1 \<and>
       (\<forall>b. cow_map w1 cm1 b = (if b \<in> sset_blocks [ss] then 1 else cow_map (pt_world s) cm b))"
    by (rule inc_turn[OF K inc_okD(3)[OF k] f(1) Cons l(1) n, where w = "pt_world s"]) (rule that)
  then have e: "\<not> failed" "dev = (if ret \<noteq> 0 then tracer_set_fail_state ret ?d else ?d)" "w = w1" "cow = Some cm1"
    using t inc_okD(1,2)[OF k] by auto
  have r: "ret = 0" using e(2) f(2) by (auto simp: tracer_set_fail_state_def split: if_splits)
  let ?s = "s\<lparr>pt_failed := failed, pt_dev := dev, pt_world := w, pt_cow := cow\<rparr>"
  have d: "dirty ?s cm1 = dirty s cm" using ok[OF r] e r Cons by (auto simp: dirty_def sset_blocks_def)
  have "same_file w0 cm0 w1 cm1" using inc_okD(4)[OF k] ok[OF r] by (auto intro: same_file_trans)
  then have "inc_ok X D0 w0 cm0 ?s cm1" using k ok[OF r] e r cap d Cons unfolding inc_ok_def d by simp
  then show ?thesis by blast
qed

subsection \<open>Every step\<close>

lemma inc_sset_thread_sticky:
  assumes "inc_sset_thread K f dev w cow = Some (f', dev', w', cow')" "sd_fail_code dev \<noteq> 0"
  shows "sd_fail_code dev' \<noteq> 0"
  using assms by (auto simp: inc_sset_thread_def thread_fail_check_def tracer_read_fail_state_def tracer_set_fail_state_def Let_def
    split: bind_splits if_splits option.splits prod.splits list.splits)

lemma inc_step_sticky:
  assumes "inc_step K C B X s s'" "sd_fail_code (pt_dev s) \<noteq> 0"
  shows "sd_fail_code (pt_dev s') \<noteq> 0"
  using assms(1)
proof cases
  case sset_turn
  then show ?thesis using inc_sset_thread_sticky assms(2) by auto
qed (use assms(2) in \<open>auto simp: tracer_should_trace_bio_def tracer_read_fail_state_def\<close>)

lemma inc_step_inv:
  assumes inv: "inc_inv X D0 w0 cm0 s" and st: "inc_step K C B X s s'" and K: "kernel_ok K"
  shows "inc_inv X D0 w0 cm0 s'"
proof (cases "sd_fail_code (pt_dev s') = 0")
  case f': True
  then have f: "sd_fail_code (pt_dev s) = 0" using inc_step_sticky[OF st] by blast
  then obtain cm where k: "inc_ok X D0 w0 cm0 s cm" using inv by (auto simp: inc_inv_def)
  from st have "\<exists>cm. inc_ok X D0 w0 cm0 s' cm"
  proof cases
    case app_write
    then show ?thesis using inc_app_write_ok[OF k app_write(2-7) f] f' by auto
  next
    case device_write
    then show ?thesis using inc_device_write_ok[OF k device_write(2)] by blast
  next
    case written
    then show ?thesis using inc_written_ok[OF k] by blast
  next
    case sset_turn
    then show ?thesis using inc_sset_turn_ok[OF K k f _ sset_turn(2)] f' by auto
  qed
  then show ?thesis by (simp add: inc_inv_def)
qed (simp add: inc_inv_def)

interpretation incremental: state_machine "inc_init D0 w0 cm0" "inc_step K C B X" "\<lambda>s. kernel_ok K \<longrightarrow> inc_inv X D0 w0 cm0 s" for D0 w0 cm0 K C B X
  by unfold_locales (use inc_init_inv inc_step_inv in blast)+

lemma inc_reachable:
  assumes "kernel_ok K" "inc_init D0 w0 cm0 s0" "(inc_step K C B X)\<^sup>*\<^sup>* s0 s" "sd_fail_code (pt_dev s) = 0"
  obtains cm where "inc_ok X D0 w0 cm0 s cm"
  using incremental.run_inv[OF assms(2,3)] assms(1,4) by (auto simp: inc_inv_def)

subsection \<open>Properties\<close>

text \<open>
  C39. An incremental misses no change. Let writes to the device arrive, the layer below perform them and the thread of the incremental take its turns, in any
  order, from the moment the device held \<open>D0\<close>. As long as the device has not failed, the COW manager is well formed, and every block outside the
  blocks \<open>X\<close> of the COW file whose content is not the one it had is marked in the index or belongs to a sector set that is still queued; in
  particular, once the queue is empty every changed block is marked.
\<close>

theorem incremental_marks_changes:
  assumes "kernel_ok K" "inc_init D0 w0 cm0 s0" "(inc_step K C B X)\<^sup>*\<^sup>* s0 s" "sd_fail_code (pt_dev s) = 0"
  shows "\<exists>cm. pt_cow s = Some cm \<and> cow_wf cm \<and> (\<forall>b. b \<notin> X \<longrightarrow> blk_of (pt_disk s) b \<noteq> blk_of D0 b \<longrightarrow>
    cow_map (pt_world s) cm b \<noteq> 0 \<or> b \<in> sset_blocks (sd_pending_ssets (pt_dev s)))"
proof -
  obtain cm where k: "inc_ok X D0 w0 cm0 s cm" by (rule inc_reachable[OF assms])
  have "cow_map (pt_world s) cm b \<noteq> 0 \<or> b \<in> sset_blocks (sd_pending_ssets (pt_dev s))" if "b \<notin> X" "blk_of (pt_disk s) b \<noteq> blk_of D0 b" for b
    using inc_okD(9)[OF k that(2)] that(1) by (simp add: dirty_def) blast
  then show ?thesis using inc_okD(2,3)[OF k] by blast
qed

text \<open>
  C40. An image follows the device. Let an incremental run as in C39 until its queue is empty and its COW file is written out, and let the next
  snapshot show the device as it is then. On a system where no call fails, \<^verbatim>\<open>update-img\<close>, given that COW file and that snapshot, turns an image of the device
  as it was when the incremental began into an image of the device as it is now: it ends with code zero, and every byte of a whole block outside the blocks \<open>X\<close> of the
  COW files is that of the device.
\<close>

theorem update_img_follows_incremental:
  assumes "kernel_ok K" "inc_init D0 w0 cm0 s0" "cow_zero w0 cm0" "length (uuid cm0) = COW_UUID_SIZE" "dfilp cm0 = Some d"
    and "(inc_step K C B X)\<^sup>*\<^sup>* s0 s" "sd_fail_code (pt_dev s) = 0" "sd_pending_ssets (pt_dev s) = []"
    and "pt_cow s = Some cm" "cow_sync_and_free K (pt_world s) cm = Some (0, w')"
    and "cow = \<lparr>uf_data = data_of w' (df_inode d), uf_size = n\<rparr>" "snap = \<lparr>uf_data = pt_disk s, uf_size = m\<rparr>"
    and "(m + COW_BLOCK_SIZE - 1) div COW_BLOCK_SIZE \<le> capacity cm0" "COW_HEADER_SIZE + SIZEOF_UINT64 * capacity cm0 \<le> n"
    and "steady U" "u_errno st = 0" "o_snap fs = None" "o_cow fs = None" "o_img fs = None" "o_realpath fs = Inr path" "scan_minor path = Some minor"
    and "verify_files U cow (info minor) st = (0, st1)" "u_img st = D0"
  shows "\<exists>count st'. update_img U fs info snap cow st = (0, count, 0, st') \<and>
    (\<forall>x. x div COW_BLOCK_SIZE < m div COW_BLOCK_SIZE \<longrightarrow> x div COW_BLOCK_SIZE \<notin> X \<longrightarrow> u_img st' x = pt_disk s x)"
proof -
  obtain cm' where "inc_ok X D0 w0 cm0 s cm'" by (rule inc_reachable[OF assms(1,2,6,7)])
  then have k: "inc_ok X D0 w0 cm0 s cm" using inc_okD(2) assms(9) by fastforce
  have sf: "cow_zero (pt_world s) cm" "length (uuid cm) = COW_UUID_SIZE" "map_option df_inode (dfilp cm) = Some (df_inode d)"
    using inc_okD(4)[OF k] assms(3-5) by (simp_all add: same_file_def)
  then obtain d' where d': "dfilp cm = Some d'" "df_inode d' = df_inode d" by auto
  have mk: "marked cow b \<longleftrightarrow> cow_map (pt_world s) cm b \<noteq> 0" if "b < capacity cm0" for b
    using cow_sync_and_free_ok(1)[OF assms(1) inc_okD(3)[OF k] sf(1,2) d'(1) assms(10)] that inc_okD(5)[OF k] d'(2) assms(11)
    by (simp add: holds_cow_def marked_def disk_index_def)
  have ch: "cow_map (pt_world s) cm b \<noteq> 0" if "b \<notin> X" "blk_of (pt_disk s) b \<noteq> blk_of D0 b" for b
    using inc_okD(9)[OF k that(2)] that(1) assms(8) by (simp add: dirty_def sset_blocks_def)
  have "u_errno st1 = 0" "u_img st1 = D0" using verify_files_keeps[OF assms(22)] assms(16,23) by auto
  moreover have "COW_HEADER_SIZE + SIZEOF_UINT64 * ((uf_size snap + COW_BLOCK_SIZE - 1) div COW_BLOCK_SIZE) \<le> uf_size cow"
    using assms(11-14) by simp
  ultimately obtain count st' where mg: "merge_blocks U snap cow st1 = (0, count, 0, st')"
    "u_img st' = merged (\<lambda>b. whole snap b \<and> marked cow b) (pt_disk s) D0"
    using merge_blocks_steady[OF assms(15), of st1 snap cow] assms(12) by auto
  have "u_img st' x = pt_disk s x" if x: "x div 4096 < m div 4096" "x div 4096 \<notin> X" for x
  proof (cases "marked cow (x div 4096)")
    case True
    then show ?thesis using mg(2) x(1) assms(12) by (simp add: merged_def whole_def)
  next
    case False
    have "x div 4096 < capacity cm0" using x(1) assms(13) by linarith
    then have "blk_of (pt_disk s) (x div 4096) = blk_of D0 (x div 4096)" using mk ch x(2) False by blast
    then have "pt_disk s x = D0 x" by (rule blk_of_at)
    then show ?thesis using mg(2) False by (simp add: merged_def)
  qed
  moreover have "update_img U fs info snap cow st = (0, count, 0, st')" using mg(1) assms(17-22) by (simp add: update_img_def)
  ultimately show ?thesis by blast
qed

text \<open>The sample incremental: a write of block 3 arrives, the layer below performs it, and the thread marks the block.\<close>

definition sample_inc :: pit where
  "sample_inc = sample_pit\<lparr>pt_dev := sample_dev\<lparr>sd_state := 2\<rparr>\<rparr>"

definition asked_inc :: pit where
  "asked_inc = sample_inc\<lparr>pt_dev := sample_dev\<lparr>sd_state := 2, sd_pending_ssets := [\<lparr>ss_sect = 24, ss_len = 8\<rparr>]\<rparr>,
     pt_heap := (arrives (page_bio REQ_OP_WRITE 3 0) 2 sample_bheap)\<lparr>bclock := 1, submitted := [1]\<rparr>\<rparr>"

definition changed_inc :: pit where
  "changed_inc = asked_inc\<lparr>pt_disk := (\<lambda>a. if a div 4096 = 3 then 9 else 7)\<rparr>"

lemma sample_inc_init: "inc_init (\<lambda>_. 7) ram_world sample_cow sample_inc"
  by (simp add: inc_init_def sample_inc_def sample_pit_def sample_cow_inv) (simp add: sample_dev_def sample_bheap_def NUM_SEGMENTS_div)

lemma sample_touched: "touched 0 (page_bio REQ_OP_WRITE 3 0) = {3}"
  by (auto simp: touched_def page_bio_def image_iff intro!: bexI[of _ 24])

lemma asked_inc_step: "inc_step ram_kernel sample_config sample_blk {} sample_inc asked_inc"
proof -
  let ?b = "page_bio REQ_OP_WRITE 3 0" and ?d = "sample_dev\<lparr>sd_state := 2\<rparr>"
  have fs: "bio_foreign sample_blk (Some 1) ?b = {24..<32}"
    by (simp add: bio_foreign_def sample_blk_def page_bio_def bio_segments_def page_get_inode_def)
  have 3: "foreign_blocks sample_blk ?d ?b = {3}"
    using fs by (auto simp: foreign_blocks_def SECTOR_TO_BLOCK_def sample_dev_def image_iff intro!: bexI[of _ 24])
  have t: "inc_trace_bio sample_config sample_blk 1 ?d (arrives ?b 2 sample_bheap) = (0, pt_dev asked_inc, pt_heap asked_inc)"
    by (simp add: inc_trace_bio_def asked_inc_def arrives_def sample_bheap_def page_bio_def bio_segments_def page_get_inode_def sample_dev_def inc_make_sset_def
      btick_def submit_real_def Let_def) (simp add: sample_blk_def)
  have e: "pt_dev sample_inc = ?d" "pt_heap sample_inc = sample_bheap" "fresh sample_bheap = 1" "sd_sect_off ?d = 0" "sd_size ?d = 32768" "sd_cow_inode ?d = Some 1"
    by (simp_all add: sample_inc_def sample_pit_def sample_bheap_def sample_dev_def)
  have tr: "tracer_should_trace_bio (Some ?d) ?b"
    by (simp add: sample_dev_def page_bio_def tracer_should_trace_bio_def bio_is_discard_def bio_data_dir_def tracer_read_fail_state_def tracer_sector_matches_bio_def)
  have "inc_step ram_kernel sample_config sample_blk {} sample_inc (sample_inc\<lparr>pt_dev := pt_dev asked_inc,
      pt_heap := (if USE_HOOK_TRACER sample_config then submit_real (fresh (pt_heap sample_inc)) (pt_heap asked_inc) else pt_heap asked_inc)\<rparr>)"
    by (rule inc_step.app_write[where f = 2 and b = ?b and ret = 0]) (use t fs in \<open>simp_all add: e 3 sample_touched tr del: One_nat_def\<close>, simp add: page_bio_def, auto)
  then show ?thesis by (simp add: asked_inc_def)
qed

lemma changed_inc_step: "inc_step ram_kernel sample_config sample_blk {} asked_inc changed_inc"
  unfolding changed_inc_def
  by (rule inc_step.device_write[where w = 1])
    (auto simp: asked_inc_def sample_inc_def sample_pit_def sample_bheap_def arrives_def sample_touched sample_dev_def split: if_splits)

lemma changed_inc_reached: "(inc_step ram_kernel sample_config sample_blk {})\<^sup>*\<^sup>* sample_inc changed_inc"
  using asked_inc_step changed_inc_step by (meson rtranclp.rtrancl_into_rtrancl rtranclp.rtrancl_refl)

theorem incremental_marks_changes_witness:
  "\<exists>cm. pt_cow changed_inc = Some cm \<and> blk_of (pt_disk changed_inc) 3 \<noteq> blk_of (\<lambda>_. 7) 3 \<and>
     (cow_map (pt_world changed_inc) cm 3 \<noteq> 0 \<or> 3 \<in> sset_blocks (sd_pending_ssets (pt_dev changed_inc)))"
proof -
  have n: "blk_of (pt_disk changed_inc) 3 \<noteq> blk_of (\<lambda>_. 7) 3"
    by (auto simp: fun_eq_iff blk_of_def block_of_def changed_inc_def intro!: exI[of _ 0])
  have "sd_fail_code (pt_dev changed_inc) = 0" by (simp add: changed_inc_def asked_inc_def sample_dev_def)
  from incremental_marks_changes[OF ram_kernel_ok sample_inc_init changed_inc_reached this] n show ?thesis by blast
qed

text \<open>The thread marks block 3, the COW file is written out, and the tool copies the block.\<close>

definition marked_cow :: cow_manager where
  "marked_cow = sample_cow\<lparr>nr_changed_blocks := 1, allocated_sects := 1, sects := Some [\<lparr>has_data = True, usage = 1, mappings = Some ((\<lambda>_. 0)(3 := 1))\<rparr>]\<rparr>"

lemma ram_pages: "k_pages ram_kernel t = Some (\<lambda>_. 0)"
  by (simp add: ram_kernel_def)

lemma sample_filler: "cow_write_filler_mapping ram_kernel 3 ram_world sample_cow = Some (0, ktick ram_world, marked_cow)"
  by (simp add: cow_write_filler_mapping_def cow_write_mapping_def sample_cow_def sect_at_def put_sect_def cow_alloc_section_def marked_cow_def ram_pages Let_def)

lemma sample_mark: "inc_handle_sset ram_kernel \<lparr>ss_sect = 24, ss_len = 8\<rparr> ram_world sample_cow = Some (0, ktick ram_world, marked_cow)"
  using sample_filler by (simp add: inc_handle_sset_def NUM_SEGMENTS_div SECTOR_TO_BLOCK_def)

lemma marked_sync: "\<exists>w'. cow_sync_and_free ram_kernel (ktick ram_world) marked_cow = Some (0, w')"
proof -
  let ?d = "\<lparr>df_inode = 0, df_mnt = 0, writers = 0\<rparr>" and ?m = "(\<lambda>_. 0)(3 := 1)"
  obtain w1 where "file_write ram_kernel (Some ?d) (mappings_buf ?m) 4096 (4096 * 8) (ktick ram_world) = (0, Some ?d, w1)"
    using ram_write by blast
  then obtain cm1 where sy: "cow_sync_and_free_sections ram_kernel 0 (ktick ram_world) marked_cow = Some (0, w1, cm1)" "dfilp cm1 = Some ?d"
    by (simp add: cow_sync_and_free_sections_def marked_cow_def sample_cow_def sect_at_def put_sect_def cow_write_section_def cow_free_section_def section_off_def)
  then show ?thesis using ram_header[OF sy(2), of True w1] by (auto simp: cow_sync_and_free_def)
qed

definition marked_inc :: pit where
  "marked_inc = changed_inc\<lparr>pt_dev := sample_dev\<lparr>sd_state := 2\<rparr>, pt_world := ktick ram_world, pt_cow := Some marked_cow\<rparr>"

lemma marked_inc_reached: "(inc_step ram_kernel sample_config sample_blk {})\<^sup>*\<^sup>* sample_inc marked_inc"
proof -
  have "inc_sset_thread ram_kernel (pt_failed changed_inc) (pt_dev changed_inc) (pt_world changed_inc) (pt_cow changed_inc) =
      Some (False, sample_dev\<lparr>sd_state := 2\<rparr>, ktick ram_world, Some marked_cow)"
    using sample_mark by (simp add: inc_sset_thread_def thread_fail_check_def tracer_read_fail_state_def changed_inc_def asked_inc_def sample_inc_def sample_pit_def)
      (simp add: sample_dev_def)
  from inc_step.sset_turn[OF this, of sample_config sample_blk "{}"]
  have "inc_step ram_kernel sample_config sample_blk {} changed_inc marked_inc"
    by (simp add: marked_inc_def changed_inc_def asked_inc_def sample_inc_def sample_pit_def)
  with changed_inc_reached show ?thesis by (rule rtranclp.rtrancl_into_rtrancl)
qed

lemma marked_header:
  assumes "cow_sync_and_free ram_kernel (ktick ram_world) marked_cow = Some (0, w')"
  shows "buf_header (data_of w' 0) = header_of (marked_cow\<lparr>flags := clean_flag True (flags marked_cow)\<rparr>)"
proof -
  have "sd_fail_code (pt_dev marked_inc) = 0" by (simp add: marked_inc_def sample_dev_def)
  then obtain cm where k: "inc_ok {} (\<lambda>_. 7) ram_world sample_cow marked_inc cm"
    by (rule inc_reachable[OF ram_kernel_ok sample_inc_init marked_inc_reached])
  have e: "cm = marked_cow" "pt_world marked_inc = ktick ram_world" using inc_okD(2)[OF k] by (simp_all add: marked_inc_def)
  have "cow_zero (ktick ram_world) marked_cow" "length (uuid marked_cow) = 16" "dfilp marked_cow = Some \<lparr>df_inode = 0, df_mnt = 0, writers = 0\<rparr>"
    using inc_okD(4)[OF k] sample_cow_facts by (simp_all add: same_file_def e marked_cow_def)
  from cow_sync_and_free_ok(1)[OF ram_kernel_ok inc_okD(3)[OF k, unfolded e] this assms] show ?thesis by (simp add: holds_cow_def)
qed

theorem update_img_follows_incremental_witness:
  "\<exists>w' count st'. cow_sync_and_free ram_kernel (pt_world marked_inc) marked_cow = Some (0, w') \<and>
     update_img sample_os \<lparr>o_snap = None, o_cow = None, o_img = None, o_realpath = Inr ''/dev/moocbt3''\<rparr>
       (\<lambda>_. Inr (sample_info\<lparr>i_uuid := replicate 16 0\<rparr>)) \<lparr>uf_data = pt_disk marked_inc, uf_size = 16777216\<rparr>
       \<lparr>uf_data = data_of w' 0, uf_size = 36864\<rparr> \<lparr>u_errno = 0, u_clock = 0, u_img = (\<lambda>_. 7)\<rparr> = (0, count, 0, st') \<and>
     u_img st' 12288 = 9 \<and> u_img st' 0 = 7"
proof -
  obtain w' where w': "cow_sync_and_free ram_kernel (ktick ram_world) marked_cow = Some (0, w')" using marked_sync by blast
  let ?cow = "\<lparr>uf_data = data_of w' 0, uf_size = 36864\<rparr>" and ?st = "\<lparr>u_errno = 0, u_clock = 0, u_img = (\<lambda>_. 7)\<rparr>"
    and ?info = "\<lambda>_::nat. Inr (sample_info\<lparr>i_uuid := replicate 16 0\<rparr>) :: int + moocbt_info"
    and ?fs = "\<lparr>o_snap = None, o_cow = None, o_img = None, o_realpath = Inr ''/dev/moocbt3''\<rparr>"
  have sc: "scan_minor ''/dev/moocbt3'' = Some 3" by (simp add: scan_minor_def isdigit_def base_val_def digit_val_def Let_def)
  have v: "verify_files sample_os ?cow (?info 3) ?st = (0, utick (utick ?st))"
    using marked_header[OF w'] by (simp add: verify_files_def Let_def pread_def sample_os_def) (simp add: header_of_def marked_cow_def sample_cow_def sample_info_def)
  have s: "steady sample_os" by (simp add: steady_def sample_os_def)
  have m: "sd_fail_code (pt_dev marked_inc) = 0" "sd_pending_ssets (pt_dev marked_inc) = []" "pt_cow marked_inc = Some marked_cow"
    "cow_sync_and_free ram_kernel (pt_world marked_inc) marked_cow = Some (0, w')"
    using w' by (simp_all add: marked_inc_def sample_dev_def)
  from update_img_follows_incremental[OF ram_kernel_ok sample_inc_init sample_cow_facts(3,2,1) marked_inc_reached m, of ?cow 36864 "\<lparr>uf_data = pt_disk marked_inc, uf_size = 16777216\<rparr>" 16777216
      sample_os ?st ?fs "''/dev/moocbt3''" 3 ?info] sc v s
  obtain count st' where u: "update_img sample_os ?fs ?info \<lparr>uf_data = pt_disk marked_inc, uf_size = 16777216\<rparr> ?cow ?st = (0, count, 0, st')"
    "\<forall>x. x div 4096 < 16777216 div 4096 \<longrightarrow> u_img st' x = pt_disk marked_inc x"
    by (auto simp: sample_cow_inv(3))
  then have "u_img st' 12288 = 9" "u_img st' 0 = 7" by (simp_all add: marked_inc_def changed_inc_def)
  then show ?thesis using u(1) m(4) by blast
qed

end
