(* ===== verification/Task_Work.thy ===== *)
theory Task_Work
  imports Prelude
begin

text \<open>
  Flushing the work that waits for the current task (\<^verbatim>\<open>src/src/task_helper.c\<close>), in the two forms the kernel asks for, so that the closing of
  files and mounts takes effect at once.
\<close>

subsection \<open>Model\<close>

text \<open>
  The list of waiting callbacks, newest first, and the callbacks that have run. \<open>F\<close> gives the callbacks that a callback adds when it runs.
\<close>

record task_works =
  tk_works :: "nat list"
  tk_ran :: "nat list"

definition call_work :: "(nat \<Rightarrow> nat list) \<Rightarrow> nat \<Rightarrow> task_works \<Rightarrow> task_works" where
  "call_work F x st = \<lparr>tk_works = rev (F x) @ tk_works st, tk_ran = tk_ran st @ [x]\<rparr>"

text \<open>The doubly linked form: the list is taken once and walked from its last element back to the first.\<close>

fun flush_back :: "(nat \<Rightarrow> nat list) \<Rightarrow> nat list \<Rightarrow> nat \<Rightarrow> task_works \<Rightarrow> task_works" where
  "flush_back F ws 0 st = call_work F (ws ! 0) st"
| "flush_back F ws (Suc pos) st = flush_back F ws pos (call_work F (ws ! Suc pos) st)"

definition task_work_flush_hlist :: "(nat \<Rightarrow> nat list) \<Rightarrow> task_works \<Rightarrow> task_works" where
  "task_work_flush_hlist F st =
     (let ws = tk_works st; st = st\<lparr>tk_works := []\<rparr> in
      if ws = [] then st else flush_back F ws (length ws - 1) st)"

text \<open>The singly linked form: until the list is empty it is taken, reversed and run.\<close>

fun reverse_works :: "nat list \<Rightarrow> nat list \<Rightarrow> nat list" where
  "reverse_works [] head = head"
| "reverse_works (work # next) head = reverse_works next (work # head)"

fun run_works :: "(nat \<Rightarrow> nat list) \<Rightarrow> nat list \<Rightarrow> task_works \<Rightarrow> task_works" where
  "run_works F [] st = st"
| "run_works F (work # next) st = run_works F next (call_work F work st)"

partial_function (option) task_work_flush_cb :: "(nat \<Rightarrow> nat list) \<Rightarrow> task_works \<Rightarrow> task_works option" where
  "task_work_flush_cb F st =
     (let work = tk_works st; st = st\<lparr>tk_works := []\<rparr> in
      if work = [] then Some st else task_work_flush_cb F (run_works F (reverse_works work []) st))"

subsection \<open>Both run the waiting callbacks, oldest first\<close>

lemma reverse_works_rev: "reverse_works ws head = rev ws @ head"
  by (induction ws arbitrary: head) auto

lemma run_works_state:
  "run_works F ws st = \<lparr>tk_works = rev (concat (map F ws)) @ tk_works st, tk_ran = tk_ran st @ ws\<rparr>"
  by (induction ws arbitrary: st) (simp_all add: call_work_def)

lemma flush_back_run: "pos < length ws \<Longrightarrow> flush_back F ws pos st = run_works F (rev (take (Suc pos) ws)) st"
  by (induction pos arbitrary: st) (simp_all add: take_Suc_conv_app_nth)

text \<open>The doubly linked form runs what waited, oldest first, and leaves what the callbacks added.\<close>

lemma task_work_flush_hlist_once:
  "task_work_flush_hlist F st = \<lparr>tk_works = rev (concat (map F (rev (tk_works st)))), tk_ran = tk_ran st @ rev (tk_works st)\<rparr>"
  by (cases "tk_works st") (simp_all add: task_work_flush_hlist_def flush_back_run run_works_state Let_def)

text \<open>
  The singly linked form ends when callbacks only add callbacks of a lower rank, with none left waiting, and starts with what waited, oldest first.
\<close>

lemma flush_cb_empty: "tk_works st = [] \<Longrightarrow> task_work_flush_cb F st = Some \<lparr>tk_works = [], tk_ran = tk_ran st\<rparr>"
  by (subst task_work_flush_cb.simps) (cases st, simp)

lemma task_work_flush_cb_all:
  assumes "\<And>x y. y \<in> set (F x) \<Longrightarrow> rank y < (rank x :: nat)"
  shows "\<forall>x \<in> set (tk_works st). rank x < n \<Longrightarrow>
    \<exists>more. task_work_flush_cb F st = Some \<lparr>tk_works = [], tk_ran = tk_ran st @ rev (tk_works st) @ more\<rparr>"
proof (induction n arbitrary: st)
  case 0
  then have "tk_works st = []" by (cases "tk_works st") auto
  then show ?case by (simp add: flush_cb_empty)
next
  case (Suc n)
  let ?st = "\<lparr>tk_works = rev (concat (map F (rev (tk_works st)))), tk_ran = tk_ran st @ rev (tk_works st)\<rparr>"
  have "\<forall>x \<in> set (tk_works ?st). rank x < n" using Suc.prems assms by (fastforce simp: less_Suc_eq_le dest: order.strict_trans2)
  from Suc.IH[OF this] obtain more where "task_work_flush_cb F ?st = Some \<lparr>tk_works = [], tk_ran = tk_ran ?st @ rev (tk_works ?st) @ more\<rparr>" by blast
  moreover have "task_work_flush_cb F st = task_work_flush_cb F ?st" if "tk_works st \<noteq> []"
    by (subst task_work_flush_cb.simps) (use that in \<open>simp add: Let_def reverse_works_rev run_works_state\<close>)
  ultimately show ?case by (cases "tk_works st = []") (simp_all add: flush_cb_empty)
qed

text \<open>When callbacks add nothing the two forms agree.\<close>

lemma task_work_flush_agree:
  assumes "\<And>x. F x = []"
  shows "task_work_flush_cb F st = Some (task_work_flush_hlist F st)"
proof -
  let ?st = "\<lparr>tk_works = [], tk_ran = tk_ran st @ rev (tk_works st)\<rparr>"
  have e: "task_work_flush_cb F ?st = Some ?st" by (simp add: flush_cb_empty)
  have c: "concat (map F ws) = []" for ws using assms by (induction ws) auto
  from e show ?thesis
    by (subst task_work_flush_cb.simps) (simp add: task_work_flush_hlist_once Let_def reverse_works_rev run_works_state c)
qed

end
