(* ===== verification/Spec2Isabelle.thy ===== *)
theory Spec2Isabelle
  imports Cow_Life Inc_Tracing Tracing_Fn Unload Commands Update_Img Moo Proc Hooks Pit_Theorems Incremental Task_Work
begin

text \<open>
  A verification library for moocbt, a Linux kernel module that takes point in time snapshots of a mounted block device and then
  keeps track of the blocks that change.

  \<^bold>\<open>The program.\<close> A device of the driver traces one block device. As a \<^emph>\<open>snapshot\<close> it holds every write back until the old
  content of the blocks has been read (a \<^emph>\<open>read clone\<close>), saves that content in a COW file that lies on the traced device itself, and offers a
  read-only disk whose content is the saved blocks over the base device. As an \<^emph>\<open>incremental\<close> it lets writes pass and only marks
  their blocks in the index of the COW file. A device is \<^emph>\<open>active\<close> while its file system is mounted, \<^emph>\<open>dormant\<close> when it was unmounted, and
  \<^emph>\<open>unverified\<close> when it was announced before the mount. User space drives it with ioctl commands, mount and unmount system calls are hooked, and
  \<^verbatim>\<open>update-img\<close> uses the index of an incremental to bring an image up to date.

  \<^bold>\<open>Theories and sources.\<close> File names are those below \<^verbatim>\<open>src/src\<close>, unless a directory is given.

  \<^descr> \<open>Prelude\<close>: machine integers, error numbers, the layout of an index entry, the monad of partial results, the contract \<open>state_machine\<close> of a
    transition system with an invariant.
  \<^descr> \<open>Filesystem\<close>: \<^verbatim>\<open>filesystem.c\<close>: \<^verbatim>\<open>file_io\<close>, \<^verbatim>\<open>file_open\<close>, \<^verbatim>\<open>file_allocate\<close>, \<^verbatim>\<open>file_truncate\<close> and the other services over an
    explicit kernel; a world is the content of the files with a clock.
  \<^descr> \<open>Cow_Manager\<close>, \<open>Cow_Index\<close>, \<open>Cow_Store\<close>, \<open>Cow_Life\<close>: \<^verbatim>\<open>cow_manager.c\<close>. The record \<open>cow_manager\<close> has the fields of the C structure, the sections of the
    index are cached, evicted and loaded as in the code. \<open>Cow_Index\<close> gives the index as one function \<open>cow_map\<close>, \<open>Cow_Store\<close> the saved blocks as the partial
    function \<open>cow_saved\<close>, \<open>Cow_Life\<close> creation, truncation, closing and reading back (C1 to C7).
  \<^descr> \<open>Bio\<close>, \<open>Snap_Handle\<close>: \<^verbatim>\<open>bio_helper.h\<close> and \<^verbatim>\<open>snap_handle.c\<close>: a request of the snapshot disk read from both sources, a captured
    write saved, a sector set marked (C8 to C10).
  \<^descr> \<open>Queues\<close>: \<^verbatim>\<open>bio_list.c\<close>, \<^verbatim>\<open>bio_queue.c\<close>, \<^verbatim>\<open>sset_list.c\<close>, \<^verbatim>\<open>sset_queue.c\<close> with their head and tail pointers in an explicit heap; the
    interpretations of the queue contract make them lists (C11 to C13).
  \<^descr> \<open>Snap_Device\<close>, \<open>Tracing\<close>, \<open>Tracing_Lemmas\<close>, \<open>Inc_Tracing\<close>, \<open>Tracing_Fn\<close>: \<^verbatim>\<open>snap_device.h\<close>, \<^verbatim>\<open>tracing_params.c\<close>, \<^verbatim>\<open>tracer_helper.c\<close>, \<^verbatim>\<open>module_threads.c\<close>, the read
    clones of \<^verbatim>\<open>bio_helper.c\<close> and the tracing functions of \<^verbatim>\<open>tracer.c\<close>: what happens to one write, and one turn of each thread (C15 to C18, C22).
  \<^descr> \<open>Point_In_Time\<close>, \<open>Pit_Inv\<close>, \<open>Pit_Read\<close>, \<open>Pit_Turn\<close>, \<open>Pit_Write\<close>, \<open>Pit_Theorems\<close>: a snapshot at work, as a step relation over those functions: writes
    arrive, clones are read and complete, writes are performed, threads take turns, and the snapshot disk is read, in any order. The invariant joins the COW manager, the handlers, the
    queues and the tracers: what the snapshot disk returns is the base device as it was (C36 to C38).
  \<^descr> \<open>Incremental\<close>: an incremental at work, in the same way: no changed block escapes the index (C39), and \<^verbatim>\<open>update-img\<close>, run on the COW file it leaves,
    turns an image of the device at its beginning into an image of the device at its end (C40).
  \<^descr> \<open>Transitions\<close>, \<open>Tracer\<close>, \<open>Setup\<close>, \<open>Tracer_Lemmas\<close>: the life of a device in \<^verbatim>\<open>tracer.c\<close>, \<^verbatim>\<open>blkdev.c\<close>, \<^verbatim>\<open>callback_refs.c\<close>, \<^verbatim>\<open>mrf.c\<close>: setup with its error paths,
    destruction, tracing switched on and off under a frozen file system, the references to block devices.
  \<^descr> \<open>Bdev_State\<close>, \<open>Ioctl\<close>, \<open>Module\<close>: \<^verbatim>\<open>bdev_state_handler.c\<close>, \<^verbatim>\<open>ioctl_handlers.c\<close> with \<^verbatim>\<open>userspace_copy_helpers.c\<close>, \<^verbatim>\<open>module_control.c\<close> with
    \<^verbatim>\<open>snap_device.c\<close>.
  \<^descr> \<open>Drv_Table\<close>, \<open>Drv_Setup\<close>, \<open>Drv_Destroy\<close>, \<open>Drv_Auto\<close>, \<open>Drv_Transitions\<close>, \<open>Driver\<close>, \<open>Unload\<close>, \<open>Commands\<close>: the invariant of the whole driver, its preservation by each operation, the
    driver as a state machine, and what each command promises (C19 to C21, C23 to C28).
  \<^descr> \<open>Rethook\<close>: \<^verbatim>\<open>preempt_rethook.c\<close>: return hooks with their trampoline, and tasks that nest hooked calls as a step relation (C14).
  \<^descr> \<open>Hooks\<close>: \<^verbatim>\<open>ftrace_hooking.c\<close>: the mount and unmount hooks in each of the forms the kernel asks for (C34, C35).
  \<^descr> \<open>Task_Work\<close>: \<^verbatim>\<open>task_helper.c\<close>: both forms of flushing the work of a task run what waits, oldest first.
  \<^descr> \<open>Proc\<close>: \<^verbatim>\<open>proc_seq_file.c\<close> below the sequential file reader of the kernel (C32, C33).
  \<^descr> \<open>Libmoocbt\<close>, \<open>Moo\<close>, \<open>Update_Img\<close>: \<^verbatim>\<open>src/lib/libmoocbt.c\<close>, \<^verbatim>\<open>src/app/moo.c\<close>, \<^verbatim>\<open>src/utils/update-img.c\<close> (C29 to C31).

  \<^bold>\<open>State and errors.\<close> A C function takes the parts of the state it uses and returns them updated, beside its return code, an \<open>int\<close> with the
  values of \<^verbatim>\<open>errno.h\<close>. \<open>None\<close> stands for what C leaves undefined or for a call that never returns (a null or dangling pointer, a \<^verbatim>\<open>BUG_ON\<close>, a loop that does not end), so a
  theorem that a result is \<open>Some\<close> says that none of this happens. Counters and sizes whose width matters are words (the header of the COW file, mappings, the number of
  changed blocks, the arguments of commands); positions that the code keeps far below their width are natural numbers. Each function that asks the kernel for something it may refuse reads
  the answer at the clock of the state and advances it, so that every pattern of failures is covered.

  \<^bold>\<open>Termination.\<close> The loops over segments, blocks, sections and slots are structural or have a measure (\<open>get_mode_seg\<close>, \<open>seq_read\<close>); the reading order of the pointer
  queues (\<open>delay_scan\<close>) returns on every well-formed queue (C12); the loop that makes clones until the write is covered is a \<open>partial_function\<close>, and C15 shows that it ends when the
  block layer accepts at least one page per clone; flushing the work of a task is one too, and ends when callbacks add only callbacks of a lower rank. No definition uses fuel.

  \<^bold>\<open>What is assumed of the kernel\<close>, each a named hypothesis with a concrete instance: \<open>kernel_ok\<close> (a read or write that reports full length has done it, and touches nothing
  else), \<open>submit_ok\<close> (a read of the base device that reports success filled the pages), \<open>blk_progress\<close> (a clone takes at least one page), \<open>freeze_ok\<close> (a mounted file system can be
  frozen), \<open>lookup_errors\<close> and \<open>mount_ok\<close> (what looking up a path and a mount table answer). Names of symbols, strings of the build, and the answers of registrations are parameters.

  \<^bold>\<open>The snapshot at work.\<close> In the step relation a turn of a kernel thread is one step. The functions themselves keep the order of the code, but a read of the snapshot that looks at the
  index before a capture and at the base device after the write is not an interleaving of the model; neither is a COW thread that takes a later capture of a block before an earlier one (\<open>in_order\<close>),
  which the queue allows: C37 shows what happens then. Only traced writes change the base device; discards and writes that arrive before the tracing function is in place do not occur.

  \<^bold>\<open>Not modelled.\<close> The 32 bit trampoline of \<^verbatim>\<open>preempt_rethook.c\<close>, the write protection of pages and the symbol lookup are
  assembler or kernel mechanics with no value the driver computes with; whether they succeed is a parameter. The branches of \<^verbatim>\<open>filesystem.c\<close>, \<^verbatim>\<open>bio_helper.c\<close> and
  \<^verbatim>\<open>blkdev.c\<close> that rebuild a service an old kernel lacks are behind the parameters that give the service; \<^verbatim>\<open>snap_merge_bvec\<close> exists only for such
  kernels. Locks make the operations between them atomic and have no definition of their own. Log messages and the texts the tools print are left out.
\<close>

end
